(* ===== verification/Optee_Prelude.thy ===== *)
theory Optee_Prelude
  imports Main "HOL-Library.Word" "HOL-Library.Signed_Division"
begin

text \<open>
  Shared vocabulary of the development: the machine integer types of the AArch64 build, a
  result type whose left summand is an execution the C code must not have (signed overflow,
  an access outside an array, a read of the wrong union member, a panic), the checked
  arithmetic of \<open>int32_t\<close> and \<open>int64_t\<close>, bounded loops over array indices, and the
  little-endian byte layout of 32-bit fields.
\<close>

unbundle bit_operations_syntax

section \<open>Machine integers\<close>

type_synonym u8 = "8 word"
type_synonym u16 = "16 word"
type_synonym u32 = "32 word"
type_synonym u64 = "64 word"

section \<open>Executions that may go wrong\<close>

datatype fault =
    Signed_overflow
  | Out_of_bounds
  | Bad_union
  | Div_by_zero
  | Panic

type_synonym 'a res = "fault + 'a"

named_theorems cmonad

definition cbind :: "'a res \<Rightarrow> ('a \<Rightarrow> 'b res) \<Rightarrow> 'b res" where
  "cbind m f = (case m of Inl e \<Rightarrow> Inl e | Inr x \<Rightarrow> f x)"

lemma cbind_simps [simp]:
  "cbind (Inl e) f = Inl e"
  "cbind (Inr x) f = f x"
  by (simp_all add: cbind_def)

lemma cbind_Inr_iff [cmonad]:
  "cbind m f = Inr y \<longleftrightarrow> (\<exists>x. m = Inr x \<and> f x = Inr y)"
  by (cases m) auto

lemma cbind_Inl_iff [cmonad]:
  "cbind m f = Inl e \<longleftrightarrow> m = Inl e \<or> (\<exists>x. m = Inr x \<and> f x = Inl e)"
  by (cases m) auto

lemma cbind_assoc: "cbind (cbind m f) g = cbind m (\<lambda>x. cbind (f x) g)"
  by (cases m) auto

lemma cbind_cong [fundef_cong]:
  "m = m' \<Longrightarrow> (\<And>x. m' = Inr x \<Longrightarrow> f x = g x) \<Longrightarrow> cbind m f = cbind m' g"
  by (cases m') auto

definition cguard :: "fault \<Rightarrow> bool \<Rightarrow> unit res" where
  "cguard e b = (if b then Inr () else Inl e)"

lemma cguard_simps [simp]:
  "b \<Longrightarrow> cguard e b = Inr ()"
  "\<not> b \<Longrightarrow> cguard e b = Inl e"
  by (simp_all add: cguard_def)

lemma cguard_Inr_iff [cmonad]: "cguard e b = Inr u \<longleftrightarrow> b"
  by (simp add: cguard_def)

subsection \<open>Array accesses\<close>

definition aread :: "'a list \<Rightarrow> nat \<Rightarrow> 'a res" where
  "aread xs i = (if i < length xs then Inr (xs ! i) else Inl Out_of_bounds)"

definition awrite :: "'a list \<Rightarrow> nat \<Rightarrow> 'a \<Rightarrow> 'a list res" where
  "awrite xs i v = (if i < length xs then Inr (xs[i := v]) else Inl Out_of_bounds)"

lemma aread_ok [simp]: "i < length xs \<Longrightarrow> aread xs i = Inr (xs ! i)"
  by (simp add: aread_def)

lemma awrite_ok [simp]: "i < length xs \<Longrightarrow> awrite xs i v = Inr (xs[i := v])"
  by (simp add: awrite_def)

lemma aread_Inr_iff [cmonad]: "aread xs i = Inr v \<longleftrightarrow> i < length xs \<and> v = xs ! i"
  by (auto simp: aread_def)

lemma awrite_Inr_iff [cmonad]: "awrite xs i v = Inr ys \<longleftrightarrow> i < length xs \<and> ys = xs[i := v]"
  by (auto simp: awrite_def)

text \<open>\<open>memmove\<close> of \<open>bs\<close> into a buffer at an offset; outside the buffer it is a fault.\<close>

definition mem_write :: "'a list \<Rightarrow> nat \<Rightarrow> 'a list \<Rightarrow> 'a list res" where
  "mem_write buf off bs =
     (if off + length bs \<le> length buf
      then Inr (take off buf @ bs @ drop (off + length bs) buf)
      else Inl Out_of_bounds)"

definition mem_read :: "'a list \<Rightarrow> nat \<Rightarrow> nat \<Rightarrow> 'a list res" where
  "mem_read buf off n =
     (if off + n \<le> length buf then Inr (take n (drop off buf)) else Inl Out_of_bounds)"

lemma mem_write_Inr_iff [cmonad]:
  "mem_write buf off bs = Inr buf' \<longleftrightarrow>
     off + length bs \<le> length buf \<and> buf' = take off buf @ bs @ drop (off + length bs) buf"
  by (auto simp: mem_write_def)

lemma mem_write_ok:
  "off + length bs \<le> length buf \<Longrightarrow>
     mem_write buf off bs = Inr (take off buf @ bs @ drop (off + length bs) buf)"
  by (simp add: mem_write_def)

lemma mem_read_ok:
  "off + n \<le> length buf \<Longrightarrow> mem_read buf off n = Inr (take n (drop off buf))"
  by (simp add: mem_read_def)

lemma mem_write_length: "mem_write buf off bs = Inr buf' \<Longrightarrow> length buf' = length buf"
  by (auto simp: mem_write_Inr_iff)

lemma mem_write_read:
  "mem_write buf off bs = Inr buf' \<Longrightarrow> mem_read buf' off (length bs) = Inr bs"
  by (auto simp: mem_write_Inr_iff mem_read_def)

subsection \<open>Executions without memory errors\<close>

text \<open>
  \<open>safe m P\<close>: the execution accesses no array out of bounds, reads no wrong union member, divides
  by no zero and does not panic. It either yields a value with \<open>P\<close> or overflows a signed
  integer.
\<close>

definition safe :: "'a res \<Rightarrow> ('a \<Rightarrow> bool) \<Rightarrow> bool" where
  "safe m P \<longleftrightarrow> (case m of Inl e \<Rightarrow> e = Signed_overflow | Inr x \<Rightarrow> P x)"

named_theorems safe_rules

lemma safe_simps [simp]:
  "safe (Inl e) P \<longleftrightarrow> e = Signed_overflow"
  "safe (Inr x) P \<longleftrightarrow> P x"
  by (simp_all add: safe_def)

lemma safe_bind [safe_rules]: "safe m (\<lambda>x. safe (f x) P) \<Longrightarrow> safe (cbind m f) P"
  by (cases m) auto

lemma safe_aread [safe_rules]: "i < length xs \<Longrightarrow> P (xs ! i) \<Longrightarrow> safe (aread xs i) P"
  by simp

lemma safe_awrite [safe_rules]: "i < length xs \<Longrightarrow> P (xs[i := v]) \<Longrightarrow> safe (awrite xs i v) P"
  by simp

lemma safe_mono: "safe m P \<Longrightarrow> (\<And>x. P x \<Longrightarrow> Q x) \<Longrightarrow> safe m Q"
  by (cases m) auto

lemma safe_iff: "safe m P \<longleftrightarrow> m = Inl Signed_overflow \<or> (\<exists>x. m = Inr x \<and> P x)"
  by (cases m) auto

subsection \<open>Bounded loops\<close>

text \<open>\<open>for (i = a; i < n; i++) s = f(i, s)\<close>, as a fold over \<open>[a..<n]\<close> that stops at a fault.\<close>

fun cfor :: "nat list \<Rightarrow> (nat \<Rightarrow> 's \<Rightarrow> 's res) \<Rightarrow> 's \<Rightarrow> 's res" where
  "cfor [] f s = Inr s"
| "cfor (i # is) f s = cbind (f i s) (cfor is f)"

lemma cfor_append: "cfor (xs @ ys) f s = cbind (cfor xs f s) (cfor ys f)"
  by (induction xs arbitrary: s) (simp_all add: cbind_assoc cong: cbind_cong)

text \<open>
  The rule for total loops: when every iteration succeeds under an invariant, so does the
  loop, and it ends with the invariant at the upper bound.
\<close>

lemma cfor_invariant:
  assumes "a \<le> n" and "P a s"
    and "\<And>i t. a \<le> i \<Longrightarrow> i < n \<Longrightarrow> P i t \<Longrightarrow> \<exists>t'. f i t = Inr t' \<and> P (Suc i) t'"
  shows "\<exists>t. cfor [a..<n] f s = Inr t \<and> P n t"
  using assms
proof (induction n)
  case 0
  then show ?case by simp
next
  case (Suc n)
  show ?case
  proof (cases "a = Suc n")
    case True
    with Suc.prems show ?thesis by simp
  next
    case False
    with Suc.prems(1) have "a \<le> n" by simp
    from Suc.IH [OF this Suc.prems(2)] obtain t
      where t: "cfor [a..<n] f s = Inr t" and P: "P n t"
      using Suc.prems(3) by (meson less_Suc_eq)
    from Suc.prems(3) [OF \<open>a \<le> n\<close> _ P] obtain t' where "f n t = Inr t'" "P (Suc n) t'"
      by auto
    with t \<open>a \<le> n\<close> show ?thesis by (simp add: cfor_append)
  qed
qed

text \<open>A loop whose iterations are pure is a fold.\<close>

lemma cfor_pure:
  "(\<And>i t. i \<in> set is \<Longrightarrow> f i t = Inr (g i t)) \<Longrightarrow> cfor is f s = Inr (fold g is s)"
  by (induction "is" arbitrary: s) simp_all

lemma safe_cfor:
  assumes "I s" and "\<And>i t. i \<in> set is \<Longrightarrow> I t \<Longrightarrow> safe (f i t) I"
  shows "safe (cfor is f s) I"
  using assms
proof (induction "is" arbitrary: s)
  case (Cons i "is")
  have "safe (f i s) I" using Cons.prems by simp
  then have "safe (f i s) (\<lambda>t. safe (cfor is f t) I)"
    by (rule safe_mono) (use Cons in auto)
  then show ?case by (simp add: safe_bind)
qed simp

lemma fold_sum_upt:
  fixes c :: "nat \<Rightarrow> int"
  shows "fold (\<lambda>i acc. acc + c i) [0..<n] a = a + (\<Sum>i<n. c i)"
  by (induction n) simp_all

section \<open>Signed C arithmetic\<close>

definition in_i32 :: "int \<Rightarrow> bool" where
  "in_i32 v \<longleftrightarrow> - (2 ^ 31) \<le> v \<and> v < 2 ^ 31"

definition in_i64 :: "int \<Rightarrow> bool" where
  "in_i64 v \<longleftrightarrow> - (2 ^ 63) \<le> v \<and> v < 2 ^ 63"

definition i32 :: "int \<Rightarrow> int res" where
  "i32 v = (if in_i32 v then Inr v else Inl Signed_overflow)"

definition i64 :: "int \<Rightarrow> int res" where
  "i64 v = (if in_i64 v then Inr v else Inl Signed_overflow)"

text \<open>
  Division truncates towards zero; dividing by zero, and the one quotient that does not fit,
  are undefined.
\<close>

definition i64_div :: "int \<Rightarrow> int \<Rightarrow> int res" where
  "i64_div a b = (if b = 0 then Inl Div_by_zero else i64 (a sdiv b))"

text \<open>Conversion of an \<open>int64_t\<close> to \<open>int32_t\<close> keeps the low 32 bits.\<close>

definition to_i32 :: "int \<Rightarrow> int" where
  "to_i32 v = sint (word_of_int v :: u32)"

lemma in_i32I: "\<bar>v\<bar> < 2 ^ 31 \<Longrightarrow> in_i32 v"
  unfolding in_i32_def by linarith

lemma in_i64I: "\<bar>v\<bar> < 2 ^ 63 \<Longrightarrow> in_i64 v"
  unfolding in_i64_def by linarith

lemma i32_ok [simp]: "in_i32 v \<Longrightarrow> i32 v = Inr v"
  by (simp add: i32_def)

lemma i64_ok [simp]: "in_i64 v \<Longrightarrow> i64 v = Inr v"
  by (simp add: i64_def)

lemma i32_Inr_iff [cmonad]: "i32 v = Inr w \<longleftrightarrow> in_i32 v \<and> w = v"
  by (auto simp: i32_def)

lemma i64_Inr_iff [cmonad]: "i64 v = Inr w \<longleftrightarrow> in_i64 v \<and> w = v"
  by (auto simp: i64_def)

lemma in_i32_sint [simp]: "in_i32 (sint (x :: u32))"
  using sint_ge [of x] sint_lt [of x] by (simp add: in_i32_def)

lemma sint_u32_bounds:
  fixes x :: u32
  shows "- 2147483648 \<le> sint x" "sint x < 2147483648"
  using in_i32_sint [of x] by (simp_all add: in_i32_def)

lemma sint_word_of_int: "in_i32 v \<Longrightarrow> sint (word_of_int v :: u32) = v"
  by (simp add: in_i32_def sint_sbintrunc' signed_take_bit_int_eq_self)

lemma to_i32_id: "in_i32 v \<Longrightarrow> to_i32 v = v"
  by (simp add: to_i32_def sint_word_of_int)

lemma in_i32_to_i32 [simp]: "in_i32 (to_i32 v)"
  by (simp add: to_i32_def)

lemma safe_i32 [safe_rules]: "P v \<Longrightarrow> safe (i32 v) P"
  by (simp add: i32_def)

lemma safe_i64 [safe_rules]: "P v \<Longrightarrow> safe (i64 v) P"
  by (simp add: i64_def)

lemma safe_i64_div [safe_rules]: "b \<noteq> 0 \<Longrightarrow> P (a sdiv b) \<Longrightarrow> safe (i64_div a b) P"
  by (simp add: i64_div_def safe_i64)

subsection \<open>Accumulation loops\<close>

text \<open>
  The inference kernels add one product per iteration to an accumulator. As long as the
  magnitudes leave room in the accumulator's type, the loop computes the exact sum.
\<close>

lemma cfor_acc64:
  assumes "\<And>i. i \<in> set is \<Longrightarrow> g i = Inr (c i)"
    and "\<bar>a\<bar> + (\<Sum>i\<leftarrow>is. \<bar>c i\<bar>) < 2 ^ 63"
  shows "cfor is (\<lambda>i acc. cbind (g i) (\<lambda>p. i64 (acc + p))) a = Inr (a + (\<Sum>i\<leftarrow>is. c i))"
  using assms
proof (induction "is" arbitrary: a)
  case Nil
  then show ?case by simp
next
  case (Cons i "is")
  have nonneg: "0 \<le> (\<Sum>i\<leftarrow>is. \<bar>c i\<bar>)"
    by (rule sum_list_nonneg) auto
  with Cons.prems(2) have "\<bar>a\<bar> + \<bar>c i\<bar> < 2 ^ 63"
    by (simp only: list.map sum_list.Cons)
  then have "in_i64 (a + c i)"
    unfolding in_i64_def by linarith
  moreover have "\<bar>a + c i\<bar> + (\<Sum>i\<leftarrow>is. \<bar>c i\<bar>) < 2 ^ 63"
    using Cons.prems(2) abs_triangle_ineq [of a "c i"] by simp
  ultimately show ?case
    using Cons.IH Cons.prems(1) by (simp add: add.assoc)
qed

lemma sum_list_abs_le:
  fixes c :: "nat \<Rightarrow> int"
  assumes "\<And>i. i \<in> set is \<Longrightarrow> \<bar>c i\<bar> \<le> B"
  shows "(\<Sum>i\<leftarrow>is. \<bar>c i\<bar>) \<le> int (length is) * B"
  using assms
proof (induction "is")
  case (Cons i "is")
  then have "\<bar>c i\<bar> \<le> B" and "(\<Sum>i\<leftarrow>is. \<bar>c i\<bar>) \<le> int (length is) * B"
    by simp_all
  then show ?case by (simp add: distrib_right)
qed simp

lemma sum_list_triangle:
  fixes c :: "nat \<Rightarrow> int"
  shows "\<bar>\<Sum>i\<leftarrow>is. c i\<bar> \<le> (\<Sum>i\<leftarrow>is. \<bar>c i\<bar>)"
  by (induction "is") auto

lemma abs_mult_le:
  fixes w x :: int
  assumes "\<bar>w\<bar> \<le> W" and "\<bar>x\<bar> \<le> X"
  shows "\<bar>w * x\<bar> \<le> W * X"
  using assms by (simp add: abs_mult mult_mono)

lemma abs_sint_u32_le: "\<bar>sint (x :: u32)\<bar> \<le> 2147483648"
  using sint_u32_bounds [of x] by simp

lemma abs_sdiv:
  fixes a b :: int
  assumes "0 < b"
  shows "\<bar>a sdiv b\<bar> = \<bar>a\<bar> div b"
proof -
  have "0 \<le> \<bar>a\<bar> div b"
    using assms by (simp add: pos_imp_zdiv_nonneg_iff)
  then show ?thesis
    using assms by (simp add: signed_divide_int_def abs_mult sgn_if)
qed

lemma abs_sdiv_mult_le:
  fixes a b :: int
  assumes "0 < b"
  shows "\<bar>a sdiv b\<bar> * b \<le> \<bar>a\<bar>"
proof -
  have "\<bar>a\<bar> div b * b + \<bar>a\<bar> mod b = \<bar>a\<bar>" by simp
  moreover have "0 \<le> \<bar>a\<bar> mod b" using assms by simp
  ultimately have "\<bar>a\<bar> div b * b \<le> \<bar>a\<bar>" by linarith
  then show ?thesis by (simp only: abs_sdiv [OF assms])
qed

section \<open>Little-endian 32-bit fields\<close>

definition le32 :: "u32 \<Rightarrow> u8 list" where
  "le32 w = [ucast w, ucast (drop_bit 8 w), ucast (drop_bit 16 w), ucast (drop_bit 24 w)]"

fun un_le32 :: "u8 list \<Rightarrow> u32" where
  "un_le32 [a, b, c, d] =
     ucast a OR push_bit 8 (ucast b) OR push_bit 16 (ucast c) OR push_bit 24 (ucast d)"
| "un_le32 _ = 0"

lemma length_le32 [simp]: "length (le32 w) = 4"
  by (simp add: le32_def)

lemma un_le32_le32 [simp]: "un_le32 (le32 w) = w"
proof (rule bit_word_eqI)
  fix n :: nat
  assume "n < LENGTH(32)"
  then consider "n < 8" | "8 \<le> n" "n < 16" | "16 \<le> n" "n < 24" | "24 \<le> n" "n < 32"
    by fastforce
  then show "bit (un_le32 (le32 w)) n \<longleftrightarrow> bit w n"
    by cases (auto simp: le32_def bit_simps)
qed

lemma no_high_bits: "8 \<le> k \<Longrightarrow> \<not> bit (x :: u8) (k + n)"
  using bit_imp_le_length [of x "k + n"] by auto

lemma le32_un_le32:
  assumes "length bs = 4"
  shows "le32 (un_le32 bs) = bs"
proof -
  from assms obtain a b c d where bs: "bs = [a, b, c, d]"
    by (auto simp: numeral_eq_Suc length_Suc_conv)
  show ?thesis
    unfolding bs le32_def un_le32.simps
    by (auto intro!: bit_word_eqI simp: bit_simps no_high_bits)
qed

text \<open>An array of 32-bit fields, as the code sees it through a cast pointer.\<close>

fun words_of_bytes :: "u8 list \<Rightarrow> u32 list" where
  "words_of_bytes (a # b # c # d # bs) = un_le32 [a, b, c, d] # words_of_bytes bs"
| "words_of_bytes _ = []"

definition bytes_of_words :: "u32 list \<Rightarrow> u8 list" where
  "bytes_of_words ws = concat (map le32 ws)"

lemma bytes_of_words_simps [simp]:
  "bytes_of_words [] = []"
  "bytes_of_words (w # ws) = le32 w @ bytes_of_words ws"
  by (simp_all add: bytes_of_words_def)

lemma bytes_of_words_append [simp]:
  "bytes_of_words (xs @ ys) = bytes_of_words xs @ bytes_of_words ys"
  by (simp add: bytes_of_words_def)

lemma length_bytes_of_words [simp]: "length (bytes_of_words ws) = 4 * length ws"
  by (induction ws) simp_all

lemma words_of_bytes_le32 [simp]: "words_of_bytes (le32 w @ bs) = w # words_of_bytes bs"
proof -
  have "words_of_bytes (le32 w @ bs) = un_le32 (le32 w) # words_of_bytes bs"
    by (simp add: le32_def)
  then show ?thesis by simp
qed

lemma words_of_bytes_of_words [simp]:
  "words_of_bytes (bytes_of_words ws @ bs) = ws @ words_of_bytes bs"
  by (induction ws) simp_all

lemma words_of_bytes_of_words_exact [simp]: "words_of_bytes (bytes_of_words ws) = ws"
  using words_of_bytes_of_words [of ws "[]"] by simp

lemma length_words_of_bytes: "length (words_of_bytes bs) = length bs div 4"
  by (induction bs rule: words_of_bytes.induct) auto

lemma bytes_of_words_of_bytes:
  "4 dvd length bs \<Longrightarrow> bytes_of_words (words_of_bytes bs) = bs"
proof (induction bs rule: words_of_bytes.induct)
  case (1 a b c d bs)
  then have "4 dvd length bs" by (simp add: dvd_eq_mod_eq_0)
  with 1 show ?case by (simp add: le32_un_le32 del: un_le32.simps)
qed (simp_all add: dvd_eq_mod_eq_0)

lemma unat_ucast_size [simp]: "unat (ucast (w :: u32) :: u64) = unat w"
proof -
  have "unat w < 2 ^ 64" using unsigned_less [of w] by (rule less_trans) simp
  then show ?thesis by (simp add: unsigned_ucast_eq take_bit_nat_eq_self)
qed

lemma unat_drop_bit: "unat (drop_bit s (w :: 'a::len word)) = unat w div 2 ^ s"
proof -
  have "unat (drop_bit s w) = drop_bit s (take_bit LENGTH('a) (unat w))" by (simp only: unsigned_drop_bit_eq)
  also have "take_bit LENGTH('a) (unat w) = unat w" by (simp add: take_bit_nat_eq_self_iff unsigned_less)
  finally show ?thesis by (simp add: drop_bit_nat_def)
qed

lemma unat_push_bit: "unat (push_bit s (w :: 'a::len word)) = unat w * 2 ^ s mod 2 ^ LENGTH('a)"
  by (simp only: unsigned_push_bit_eq push_bit_nat_def take_bit_nat_def)

lemma unat_up_16: "unat (ucast (w :: u16) :: u32) = unat w"
proof -
  have "unat w < 2 ^ 32" using unsigned_less [of w] by (rule less_trans) simp
  then show ?thesis by (simp add: unsigned_ucast_eq take_bit_nat_eq_self)
qed

lemma unat_of_nat_32: "n < 2 ^ 32 \<Longrightarrow> unat (of_nat n :: u32) = n"
  by (simp add: unat_of_nat take_bit_nat_eq_self)

lemma unat_down_32: "unat (w :: u64) < 2 ^ 32 \<Longrightarrow> unat (ucast w :: u32) = unat w"
  by (simp add: unsigned_ucast_eq take_bit_nat_eq_self)

section \<open>Results of the GlobalPlatform API\<close>

text \<open>The values of \<open>tee_api_defines.h\<close>.\<close>

abbreviation (input) TEE_SUCCESS :: u32 where "TEE_SUCCESS \<equiv> 0"
abbreviation (input) TEE_ERROR_GENERIC :: u32 where "TEE_ERROR_GENERIC \<equiv> 0xFFFF0000"
abbreviation (input) TEE_ERROR_ACCESS_DENIED :: u32 where "TEE_ERROR_ACCESS_DENIED \<equiv> 0xFFFF0001"
abbreviation (input) TEE_ERROR_BAD_PARAMETERS :: u32 where "TEE_ERROR_BAD_PARAMETERS \<equiv> 0xFFFF0006"
abbreviation (input) TEE_ERROR_BAD_STATE :: u32 where "TEE_ERROR_BAD_STATE \<equiv> 0xFFFF0007"
abbreviation (input) TEE_ERROR_ITEM_NOT_FOUND :: u32 where "TEE_ERROR_ITEM_NOT_FOUND \<equiv> 0xFFFF0008"
abbreviation (input) TEE_ERROR_OUT_OF_MEMORY :: u32 where "TEE_ERROR_OUT_OF_MEMORY \<equiv> 0xFFFF000C"
abbreviation (input) TEE_ERROR_BUSY :: u32 where "TEE_ERROR_BUSY \<equiv> 0xFFFF000D"
abbreviation (input) TEE_ERROR_SHORT_BUFFER :: u32 where "TEE_ERROR_SHORT_BUFFER \<equiv> 0xFFFF0010"
abbreviation (input) TEE_ERROR_TIMEOUT :: u32 where "TEE_ERROR_TIMEOUT \<equiv> 0xFFFF3001"
abbreviation (input) TEE_ERROR_OVERFLOW :: u32 where "TEE_ERROR_OVERFLOW \<equiv> 0xFFFF300F"
abbreviation (input) TEE_ERROR_TARGET_DEAD :: u32 where "TEE_ERROR_TARGET_DEAD \<equiv> 0xFFFF3024"

text \<open>The time structure of \<open>tee_api_types.h\<close>.\<close>

record TEE_Time =
  tt_seconds :: u32
  tt_millis :: u32

text \<open>The test for a sum that wraps around.\<close>

lemma no_wrap_sum:
  fixes a b :: u64
  assumes "\<not> a + b < a"
  shows "unat a + unat b < 2 ^ 64" "unat (a + b) = unat a + unat b"
proof -
  have lt: "unat a < 2 ^ 64" "unat b < 2 ^ 64" using unsigned_less [of a] unsigned_less [of b] by simp_all
  have sum: "unat (a + b) = (unat a + unat b) mod 2 ^ 64" by (simp add: unat_word_ariths(1))
  show s: "unat a + unat b < 2 ^ 64"
  proof (rule ccontr)
    assume big: "\<not> unat a + unat b < 2 ^ 64"
    then have "unat (a + b) = unat a + unat b - 2 ^ 64"
      unfolding sum using lt by (simp add: mod_if [of "unat a + unat b"])
    moreover have "unat a \<le> unat (a + b)" using assms by (simp only: word_less_nat_alt not_less)
    ultimately show False using lt big by linarith
  qed
  show "unat (a + b) = unat a + unat b" using sum s by simp
qed

lemma no_wrap_bound: "\<not> a + b < a \<Longrightarrow> \<not> c < a + b \<Longrightarrow> unat a + unat b \<le> unat c" for a b c :: u64
  using no_wrap_sum(2) [of a b] by (simp add: word_less_nat_alt not_less)

end
