(* ===== verification/Qai_Model.thy ===== *)
theory Qai_Model
  imports Optee_Prelude
begin

text \<open>
  The interface and the parameters of the QAI trusted application: the command and model
  identifiers, limits and structures of \<open>qai_ta.h\<close>, the model parameters resident in the
  application (\<open>model_params.h\<close>, \<open>model_hai.h\<close>), and the byte layout of the structures.
\<close>

section \<open>Identifiers and limits\<close>

abbreviation (input) TA_QAI_CMD_INFER_BASELINE :: u32 where "TA_QAI_CMD_INFER_BASELINE \<equiv> 0"
abbreviation (input) TA_QAI_CMD_INFER_TINYML :: u32 where "TA_QAI_CMD_INFER_TINYML \<equiv> 1"
abbreviation (input) TA_QAI_CMD_INFER_QAI :: u32 where "TA_QAI_CMD_INFER_QAI \<equiv> 2"
abbreviation (input) TA_QAI_CMD_INFER_PROTECTED :: u32 where "TA_QAI_CMD_INFER_PROTECTED \<equiv> 3"
abbreviation (input) TA_QAI_CMD_GET_INFO :: u32 where "TA_QAI_CMD_GET_INFO \<equiv> 4"
abbreviation (input) TA_QAI_CMD_BENCH_FIDELITY :: u32 where "TA_QAI_CMD_BENCH_FIDELITY \<equiv> 5"
abbreviation (input) TA_QAI_CMD_QOC_BLOCK :: u32 where "TA_QAI_CMD_QOC_BLOCK \<equiv> 6"
abbreviation (input) TA_QAI_CMD_HAI_INFER :: u32 where "TA_QAI_CMD_HAI_INFER \<equiv> 7"
abbreviation (input) TA_QAI_CMD_QMOC_BLOCK :: u32 where "TA_QAI_CMD_QMOC_BLOCK \<equiv> 8"

abbreviation (input) QAI_MODEL_BASELINE :: u32 where "QAI_MODEL_BASELINE \<equiv> 0"
abbreviation (input) QAI_MODEL_TINYML :: u32 where "QAI_MODEL_TINYML \<equiv> 1"
abbreviation (input) QAI_MODEL_QAI :: u32 where "QAI_MODEL_QAI \<equiv> 2"

abbreviation (input) QAI_MAX_FEATURES :: u32 where "QAI_MAX_FEATURES \<equiv> 16"
abbreviation (input) QAI_FEATURE_COUNT :: u32 where "QAI_FEATURE_COUNT \<equiv> 4"
abbreviation (input) QAI_PROT_KEY_LEN :: nat where "QAI_PROT_KEY_LEN \<equiv> 16"
abbreviation (input) QAI_FP_SCALE :: int where "QAI_FP_SCALE \<equiv> 1000"

abbreviation (input) QAI_KERNEL_MAX_PAIRS :: u32 where "QAI_KERNEL_MAX_PAIRS \<equiv> 32"

abbreviation (input) QAI_HAI_FEAT :: nat where "QAI_HAI_FEAT \<equiv> 16"
abbreviation (input) QAI_HAI_MAX_ROWS :: u32 where "QAI_HAI_MAX_ROWS \<equiv> 32"
abbreviation (input) QAI_HAI_MODEL_TINYML :: u32 where "QAI_HAI_MODEL_TINYML \<equiv> 0"
abbreviation (input) QAI_HAI_MODEL_PAIRWISE_FAKE :: u32 where "QAI_HAI_MODEL_PAIRWISE_FAKE \<equiv> 1"

section \<open>Model parameters\<close>

definition qai_baseline_w :: "int list" where
  "qai_baseline_w = [1, 1, 1, 1]"

definition qai_baseline_bias :: int where
  "qai_baseline_bias = 0"

definition qai_baseline_threshold :: int where
  "qai_baseline_threshold = 0"

definition qai_tinyml_w :: "int list" where
  "qai_tinyml_w = [441, 775, - 300, 232]"

definition qai_tinyml_bias :: int where
  "qai_tinyml_bias = 12"

definition qai_tinyml_threshold :: int where
  "qai_tinyml_threshold = 0"

definition qai_theta :: "int list" where
  "qai_theta = [99, 146, - 64, 47]"

definition qai_gamma :: "int list" where
  "qai_gamma = [5, - 2, 2, 0]"

definition qai_qai_bias :: int where
  "qai_qai_bias = - 1"

definition qai_qai_threshold :: int where
  "qai_qai_threshold = 0"

definition qai_prot_key :: "u8 list" where
  "qai_prot_key =
     [0x51, 0x41, 0x49, 0x2d, 0x4f, 0x50, 0x54, 0x45,
      0x45, 0x2d, 0x50, 0x49, 0x35, 0x2d, 0x4b, 0x31]"

definition hai_tinyml_w :: "int list" where
  "hai_tinyml_w =
     [1859, 1667, - 536, 488, - 1264, 160, - 579, - 284,
      144, - 259, 298, 183, - 170, 222, - 124, 156]"

definition hai_tinyml_bias :: int where
  "hai_tinyml_bias = 2334"

definition hai_pairwise_fake_theta :: "int list" where
  "hai_pairwise_fake_theta =
     [2141, 1403, - 813, 739, - 1562, - 137, - 477, 153,
      166, - 104, 885, 1244, - 134, 30, - 151, - 529]"

definition hai_pairwise_fake_gamma :: "int list" where
  "hai_pairwise_fake_gamma =
     [- 532, 67, 168, 51, 17, 315, - 459, 24,
      - 92, - 6, 1038, 155, - 9, 1, 27, - 604]"

definition hai_pairwise_fake_bias :: int where
  "hai_pairwise_fake_bias = 3262"

lemmas qai_params =
  qai_baseline_w_def qai_baseline_bias_def qai_baseline_threshold_def
  qai_tinyml_w_def qai_tinyml_bias_def qai_tinyml_threshold_def
  qai_theta_def qai_gamma_def qai_qai_bias_def qai_qai_threshold_def

lemmas hai_params =
  hai_tinyml_w_def hai_tinyml_bias_def
  hai_pairwise_fake_theta_def hai_pairwise_fake_gamma_def hai_pairwise_fake_bias_def

section \<open>Structures\<close>

text \<open>The \<open>int32_t\<close> members are kept as words; the kernels read them with \<open>sint\<close>.\<close>

record qai_input =
  qi_num_features :: u32
  qi_features :: "u32 list"

record qai_protected_input =
  qp_num_features :: u32
  qp_model_id :: u32
  qp_cipher :: "u8 list"

record qai_output =
  qo_prediction :: u32
  qo_confidence :: u32
  qo_score :: u32
  qo_model_id :: u32

record qai_info =
  qn_ta_version :: u32
  qn_feature_count :: u32
  qn_baseline_param_bytes :: u32
  qn_tinyml_param_bytes :: u32
  qn_qai_param_bytes :: u32
  qn_stack_hint_bytes :: u32
  qn_heap_hint_bytes :: u32

record qai_kernel_block_in =
  kb_n_ref :: u32
  kb_n_query :: u32
  kb_n_qubits :: u32

record qai_kernel_block_out =
  ko_tee_elapsed_ms :: u32
  ko_n_out :: u32

record qai_hai_infer_in =
  hi_model :: u32
  hi_n :: u32
  hi_reps :: u32

record qai_hai_infer_out =
  ho_tee_elapsed_ms :: u32
  ho_n :: u32

abbreviation (input) sizeof_qai_input :: nat where "sizeof_qai_input \<equiv> 68"
abbreviation (input) sizeof_qai_protected_input :: nat where "sizeof_qai_protected_input \<equiv> 72"
abbreviation (input) sizeof_qai_output :: nat where "sizeof_qai_output \<equiv> 16"
abbreviation (input) sizeof_qai_info :: nat where "sizeof_qai_info \<equiv> 28"
abbreviation (input) sizeof_qai_fidelity_bench :: nat where "sizeof_qai_fidelity_bench \<equiv> 24"
abbreviation (input) sizeof_qai_kernel_block_in :: nat where "sizeof_qai_kernel_block_in \<equiv> 12"
abbreviation (input) sizeof_qai_kernel_block_out :: nat where "sizeof_qai_kernel_block_out \<equiv> 8"
abbreviation (input) sizeof_qai_hai_infer_in :: nat where "sizeof_qai_hai_infer_in \<equiv> 12"
abbreviation (input) sizeof_qai_hai_infer_out :: nat where "sizeof_qai_hai_infer_out \<equiv> 8"

subsection \<open>Byte layout\<close>

definition u32_at :: "u8 list \<Rightarrow> nat \<Rightarrow> u32" where
  "u32_at bs off = un_le32 (take 4 (drop off bs))"

definition enc_qai_input :: "qai_input \<Rightarrow> u8 list" where
  "enc_qai_input q = le32 (qi_num_features q) @ bytes_of_words (qi_features q)"

definition dec_qai_input :: "u8 list \<Rightarrow> qai_input" where
  "dec_qai_input bs = \<lparr>qi_num_features = u32_at bs 0, qi_features = words_of_bytes (drop 4 bs)\<rparr>"

definition enc_qai_protected_input :: "qai_protected_input \<Rightarrow> u8 list" where
  "enc_qai_protected_input q = le32 (qp_num_features q) @ le32 (qp_model_id q) @ qp_cipher q"

definition dec_qai_protected_input :: "u8 list \<Rightarrow> qai_protected_input" where
  "dec_qai_protected_input bs =
     \<lparr>qp_num_features = u32_at bs 0, qp_model_id = u32_at bs 4, qp_cipher = drop 8 bs\<rparr>"

definition enc_qai_output :: "qai_output \<Rightarrow> u8 list" where
  "enc_qai_output q =
     le32 (qo_prediction q) @ le32 (qo_confidence q) @ le32 (qo_score q) @ le32 (qo_model_id q)"

definition dec_qai_output :: "u8 list \<Rightarrow> qai_output" where
  "dec_qai_output bs =
     \<lparr>qo_prediction = u32_at bs 0, qo_confidence = u32_at bs 4,
      qo_score = u32_at bs 8, qo_model_id = u32_at bs 12\<rparr>"

definition enc_qai_info :: "qai_info \<Rightarrow> u8 list" where
  "enc_qai_info q =
     le32 (qn_ta_version q) @ le32 (qn_feature_count q) @ le32 (qn_baseline_param_bytes q) @
     le32 (qn_tinyml_param_bytes q) @ le32 (qn_qai_param_bytes q) @
     le32 (qn_stack_hint_bytes q) @ le32 (qn_heap_hint_bytes q)"

definition dec_qai_kernel_block_in :: "u8 list \<Rightarrow> qai_kernel_block_in" where
  "dec_qai_kernel_block_in bs =
     \<lparr>kb_n_ref = u32_at bs 0, kb_n_query = u32_at bs 4, kb_n_qubits = u32_at bs 8\<rparr>"

definition enc_qai_kernel_block_in :: "qai_kernel_block_in \<Rightarrow> u8 list" where
  "enc_qai_kernel_block_in q = le32 (kb_n_ref q) @ le32 (kb_n_query q) @ le32 (kb_n_qubits q)"

definition enc_qai_kernel_block_out :: "qai_kernel_block_out \<Rightarrow> u8 list" where
  "enc_qai_kernel_block_out q = le32 (ko_tee_elapsed_ms q) @ le32 (ko_n_out q)"

definition dec_qai_hai_infer_in :: "u8 list \<Rightarrow> qai_hai_infer_in" where
  "dec_qai_hai_infer_in bs =
     \<lparr>hi_model = u32_at bs 0, hi_n = u32_at bs 4, hi_reps = u32_at bs 8\<rparr>"

definition enc_qai_hai_infer_in :: "qai_hai_infer_in \<Rightarrow> u8 list" where
  "enc_qai_hai_infer_in q = le32 (hi_model q) @ le32 (hi_n q) @ le32 (hi_reps q)"

definition enc_qai_hai_infer_out :: "qai_hai_infer_out \<Rightarrow> u8 list" where
  "enc_qai_hai_infer_out q = le32 (ho_tee_elapsed_ms q) @ le32 (ho_n q)"

subsection \<open>Layout lemmas\<close>

lemma take_le32 [simp]: "take 4 (le32 w @ bs) = le32 w" "drop 4 (le32 w @ bs) = bs"
  by simp_all

lemma u32_at_0 [simp]: "u32_at (le32 w @ bs) 0 = w"
  by (simp add: u32_at_def)

lemma u32_at_exact [simp]: "u32_at (le32 w) 0 = w"
  by (simp add: u32_at_def)

lemma u32_at_skip [simp]: "4 \<le> off \<Longrightarrow> u32_at (le32 w @ bs) off = u32_at bs (off - 4)"
  by (simp add: u32_at_def)

lemma u32_at_take: "off + 4 \<le> n \<Longrightarrow> u32_at (take n bs) off = u32_at bs off"
  by (simp add: u32_at_def drop_take)

lemma dec_enc_qai_input:
  "dec_qai_input (enc_qai_input q) = q"
  by (simp add: dec_qai_input_def enc_qai_input_def)

lemma dec_enc_qai_protected_input:
  "dec_qai_protected_input (enc_qai_protected_input q) = q"
  by (simp add: dec_qai_protected_input_def enc_qai_protected_input_def)

lemma dec_enc_qai_output: "dec_qai_output (enc_qai_output q) = q"
  by (simp add: dec_qai_output_def enc_qai_output_def)

lemma dec_enc_qai_hai_infer_in:
  "dec_qai_hai_infer_in (enc_qai_hai_infer_in q) = q"
  by (simp add: dec_qai_hai_infer_in_def enc_qai_hai_infer_in_def)

lemma dec_enc_qai_kernel_block_in:
  "dec_qai_kernel_block_in (enc_qai_kernel_block_in q) = q"
  by (simp add: dec_qai_kernel_block_in_def enc_qai_kernel_block_in_def)

lemma length_enc [simp]:
  "length (enc_qai_output q) = sizeof_qai_output"
  "length (enc_qai_info i) = sizeof_qai_info"
  "length (enc_qai_kernel_block_in ki) = sizeof_qai_kernel_block_in"
  "length (enc_qai_kernel_block_out ko) = sizeof_qai_kernel_block_out"
  "length (enc_qai_hai_infer_in hi) = sizeof_qai_hai_infer_in"
  "length (enc_qai_hai_infer_out ho) = sizeof_qai_hai_infer_out"
  by (simp_all add: enc_qai_output_def enc_qai_info_def enc_qai_kernel_block_in_def
      enc_qai_kernel_block_out_def enc_qai_hai_infer_in_def enc_qai_hai_infer_out_def)

end
