(* ===== verification/Qai_Inference.thy ===== *)
theory Qai_Inference
  imports Qai_Model
begin

text \<open>
  The integer inference kernels of \<open>ta/inference.c\<close>. Features are the \<open>int32_t\<close> array the
  command received; a kernel that would overflow a signed type, or read past an array, is a
  fault. The lemmas give the exact score of each kernel, the inputs for which it is defined,
  and the involution of the XOR path.
\<close>

section \<open>Kernels\<close>

definition abs_i32 :: "int \<Rightarrow> int res" where
  "abs_i32 v = (if v < 0 then i32 (- v) else Inr v)"

definition fill_result :: "int \<Rightarrow> int \<Rightarrow> u32 \<Rightarrow> qai_output res" where
  "fill_result score threshold model_id =
     cbind (abs_i32 score) (\<lambda>conf.
     Inr \<lparr>qo_prediction = (if score > threshold then 1 else 0),
          qo_confidence = word_of_int conf,
          qo_score = word_of_int score,
          qo_model_id = model_id\<rparr>)"

definition feature_limit :: "u32 \<Rightarrow> u32" where
  "feature_limit n = (if n < QAI_FEATURE_COUNT then n else QAI_FEATURE_COUNT)"

definition qai_infer_baseline :: "u32 list \<Rightarrow> u32 \<Rightarrow> qai_output res" where
  "qai_infer_baseline x n =
     (let lim = feature_limit n in
      cbind (cfor [0..<unat lim]
               (\<lambda>i score. cbind (aread qai_baseline_w i) (\<lambda>w.
                  cbind (aread x i) (\<lambda>xi.
                  cbind (i32 (w * sint xi)) (\<lambda>p. i32 (score + p)))))
               qai_baseline_bias)
            (\<lambda>score. fill_result score qai_baseline_threshold QAI_MODEL_BASELINE))"

text \<open>\<open>(int64_t)w[i] * (int64_t)x[i]\<close>, one term of the 64-bit accumulations.\<close>

definition term64 :: "int list \<Rightarrow> u32 list \<Rightarrow> nat \<Rightarrow> int res" where
  "term64 ws x i = cbind (aread ws i) (\<lambda>w. cbind (aread x i) (\<lambda>xi. i64 (w * sint xi)))"

definition qai_infer_tinyml :: "u32 list \<Rightarrow> u32 \<Rightarrow> qai_output res" where
  "qai_infer_tinyml x n =
     (let lim = feature_limit n in
      cbind (cfor [0..<unat lim]
               (\<lambda>i acc. cbind (term64 qai_tinyml_w x i) (\<lambda>p. i64 (acc + p)))
               qai_tinyml_bias)
            (\<lambda>acc. cbind (i64_div acc QAI_FP_SCALE)
            (\<lambda>q. fill_result (to_i32 q) qai_tinyml_threshold QAI_MODEL_TINYML)))"

text \<open>\<open>(int64_t)gamma[i] * (int64_t)x[i] * (int64_t)x[j]\<close> with \<open>j = (i + 1) % lim\<close>.\<close>

definition pair64 :: "int list \<Rightarrow> u32 list \<Rightarrow> nat \<Rightarrow> nat \<Rightarrow> int res" where
  "pair64 gs x lim i =
     cbind (aread gs i) (\<lambda>g. cbind (aread x i) (\<lambda>xi. cbind (aread x (Suc i mod lim)) (\<lambda>xj.
     cbind (i64 (g * sint xi)) (\<lambda>p. i64 (p * sint xj)))))"

definition qai_infer_qai :: "u32 list \<Rightarrow> u32 \<Rightarrow> qai_output res" where
  "qai_infer_qai x n =
     (let lim = feature_limit n in
      cbind (cfor [0..<unat lim]
               (\<lambda>i acc. cbind (term64 qai_theta x i) (\<lambda>p. i64 (acc + p)))
               qai_qai_bias)
            (\<lambda>acc. cbind (cfor [0..<unat lim]
               (\<lambda>i acc. cbind (pair64 qai_gamma x (unat lim) i) (\<lambda>p. i64 (acc + p)))
               acc)
            (\<lambda>acc. cbind (i64_div acc QAI_FP_SCALE)
            (\<lambda>q. fill_result (to_i32 q) qai_qai_threshold QAI_MODEL_QAI))))"

definition qai_xor_crypt :: "u8 list \<Rightarrow> u32 \<Rightarrow> u8 list res" where
  "qai_xor_crypt buf len =
     cfor [0..<unat len]
       (\<lambda>i buf. cbind (aread buf i) (\<lambda>b. cbind (aread qai_prot_key (i mod QAI_PROT_KEY_LEN))
          (\<lambda>k. awrite buf i (b XOR k))))
       buf"

section \<open>Exact scores\<close>

text \<open>
  What the kernels mean to compute, over the integers: a linear form of the first features,
  for the QAI model with a cyclic pairwise term, scaled back by truncating division.
\<close>

definition linear_score :: "int list \<Rightarrow> int \<Rightarrow> u32 list \<Rightarrow> nat \<Rightarrow> int" where
  "linear_score ws b x m = b + (\<Sum>i\<leftarrow>[0..<m]. ws ! i * sint (x ! i))"

definition pair_score :: "int list \<Rightarrow> u32 list \<Rightarrow> nat \<Rightarrow> int" where
  "pair_score gs x m = (\<Sum>i\<leftarrow>[0..<m]. gs ! i * sint (x ! i) * sint (x ! (Suc i mod m)))"

definition tinyml_exact :: "u32 list \<Rightarrow> u32 \<Rightarrow> int" where
  "tinyml_exact x n =
     linear_score qai_tinyml_w qai_tinyml_bias x (unat (feature_limit n)) sdiv QAI_FP_SCALE"

definition qai_exact :: "u32 list \<Rightarrow> u32 \<Rightarrow> int" where
  "qai_exact x n =
     (linear_score qai_theta qai_qai_bias x (unat (feature_limit n))
      + pair_score qai_gamma x (unat (feature_limit n))) sdiv QAI_FP_SCALE"

definition classified :: "int \<Rightarrow> u32 \<Rightarrow> qai_output" where
  "classified s m =
     \<lparr>qo_prediction = (if s > 0 then 1 else 0), qo_confidence = word_of_int \<bar>s\<bar>,
      qo_score = word_of_int s, qo_model_id = m\<rparr>"

section \<open>Lemmas\<close>

lemma feature_limit_le: "unat (feature_limit n) \<le> 4"
  by (auto simp: feature_limit_def word_less_nat_alt)

lemma feature_limit_4 [simp]: "feature_limit 4 = 4"
  by (simp add: feature_limit_def)

lemma feature_limit_le_n: "unat (feature_limit n) \<le> unat n"
  by (auto simp: feature_limit_def word_less_nat_alt)

lemma fill_result_ok:
  assumes "- (2 ^ 31) < s" and "s < 2 ^ 31"
  shows "fill_result s 0 m = Inr (classified s m)"
  using assms by (simp add: fill_result_def abs_i32_def in_i32_def classified_def)

lemma fill_result_min: "fill_result (- (2 ^ 31)) t m = Inl Signed_overflow"
  by (simp add: fill_result_def abs_i32_def i32_def in_i32_def)

lemma fill_result_cases:
  assumes "in_i32 s"
  shows "fill_result s 0 m =
    (if s = - (2 ^ 31) then Inl Signed_overflow else Inr (classified s m))"
  using assms fill_result_ok [of s m] fill_result_min [of 0 m]
  by (auto simp: in_i32_def)

lemma length_params [simp]:
  "length qai_baseline_w = 4" "length qai_tinyml_w = 4" "length qai_theta = 4"
  "length qai_gamma = 4" "length qai_prot_key = 16"
  by (simp_all add: qai_params qai_prot_key_def)

lemma nth_bounds:
  assumes "i < 4"
  shows "qai_baseline_w ! i = 1" "\<bar>qai_tinyml_w ! i\<bar> \<le> 775" "\<bar>qai_theta ! i\<bar> \<le> 146"
    "\<bar>qai_gamma ! i\<bar> \<le> 5"
proof -
  from assms have "i \<in> {0, 1, 2, 3}" by auto
  then show "qai_baseline_w ! i = 1" "\<bar>qai_tinyml_w ! i\<bar> \<le> 775" "\<bar>qai_theta ! i\<bar> \<le> 146"
    "\<bar>qai_gamma ! i\<bar> \<le> 5"
    by (auto simp: qai_params)
qed

lemma term64_ok:
  assumes "i < length ws" and "i < length x" and "\<bar>ws ! i\<bar> \<le> 2 ^ 31"
  shows "term64 ws x i = Inr (ws ! i * sint (x ! i))"
proof -
  have "\<bar>ws ! i * sint (x ! i)\<bar> \<le> 2 ^ 31 * 2147483648"
    using assms(3) abs_sint_u32_le by (rule abs_mult_le)
  then have "in_i64 (ws ! i * sint (x ! i))"
    by (intro in_i64I) simp
  then show ?thesis
    using assms(1,2) by (simp add: term64_def)
qed

text \<open>A linear accumulation over at most sixteen features never overflows 64 bits.\<close>

lemma linear_loop:
  assumes "m \<le> length ws" and "m \<le> length x" and "m \<le> 16"
    and "\<And>i. i < m \<Longrightarrow> \<bar>ws ! i\<bar> \<le> 2 ^ 12" and "\<bar>b\<bar> \<le> 2 ^ 32"
  shows "cfor [0..<m] (\<lambda>i acc. cbind (term64 ws x i) (\<lambda>p. i64 (acc + p))) b =
    Inr (linear_score ws b x m)"
    and "\<bar>linear_score ws b x m\<bar> \<le> 2 ^ 32 + 16 * 2 ^ 43"
proof -
  have le: "\<bar>ws ! i * sint (x ! i)\<bar> \<le> 2 ^ 43" if "i \<in> set [0..<m]" for i
    using abs_mult_le [OF assms(4) abs_sint_u32_le [of "x ! i"]] that by simp
  have "(\<Sum>i\<leftarrow>[0..<m]. \<bar>ws ! i * sint (x ! i)\<bar>) \<le> int (length [0..<m]) * 2 ^ 43"
    using le by (rule sum_list_abs_le)
  with assms(3) have S: "(\<Sum>i\<leftarrow>[0..<m]. \<bar>ws ! i * sint (x ! i)\<bar>) \<le> 16 * 2 ^ 43"
    by simp
  have T: "term64 ws x i = Inr (ws ! i * sint (x ! i))" if "i \<in> set [0..<m]" for i
    using that assms(1,2) assms(4) [of i] by (intro term64_ok) auto
  have "\<bar>b\<bar> + (\<Sum>i\<leftarrow>[0..<m]. \<bar>ws ! i * sint (x ! i)\<bar>) < 2 ^ 63"
    using S assms(5) by simp
  from cfor_acc64 [OF T this]
  show "cfor [0..<m] (\<lambda>i acc. cbind (term64 ws x i) (\<lambda>p. i64 (acc + p))) b =
    Inr (linear_score ws b x m)"
    by (simp add: linear_score_def)
  show "\<bar>linear_score ws b x m\<bar> \<le> 2 ^ 32 + 16 * 2 ^ 43"
    using S assms(5) sum_list_triangle [of "\<lambda>i. ws ! i * sint (x ! i)" "[0..<m]"]
    by (simp add: linear_score_def)
qed

lemma i64_div_scale:
  assumes "in_i64 a"
  shows "i64_div a QAI_FP_SCALE = Inr (a sdiv QAI_FP_SCALE)"
proof -
  have "\<bar>a sdiv 1000\<bar> * 1000 \<le> \<bar>a\<bar>" by (rule abs_sdiv_mult_le) simp
  with assms have "in_i64 (a sdiv 1000)" unfolding in_i64_def by linarith
  then show ?thesis by (simp add: i64_div_def)
qed

lemma qai_infer_tinyml_value:
  assumes "unat (feature_limit n) \<le> length x"
  shows "qai_infer_tinyml x n = fill_result (to_i32 (tinyml_exact x n)) 0 QAI_MODEL_TINYML"
proof -
  let ?m = "unat (feature_limit n)"
  have m: "?m \<le> 4" by (rule feature_limit_le)
  have w: "\<bar>qai_tinyml_w ! i\<bar> \<le> 2 ^ 12" if "i < ?m" for i
    using nth_bounds(2) [of i] that m by simp
  have b: "\<bar>qai_tinyml_bias\<bar> \<le> 2 ^ 32" by (simp add: qai_params)
  have loop: "cfor [0..<?m] (\<lambda>i acc. cbind (term64 qai_tinyml_w x i) (\<lambda>p. i64 (acc + p)))
      qai_tinyml_bias = Inr (linear_score qai_tinyml_w qai_tinyml_bias x ?m)"
    using m assms w b by (intro linear_loop(1)) auto
  have "\<bar>linear_score qai_tinyml_w qai_tinyml_bias x ?m\<bar> \<le> 2 ^ 32 + 16 * 2 ^ 43"
    using m assms w b by (intro linear_loop(2)) auto
  then have "in_i64 (linear_score qai_tinyml_w qai_tinyml_bias x ?m)"
    by (intro in_i64I) simp
  with loop show ?thesis
    by (simp add: qai_infer_tinyml_def Let_def i64_div_scale tinyml_exact_def
        qai_tinyml_threshold_def)
qed

text \<open>
  The QAI kernel multiplies three factors in 64 bits. Below a bound on the features every
  product and both sums are exact.
\<close>

lemma pair64_ok:
  assumes "i < length gs" and "i < length x" and "Suc i mod m < length x"
    and "\<bar>gs ! i\<bar> \<le> 2 ^ 11" and "\<bar>sint (x ! i)\<bar> \<le> B" and "\<bar>sint (x ! (Suc i mod m))\<bar> \<le> B"
    and "B \<le> 2 ^ 24"
  shows "pair64 gs x m i = Inr (gs ! i * sint (x ! i) * sint (x ! (Suc i mod m)))"
    and "\<bar>gs ! i * sint (x ! i) * sint (x ! (Suc i mod m))\<bar> \<le> 2 ^ 59"
proof -
  have xs: "\<bar>sint (x ! i)\<bar> \<le> 2 ^ 24" "\<bar>sint (x ! (Suc i mod m))\<bar> \<le> 2 ^ 24"
    using assms(5-7) by linarith+
  have p: "\<bar>gs ! i * sint (x ! i)\<bar> \<le> 2 ^ 11 * 2 ^ 24"
    using assms(4) xs(1) by (rule abs_mult_le)
  have "\<bar>gs ! i * sint (x ! i) * sint (x ! (Suc i mod m))\<bar> \<le> (2 ^ 11 * 2 ^ 24) * 2 ^ 24"
    using p xs(2) by (rule abs_mult_le)
  then show q: "\<bar>gs ! i * sint (x ! i) * sint (x ! (Suc i mod m))\<bar> \<le> 2 ^ 59"
    by simp
  have "in_i64 (gs ! i * sint (x ! i))" using p by (intro in_i64I) simp
  moreover have "in_i64 (gs ! i * sint (x ! i) * sint (x ! (Suc i mod m)))"
    using q by (intro in_i64I) simp
  ultimately show "pair64 gs x m i = Inr (gs ! i * sint (x ! i) * sint (x ! (Suc i mod m)))"
    using assms(1-3) by (simp add: pair64_def)
qed

lemma small_features:
  assumes "\<And>i. i < m \<Longrightarrow> \<bar>sint (x ! i)\<bar> \<le> B" and "i < m"
  shows "\<bar>sint ((x :: u32 list) ! (Suc i mod m))\<bar> \<le> B"
  using assms by simp

lemma qai_loops:
  assumes m: "m \<le> 4" "m \<le> length x"
    and small: "\<And>i. i < m \<Longrightarrow> \<bar>sint (x ! i)\<bar> \<le> 200000"
  shows "cfor [0..<m] (\<lambda>i acc. cbind (term64 qai_theta x i) (\<lambda>p. i64 (acc + p))) qai_qai_bias =
      Inr (linear_score qai_theta qai_qai_bias x m)"
    and "cfor [0..<m] (\<lambda>i acc. cbind (pair64 qai_gamma x m i) (\<lambda>p. i64 (acc + p)))
      (linear_score qai_theta qai_qai_bias x m) =
      Inr (linear_score qai_theta qai_qai_bias x m + pair_score qai_gamma x m)"
    and "\<bar>linear_score qai_theta qai_qai_bias x m + pair_score qai_gamma x m\<bar> \<le> 10 ^ 12"
proof -
  let ?L = "linear_score qai_theta qai_qai_bias x m"
  let ?t = "\<lambda>i. qai_theta ! i * sint (x ! i)"
  let ?c = "\<lambda>i. qai_gamma ! i * sint (x ! i) * sint (x ! (Suc i mod m))"
  show loop: "cfor [0..<m] (\<lambda>i acc. cbind (term64 qai_theta x i) (\<lambda>p. i64 (acc + p))) qai_qai_bias =
      Inr ?L"
  proof (rule linear_loop(1))
    show "\<bar>qai_theta ! i\<bar> \<le> 2 ^ 12" if "i < m" for i
      using nth_bounds(3) [of i] that m by simp
    show "\<bar>qai_qai_bias\<bar> \<le> 2 ^ 32" by (simp add: qai_qai_bias_def)
  qed (use m in auto)
  have "\<bar>?t i\<bar> \<le> 146 * 200000" if "i \<in> set [0..<m]" for i
    using nth_bounds(3) [of i] small [of i] that m by (intro abs_mult_le) auto
  then have "(\<Sum>i\<leftarrow>[0..<m]. \<bar>?t i\<bar>) \<le> int (length [0..<m]) * (146 * 200000)"
    by (rule sum_list_abs_le)
  moreover have "?L = (\<Sum>i\<leftarrow>[0..<m]. ?t i) - 1"
    by (simp add: linear_score_def qai_qai_bias_def)
  ultimately have L: "\<bar>?L\<bar> \<le> 1 + 4 * (146 * 200000)"
    using m sum_list_triangle [of ?t "[0..<m]"] by simp
  have "\<bar>?c i\<bar> \<le> (5 * 200000) * 200000" if "i \<in> set [0..<m]" for i
    using nth_bounds(4) [of i] small small_features [OF small] that m
    by (intro abs_mult_le) auto
  then have "(\<Sum>i\<leftarrow>[0..<m]. \<bar>?c i\<bar>) \<le> int (length [0..<m]) * ((5 * 200000) * 200000)"
    by (rule sum_list_abs_le)
  with m have P: "(\<Sum>i\<leftarrow>[0..<m]. \<bar>?c i\<bar>) \<le> 800000000000"
    by simp
  have pair: "pair64 qai_gamma x m i = Inr (?c i)" if "i \<in> set [0..<m]" for i
  proof (rule pair64_ok(1))
    show "\<bar>qai_gamma ! i\<bar> \<le> 2 ^ 11" using nth_bounds(4) [of i] that m by simp
    show "\<bar>sint (x ! (Suc i mod m))\<bar> \<le> 200000" using small that by (intro small_features) auto
    show "Suc i mod m < length x"
      using that m mod_less_divisor [of m "Suc i"] by (simp del: mod_less_divisor)
  qed (use small that m in auto)
  have "\<bar>?L\<bar> + (\<Sum>i\<leftarrow>[0..<m]. \<bar>?c i\<bar>) < 2 ^ 63"
    using L P by simp
  from cfor_acc64 [OF pair this]
  show "cfor [0..<m] (\<lambda>i acc. cbind (pair64 qai_gamma x m i) (\<lambda>p. i64 (acc + p))) ?L =
      Inr (?L + pair_score qai_gamma x m)"
    by (simp add: pair_score_def)
  show "\<bar>?L + pair_score qai_gamma x m\<bar> \<le> 10 ^ 12"
    using L P sum_list_triangle [of ?c "[0..<m]"] by (simp add: pair_score_def)
qed

lemma qai_infer_qai_value:
  assumes len: "unat (feature_limit n) \<le> length x"
    and small: "\<And>i. i < unat (feature_limit n) \<Longrightarrow> \<bar>sint (x ! i)\<bar> \<le> 200000"
  shows "qai_infer_qai x n = Inr (classified (qai_exact x n) QAI_MODEL_QAI)"
proof -
  note loops = qai_loops [OF feature_limit_le len small]
  let ?S = "linear_score qai_theta qai_qai_bias x (unat (feature_limit n))
    + pair_score qai_gamma x (unat (feature_limit n))"
  have "in_i64 ?S" using loops(3) by (intro in_i64I) simp
  then have div: "i64_div ?S QAI_FP_SCALE = Inr (qai_exact x n)"
    by (simp add: i64_div_scale qai_exact_def)
  have "\<bar>qai_exact x n\<bar> * 1000 \<le> \<bar>?S\<bar>"
    unfolding qai_exact_def by (rule abs_sdiv_mult_le) simp
  with loops(3) have "\<bar>qai_exact x n\<bar> \<le> 10 ^ 9" by simp
  then have "fill_result (to_i32 (qai_exact x n)) 0 QAI_MODEL_QAI =
      Inr (classified (qai_exact x n) QAI_MODEL_QAI)"
    by (subst to_i32_id) (auto intro!: in_i32I fill_result_ok)
  with loops(1,2) div show ?thesis
    by (simp add: qai_infer_qai_def Let_def qai_qai_threshold_def)
qed

text \<open>The baseline kernel accumulates in 32 bits.\<close>

definition prefix_sum :: "u32 list \<Rightarrow> nat \<Rightarrow> int" where
  "prefix_sum x k = (\<Sum>i\<leftarrow>[0..<k]. sint (x ! i))"

lemma prefix_sum_simps [simp]:
  "prefix_sum x 0 = 0"
  "prefix_sum x (Suc k) = prefix_sum x k + sint (x ! k)"
  by (simp_all add: prefix_sum_def)

lemma baseline_loop:
  assumes "m \<le> 4" and "m \<le> length x"
  shows "cfor [0..<m] (\<lambda>i score. cbind (aread qai_baseline_w i) (\<lambda>w. cbind (aread x i) (\<lambda>xi.
      cbind (i32 (w * sint xi)) (\<lambda>p. i32 (score + p))))) 0 =
    (if \<forall>k\<le>m. in_i32 (prefix_sum x k) then Inr (prefix_sum x m) else Inl Signed_overflow)"
  using assms
proof (induction m)
  case 0
  then show ?case by (simp add: in_i32_def)
next
  case (Suc m)
  from Suc.prems have "m < 4" and "m < length x" by simp_all
  moreover have "i32 (prefix_sum x m + sint (x ! m)) =
      (if in_i32 (prefix_sum x (Suc m)) then Inr (prefix_sum x (Suc m)) else Inl Signed_overflow)"
    by (simp add: i32_def)
  ultimately show ?case
    using Suc.IH
    by (auto simp: cfor_append nth_bounds(1) le_Suc_eq upt_Suc_append
        simp del: upt_Suc prefix_sum_simps(2))
qed

lemma qai_infer_baseline_value:
  assumes "unat (feature_limit n) \<le> length x"
  shows "qai_infer_baseline x n =
    (if \<forall>k\<le>unat (feature_limit n). in_i32 (prefix_sum x k)
     then fill_result (prefix_sum x (unat (feature_limit n))) 0 QAI_MODEL_BASELINE
     else Inl Signed_overflow)"
  using baseline_loop [OF feature_limit_le assms]
  by (auto simp: qai_infer_baseline_def Let_def qai_params(2,3))

lemma prefix_sum_small:
  assumes "\<And>i. i < k \<Longrightarrow> \<bar>sint (x ! i)\<bar> \<le> B"
  shows "\<bar>prefix_sum x k\<bar> \<le> int k * B"
  using assms
proof (induction k)
  case (Suc k)
  then have "\<bar>prefix_sum x k\<bar> \<le> int k * B" and "\<bar>sint (x ! k)\<bar> \<le> B" by simp_all
  then show ?case by (simp add: distrib_right)
qed simp

section \<open>The XOR path\<close>

definition xor_key :: "u8 list \<Rightarrow> u8 list \<Rightarrow> nat \<Rightarrow> u8 list" where
  "xor_key key buf m = map2 (\<lambda>i b. if i < m then b XOR key ! (i mod 16) else b) [0..<length buf] buf"

lemma length_xor_key [simp]: "length (xor_key key buf m) = length buf"
  by (simp add: xor_key_def)

lemma nth_xor_key:
  "i < length buf \<Longrightarrow>
    xor_key key buf m ! i = (if i < m then buf ! i XOR key ! (i mod 16) else buf ! i)"
  by (simp add: xor_key_def)

lemma xor_key_0 [simp]: "xor_key key buf 0 = buf"
  by (rule nth_equalityI) (simp_all add: nth_xor_key)

lemma xor_key_step:
  "m < length buf \<Longrightarrow>
    (xor_key key buf m)[m := xor_key key buf m ! m XOR key ! (m mod 16)] = xor_key key buf (Suc m)"
  by (rule nth_equalityI) (auto simp: nth_xor_key nth_list_update less_Suc_eq)

lemma xor_key_involution: "xor_key key (xor_key key buf m) m = buf"
  by (rule nth_equalityI) (simp_all add: nth_xor_key xor.assoc)

text \<open>The loop of \<open>xor_crypt\<close>, for any sixteen-byte key.\<close>

lemma xor_loop:
  assumes "length key = 16" and "m \<le> length buf"
  shows "cfor [0..<m] (\<lambda>i buf. cbind (aread buf i) (\<lambda>b. cbind (aread key (i mod 16))
      (\<lambda>k. awrite buf i (b XOR k)))) buf = Inr (xor_key key buf m)"
  using assms
proof (induction m)
  case (Suc m)
  then have "m < length buf" by simp
  with Suc show ?case
    by (simp add: cfor_append upt_Suc_append xor_key_step del: upt_Suc)
qed simp

lemma qai_xor_crypt_value:
  "unat len \<le> length buf \<Longrightarrow> qai_xor_crypt buf len = Inr (xor_key qai_prot_key buf (unat len))"
  unfolding qai_xor_crypt_def by (rule xor_loop) simp_all

section \<open>Properties of the kernels\<close>

text \<open>Claim C28: the baseline kernel is defined exactly when every partial sum of the features it
  uses fits in \<open>int32_t\<close> and the score is not the one value whose absolute value does not, and
  it then reports the exact sum, its sign and its magnitude.\<close>

theorem qai_infer_baseline_defined_iff:
  assumes "unat (feature_limit n) \<le> length x"
  shows "qai_infer_baseline x n = Inr out \<longleftrightarrow>
    (\<forall>k\<le>unat (feature_limit n). in_i32 (prefix_sum x k)) \<and>
    prefix_sum x (unat (feature_limit n)) \<noteq> - (2 ^ 31) \<and>
    out = classified (prefix_sum x (unat (feature_limit n))) QAI_MODEL_BASELINE"
  using qai_infer_baseline_value [OF assms]
    fill_result_cases [of "prefix_sum x (unat (feature_limit n))" 0]
  by (auto split: if_splits)

theorem qai_infer_baseline_defined_iff_witness:
  "qai_infer_baseline [10, 20, - 5, 3] 4 =
     Inr \<lparr>qo_prediction = 1, qo_confidence = 28, qo_score = 28, qo_model_id = 0\<rparr>"
proof -
  have "unat (feature_limit 4) \<le> length [10 :: u32, 20, - 5, 3]" by simp
  note iff = qai_infer_baseline_defined_iff [OF this]
  have "\<forall>k\<le>4. in_i32 (prefix_sum [10, 20, - 5, 3] k)"
    by code_simp
  then show ?thesis
    unfolding iff by (simp add: classified_def prefix_sum_def upt_rec)
qed

text \<open>Claim C29: on every feature vector the TinyML kernel's 64-bit accumulation is exact; its
  result is determined by the exact scaled score reduced to \<open>int32_t\<close>, and the only undefined
  execution is the negation of the least \<open>int32_t\<close>.\<close>

theorem qai_infer_tinyml_total:
  assumes "unat (feature_limit n) \<le> length x"
  shows "qai_infer_tinyml x n =
    (if to_i32 (tinyml_exact x n) = - (2 ^ 31) then Inl Signed_overflow
     else Inr (classified (to_i32 (tinyml_exact x n)) QAI_MODEL_TINYML))"
  by (simp add: qai_infer_tinyml_value [OF assms] fill_result_cases)

theorem qai_infer_tinyml_total_witness:
  "qai_infer_tinyml [10, 20, - 5, 3] 4 =
     Inr \<lparr>qo_prediction = 1, qo_confidence = 22, qo_score = 22, qo_model_id = 1\<rparr>"
proof -
  have len: "unat (feature_limit 4) \<le> length [10 :: u32, 20, - 5, 3]" by simp
  have "to_i32 (tinyml_exact [10, 20, - 5, 3] 4) = 22" by code_simp
  then show ?thesis
    using qai_infer_tinyml_total [OF len] by (simp add: classified_def)
qed

text \<open>The conversion of the scaled TinyML score to \<open>int32_t\<close> can reverse the
  prediction: there are features with a large positive exact score that the kernel classifies
  as 0.\<close>

theorem tinyml_prediction_reversed:
  "tinyml_exact [0x7FFFFFFF, 0x7FFFFFFF, 0x80000000, 0x7FFFFFFF] 4 > 0 \<and>
   map_sum id qo_prediction
     (qai_infer_tinyml [0x7FFFFFFF, 0x7FFFFFFF, 0x80000000, 0x7FFFFFFF] 4) = Inr 0"
proof -
  let ?x = "[0x7FFFFFFF, 0x7FFFFFFF, 0x80000000, 0x7FFFFFFF] :: u32 list"
  have e: "tinyml_exact ?x 4 = 3753801415" by code_simp
  have "to_i32 (3753801415) = - 541165881" by code_simp
  then show ?thesis
    using qai_infer_tinyml_value [of 4 ?x] fill_result_cases [of "- 541165881" 1] e
    by (simp add: classified_def in_i32_def)
qed

text \<open>For features of magnitude at most 200000 (and any number of them) the QAI
  kernel neither overflows nor truncates: it reports the exact scaled score of the linear and
  the cyclic pairwise term.\<close>

theorem qai_infer_qai_exact:
  assumes "unat (feature_limit n) \<le> length x"
    and "\<forall>i<unat (feature_limit n). \<bar>sint (x ! i)\<bar> \<le> 200000"
  shows "qai_infer_qai x n = Inr (classified (qai_exact x n) QAI_MODEL_QAI)"
  using assms by (intro qai_infer_qai_value) auto

theorem qai_infer_qai_exact_witness:
  "qai_infer_qai [10, 20, - 5, 3] 4 =
     Inr \<lparr>qo_prediction = 1, qo_confidence = 5, qo_score = 5, qo_model_id = 2\<rparr>"
proof -
  have len: "unat (feature_limit 4) \<le> length [10 :: u32, 20, - 5, 3]" by simp
  have small: "\<forall>i<unat (feature_limit 4). \<bar>sint ([10 :: u32, 20, - 5, 3] ! i)\<bar> \<le> 200000"
    by code_simp
  have "qai_exact [10, 20, - 5, 3] 4 = 5" by code_simp
  then show ?thesis
    using qai_infer_qai_exact [OF len small] by (simp add: classified_def)
qed

text \<open>Applying the keyed XOR twice over the same prefix of a buffer restores the
  buffer, for every buffer and every prefix length it holds.\<close>

theorem qai_xor_crypt_involution:
  assumes "unat len \<le> length buf"
  shows "cbind (qai_xor_crypt buf len) (\<lambda>c. qai_xor_crypt c len) = Inr buf"
  using assms by (simp add: qai_xor_crypt_value xor_key_involution)

theorem qai_xor_crypt_involution_witness:
  "qai_xor_crypt [10, 0, 0, 0] 4 = Inr [0x5b, 0x41, 0x49, 0x2d] \<and>
   cbind (qai_xor_crypt [10, 0, 0, 0] 4) (\<lambda>c. qai_xor_crypt c 4) = Inr [10, 0, 0, 0]"
proof
  show "qai_xor_crypt [10, 0, 0, 0] 4 = Inr [0x5b, 0x41, 0x49, 0x2d]" by code_simp
  show "cbind (qai_xor_crypt [10, 0, 0, 0] 4) (\<lambda>c. qai_xor_crypt c 4) = Inr [10, 0, 0, 0]"
    by (rule qai_xor_crypt_involution) simp
qed

end
