(* ===== verification/Qai_Hai.thy ===== *)
theory Qai_Hai
  imports Qai_Inference
begin

text \<open>
  The fixed-point classifier of \<open>ta/hai_infer.c\<close>: sixteen milli-z features per row, a logistic
  model or a model with a cyclic pairwise term, run over a block of rows a given number of
  times and timed with the clock of the TEE. Clock readings are arguments.
\<close>

section \<open>Elapsed time\<close>

text \<open>
  \<open>delta_ms\<close> of \<open>ta/fidelity_kernel.c\<close>; \<open>qai_hai_infer\<close> ends with the same statements inline.
\<close>

definition delta_ms :: "TEE_Time \<Rightarrow> TEE_Time \<Rightarrow> u32 res" where
  "delta_ms t0 t1 =
     (let sec = tt_seconds t1 - tt_seconds t0 in
      cbind (i32 (sint (tt_millis t1) - sint (tt_millis t0))) (\<lambda>ms.
      if ms < 0 then
        cbind (i32 (ms + 1000)) (\<lambda>ms. Inr ((sec - 1) * 1000 + word_of_int ms))
      else Inr (sec * 1000 + word_of_int ms)))"

definition total_ms :: "TEE_Time \<Rightarrow> int" where
  "total_ms t = 1000 * uint (tt_seconds t) + uint (tt_millis t)"

section \<open>Classifiers\<close>

abbreviation (input) HAI_S :: int where "HAI_S \<equiv> 1000"

definition hai_tinyml_one :: "u32 list \<Rightarrow> u8 res" where
  "hai_tinyml_one x =
     cbind (i64 (hai_tinyml_bias * HAI_S)) (\<lambda>acc.
     cbind (cfor [0..<QAI_HAI_FEAT]
              (\<lambda>i acc. cbind (term64 hai_tinyml_w x i) (\<lambda>p. i64 (acc + p))) acc) (\<lambda>acc.
     Inr (if acc > 0 then 1 else 0)))"

definition hai_pair_term :: "u32 list \<Rightarrow> nat \<Rightarrow> int res" where
  "hai_pair_term x i =
     cbind (aread x i) (\<lambda>xi. cbind (aread x (Suc i mod QAI_HAI_FEAT)) (\<lambda>xj.
     cbind (i64 (sint xi * sint xj)) (\<lambda>prod.
     cbind (aread hai_pairwise_fake_gamma i) (\<lambda>g.
     cbind (i64 (g * prod)) (\<lambda>gp. i64_div gp HAI_S)))))"

definition hai_pairwise_fake_one :: "u32 list \<Rightarrow> u8 res" where
  "hai_pairwise_fake_one x =
     cbind (i64 (hai_pairwise_fake_bias * HAI_S)) (\<lambda>acc.
     cbind (cfor [0..<QAI_HAI_FEAT]
              (\<lambda>i acc. cbind (term64 hai_pairwise_fake_theta x i) (\<lambda>p. i64 (acc + p))) acc) (\<lambda>acc.
     cbind (cfor [0..<QAI_HAI_FEAT]
              (\<lambda>i acc. cbind (hai_pair_term x i) (\<lambda>p. i64 (acc + p))) acc) (\<lambda>acc.
     Inr (if acc > 0 then 1 else 0))))"

definition hai_one :: "u32 \<Rightarrow> u32 list \<Rightarrow> u8 res" where
  "hai_one model x =
     (if model = QAI_HAI_MODEL_TINYML then hai_tinyml_one x else hai_pairwise_fake_one x)"

text \<open>
  The block loop. \<open>rows\<close> is the array behind the row pointer; row \<open>i\<close> starts at
  \<open>i * QAI_HAI_FEAT\<close>. The result pairs the return code with the prediction buffer and the
  elapsed time, which is written on success only.
\<close>

definition qai_hai_infer ::
  "u32 \<Rightarrow> u32 list \<Rightarrow> u32 \<Rightarrow> u32 \<Rightarrow> u8 list \<Rightarrow> u32 \<Rightarrow> TEE_Time \<Rightarrow> TEE_Time \<Rightarrow>
   (u32 \<times> u8 list \<times> u32) res" where
  "qai_hai_infer model rows n reps pred elapsed_ms t0 t1 =
     (if n = 0 \<or> n > QAI_HAI_MAX_ROWS \<or> reps = 0 then
        Inr (TEE_ERROR_BAD_PARAMETERS, pred, elapsed_ms)
      else if model \<noteq> QAI_HAI_MODEL_TINYML \<and> model \<noteq> QAI_HAI_MODEL_PAIRWISE_FAKE then
        Inr (TEE_ERROR_BAD_PARAMETERS, pred, elapsed_ms)
      else
        cbind (cfor [0..<unat reps] (\<lambda>r.
                 cfor [0..<unat n] (\<lambda>i pred.
                   cbind (hai_one model (drop (i * QAI_HAI_FEAT) rows)) (\<lambda>p. awrite pred i p)))
                 pred) (\<lambda>pred.
        cbind (delta_ms t0 t1) (\<lambda>ms. Inr (TEE_SUCCESS, pred, ms))))"

section \<open>Exact decisions\<close>

definition hai_tinyml_exact :: "u32 list \<Rightarrow> int" where
  "hai_tinyml_exact x = linear_score hai_tinyml_w (hai_tinyml_bias * HAI_S) x 16"

definition hai_pair_exact :: "u32 list \<Rightarrow> nat \<Rightarrow> int" where
  "hai_pair_exact x i =
     (hai_pairwise_fake_gamma ! i * (sint (x ! i) * sint (x ! (Suc i mod 16)))) sdiv HAI_S"

definition hai_pairwise_exact :: "u32 list \<Rightarrow> int" where
  "hai_pairwise_exact x =
     linear_score hai_pairwise_fake_theta (hai_pairwise_fake_bias * HAI_S) x 16
     + (\<Sum>i\<leftarrow>[0..<16]. hai_pair_exact x i)"

definition decision :: "int \<Rightarrow> u8" where
  "decision s = (if s > 0 then 1 else 0)"

section \<open>Lemmas\<close>

lemma length_hai_params [simp]:
  "length hai_tinyml_w = 16" "length hai_pairwise_fake_theta = 16"
  "length hai_pairwise_fake_gamma = 16"
  by (simp_all add: hai_params)

lemma hai_nth_bounds:
  assumes "i < 16"
  shows "\<bar>hai_tinyml_w ! i\<bar> \<le> 2 ^ 12" "\<bar>hai_pairwise_fake_theta ! i\<bar> \<le> 2 ^ 12"
    "\<bar>hai_pairwise_fake_gamma ! i\<bar> \<le> 2 ^ 11"
proof -
  have "\<forall>w \<in> set hai_tinyml_w. \<bar>w\<bar> \<le> 2 ^ 12"
    "\<forall>w \<in> set hai_pairwise_fake_theta. \<bar>w\<bar> \<le> 2 ^ 12"
    "\<forall>w \<in> set hai_pairwise_fake_gamma. \<bar>w\<bar> \<le> 2 ^ 11"
    by (simp_all add: hai_params)
  with assms show "\<bar>hai_tinyml_w ! i\<bar> \<le> 2 ^ 12" "\<bar>hai_pairwise_fake_theta ! i\<bar> \<le> 2 ^ 12"
    "\<bar>hai_pairwise_fake_gamma ! i\<bar> \<le> 2 ^ 11"
    by simp_all
qed

lemma hai_bias_ok:
  "i64 (hai_tinyml_bias * HAI_S) = Inr (hai_tinyml_bias * HAI_S)"
  "i64 (hai_pairwise_fake_bias * HAI_S) = Inr (hai_pairwise_fake_bias * HAI_S)"
  by (simp_all add: hai_params in_i64_def)

lemma hai_tinyml_one_value:
  assumes "16 \<le> length x"
  shows "hai_tinyml_one x = Inr (decision (hai_tinyml_exact x))"
proof -
  have "cfor [0..<16] (\<lambda>i acc. cbind (term64 hai_tinyml_w x i) (\<lambda>p. i64 (acc + p)))
      (hai_tinyml_bias * HAI_S) = Inr (hai_tinyml_exact x)"
    unfolding hai_tinyml_exact_def
    using assms hai_nth_bounds(1) by (intro linear_loop(1)) (auto simp: hai_tinyml_bias_def)
  then show ?thesis
    by (simp add: hai_tinyml_one_def hai_bias_ok decision_def)
qed

lemma hai_pair_term_value:
  assumes "16 \<le> length x" and "i < 16"
    and small: "\<And>j. j < 16 \<Longrightarrow> \<bar>sint (x ! j)\<bar> \<le> 2 ^ 24"
  shows "hai_pair_term x i = Inr (hai_pair_exact x i)" and "\<bar>hai_pair_exact x i\<bar> \<le> 2 ^ 58"
proof -
  let ?p = "sint (x ! i) * sint (x ! (Suc i mod 16))"
  let ?g = "hai_pairwise_fake_gamma ! i * ?p"
  have p: "\<bar>?p\<bar> \<le> 2 ^ 24 * 2 ^ 24"
    using small [of i] small [of "Suc i mod 16"] assms(2) by (intro abs_mult_le) auto
  have "\<bar>?g\<bar> \<le> 2 ^ 11 * (2 ^ 24 * 2 ^ 24)"
    using hai_nth_bounds(3) [OF assms(2)] p by (rule abs_mult_le)
  then have g: "\<bar>?g\<bar> \<le> 2 ^ 59" by simp
  have "in_i64 ?p" using p by (intro in_i64I) simp
  moreover have g64: "in_i64 ?g" using g by (intro in_i64I) simp
  moreover have "\<bar>?g sdiv 1000\<bar> * 1000 \<le> \<bar>?g\<bar>" by (rule abs_sdiv_mult_le) simp
  ultimately show "hai_pair_term x i = Inr (hai_pair_exact x i)"
    and "\<bar>hai_pair_exact x i\<bar> \<le> 2 ^ 58"
    using assms(1,2) g i64_div_scale [OF g64]
    by (simp_all add: hai_pair_term_def hai_pair_exact_def)
qed

lemma hai_pairwise_fake_one_value:
  assumes len: "16 \<le> length x" and small: "\<And>j. j < 16 \<Longrightarrow> \<bar>sint (x ! j)\<bar> \<le> 2 ^ 24"
  shows "hai_pairwise_fake_one x = Inr (decision (hai_pairwise_exact x))"
proof -
  let ?L = "linear_score hai_pairwise_fake_theta (hai_pairwise_fake_bias * HAI_S) x 16"
  have lin: "cfor [0..<16] (\<lambda>i acc. cbind (term64 hai_pairwise_fake_theta x i) (\<lambda>p. i64 (acc + p)))
      (hai_pairwise_fake_bias * HAI_S) = Inr ?L" and L: "\<bar>?L\<bar> \<le> 2 ^ 32 + 16 * 2 ^ 43"
    using len hai_nth_bounds(2)
    by (intro linear_loop; auto simp: hai_pairwise_fake_bias_def)+
  have pair: "hai_pair_term x i = Inr (hai_pair_exact x i)" if "i \<in> set [0..<16]" for i
    using hai_pair_term_value(1) [OF len _ small] that by simp
  have "\<bar>hai_pair_exact x i\<bar> \<le> 2 ^ 58" if "i \<in> set [0..<16]" for i
    using hai_pair_term_value(2) [OF len _ small] that by simp
  then have "(\<Sum>i\<leftarrow>[0..<16]. \<bar>hai_pair_exact x i\<bar>) \<le> int (length [0..<16 :: nat]) * 2 ^ 58"
    by (rule sum_list_abs_le)
  then have "\<bar>?L\<bar> + (\<Sum>i\<leftarrow>[0..<16]. \<bar>hai_pair_exact x i\<bar>) < 2 ^ 63"
    using L by simp
  from cfor_acc64 [OF pair this] lin show ?thesis
    by (simp add: hai_pairwise_fake_one_def hai_bias_ok hai_pairwise_exact_def decision_def)
qed

subsection \<open>Blocks of rows\<close>

definition hai_row :: "u32 list \<Rightarrow> nat \<Rightarrow> u32 list" where
  "hai_row rows i = take 16 (drop (i * 16) rows)"

definition hai_exact :: "u32 \<Rightarrow> u32 list \<Rightarrow> int" where
  "hai_exact model x = (if model = QAI_HAI_MODEL_TINYML then hai_tinyml_exact x else hai_pairwise_exact x)"

text \<open>
  The values on which the model is exact: any row for the logistic model, and for the pairwise
  model rows whose milli-z features stay below \<open>2 ^ 24\<close>.
\<close>

definition hai_in_range :: "u32 \<Rightarrow> u32 list \<Rightarrow> bool" where
  "hai_in_range model x \<longleftrightarrow> model = QAI_HAI_MODEL_TINYML \<or> (\<forall>v \<in> set x. \<bar>sint v\<bar> \<le> 2 ^ 24)"

lemma hai_exact_take:
  assumes "16 \<le> length x"
  shows "hai_exact model (take 16 x) = hai_exact model x"
proof -
  have "linear_score ws b (take 16 x) 16 = linear_score ws b x 16" for ws b
    unfolding linear_score_def by (intro arg_cong [where f = "\<lambda>l. b + sum_list l"] map_cong) auto
  moreover have "map (hai_pair_exact (take 16 x)) [0..<16] = map (hai_pair_exact x) [0..<16]"
    by (rule map_cong) (auto simp: hai_pair_exact_def)
  ultimately show ?thesis
    by (simp del: map_eq_conv add: hai_exact_def hai_tinyml_exact_def hai_pairwise_exact_def)
qed

lemma hai_one_value:
  assumes "16 \<le> length x" and "hai_in_range model (take 16 x)"
  shows "hai_one model x = Inr (decision (hai_exact model (take 16 x)))"
proof (cases "model = QAI_HAI_MODEL_TINYML")
  case True
  with assms show ?thesis
    by (simp add: hai_exact_take) (simp add: hai_one_def hai_tinyml_one_value hai_exact_def)
next
  case False
  have "\<bar>sint (x ! j)\<bar> \<le> 2 ^ 24" if "j < 16" for j
  proof -
    have "x ! j = take 16 x ! j" using that by simp
    moreover have "take 16 x ! j \<in> set (take 16 x)" using that assms(1) by (intro nth_mem) simp
    ultimately show ?thesis using assms(2) False by (simp add: hai_in_range_def)
  qed
  with False assms(1) show ?thesis
    by (simp add: hai_exact_take) (simp add: hai_one_def hai_pairwise_fake_one_value hai_exact_def)
qed

lemma hai_pass:
  assumes "\<And>i. i < m \<Longrightarrow> f i = Inr (d i)" and "m \<le> length pred"
  shows "cfor [0..<m] (\<lambda>i pred. cbind (f i) (\<lambda>p. awrite pred i p)) pred =
    Inr (map d [0..<m] @ drop m pred)"
  using assms
proof (induction m)
  case (Suc m)
  then have "m < length pred" by simp
  then have "(map d [0..<m] @ drop m pred)[m := d m] = map d [0..<Suc m] @ drop (Suc m) pred"
    by (simp add: list_update_append Cons_nth_drop_Suc [symmetric])
  with Suc show ?case
    by (simp add: cfor_append upt_Suc_append del: upt_Suc map_append)
qed simp

lemma hai_passes:
  assumes "\<And>i. i < m \<Longrightarrow> f i = Inr (d i)" and "m \<le> length pred" and "0 < r"
  shows "cfor [0..<r] (\<lambda>_. cfor [0..<m] (\<lambda>i pred. cbind (f i) (\<lambda>p. awrite pred i p))) pred =
    Inr (map d [0..<m] @ drop m pred)"
proof -
  have "cfor [0..<Suc k] (\<lambda>_. cfor [0..<m] (\<lambda>i pred. cbind (f i) (\<lambda>p. awrite pred i p))) pred =
      Inr (map d [0..<m] @ drop m pred)" for k
  proof (induction k)
    case 0
    show ?case using hai_pass [OF assms(1,2)] by simp
  next
    case (Suc k)
    have "cfor [0..<m] (\<lambda>i pred. cbind (f i) (\<lambda>p. awrite pred i p)) (map d [0..<m] @ drop m pred) =
        Inr (map d [0..<m] @ drop m (map d [0..<m] @ drop m pred))"
      using assms(1,2) by (intro hai_pass) auto
    with Suc show ?case
      by (subst upt_Suc_append) (simp_all add: cfor_append del: upt_Suc)
  qed
  from this [of "r - 1"] assms(3) show ?thesis by simp
qed

section \<open>Properties\<close>

lemma delta_ms_value:
  assumes "tt_millis t0 < 1000" and "tt_millis t1 < 1000"
  shows "delta_ms t0 t1 = Inr (word_of_int (total_ms t1 - total_ms t0))"
proof -
  have ms: "sint (tt_millis t) = uint (tt_millis t)" "0 \<le> uint (tt_millis t)"
    "uint (tt_millis t) < 1000" if "tt_millis t < 1000" for t
  proof -
    from that show lt: "uint (tt_millis t) < 1000" by (simp add: word_less_alt)
    show ge: "0 \<le> uint (tt_millis t)" by simp
    have "in_i32 (uint (tt_millis t))" using lt ge by (intro in_i32I) simp
    then have "sint (word_of_int (uint (tt_millis t)) :: u32) = uint (tt_millis t)"
      by (rule sint_word_of_int)
    then show "sint (tt_millis t) = uint (tt_millis t)" by simp
  qed
  let ?d = "uint (tt_millis t1) - uint (tt_millis t0)"
  have "\<bar>?d\<bar> < 2147483648" and "\<bar>?d + 1000\<bar> < 2147483648"
    using ms(2,3) [OF assms(1)] ms(2,3) [OF assms(2)] by linarith+
  then have "in_i32 ?d" and "in_i32 (?d + 1000)"
    by (simp_all add: in_i32I)
  then show ?thesis
    by (simp add: delta_ms_def total_ms_def Let_def ms(1) assms algebra_simps)
qed

text \<open>For clock readings whose millisecond part is below 1000 and that lie less than
  \<open>2 ^ 32\<close> milliseconds apart, \<open>delta_ms\<close> is the exact elapsed time, whether or not the
  millisecond part borrowed from the seconds.\<close>

theorem delta_ms_exact:
  assumes "tt_millis t0 < 1000" and "tt_millis t1 < 1000"
    and "total_ms t0 \<le> total_ms t1" and "total_ms t1 - total_ms t0 < 2 ^ 32"
  shows "map_sum id uint (delta_ms t0 t1) = Inr (total_ms t1 - total_ms t0)"
  using assms(3,4)
  by (simp add: delta_ms_value [OF assms(1,2)] uint_word_of_int take_bit_int_eq_self
      del: of_int_diff)

theorem delta_ms_exact_witness:
  "map_sum id uint
     (delta_ms \<lparr>tt_seconds = 7, tt_millis = 990\<rparr> \<lparr>tt_seconds = 9, tt_millis = 15\<rparr>) = Inr 1025"
  using delta_ms_exact [of "\<lparr>tt_seconds = 7, tt_millis = 990\<rparr>" "\<lparr>tt_seconds = 9, tt_millis = 15\<rparr>"]
  by (simp add: total_ms_def)

text \<open>For a block the interface accepts, \<open>qai_hai_infer\<close> succeeds, writes to every row the decision of
  the exact score (any data for the logistic model, milli-z features below \<open>2 ^ 24\<close> for the
  pairwise model) and leaves the rest of the prediction buffer alone.\<close>

lemma qai_hai_infer_block:
  assumes "0 < n" "n \<le> QAI_HAI_MAX_ROWS" "0 < reps"
    and "model = QAI_HAI_MODEL_TINYML \<or> model = QAI_HAI_MODEL_PAIRWISE_FAKE"
    and rows: "unat n * 16 \<le> length rows" and pred: "unat n \<le> length pred"
    and range: "\<forall>i<unat n. hai_in_range model (hai_row rows i)"
    and ms: "tt_millis t0 < 1000" "tt_millis t1 < 1000"
  shows "qai_hai_infer model rows n reps pred el t0 t1 =
    Inr (TEE_SUCCESS, map (\<lambda>i. decision (hai_exact model (hai_row rows i))) [0..<unat n] @ drop (unat n) pred,
         word_of_int (total_ms t1 - total_ms t0))"
proof -
  have row: "hai_one model (drop (i * 16) rows) = Inr (decision (hai_exact model (hai_row rows i)))"
    if "i < unat n" for i
  proof -
    have "Suc i * 16 \<le> length rows" using rows that by (metis Suc_leI le_trans mult_le_mono1)
    then show ?thesis
      using range that unfolding hai_row_def by (intro hai_one_value) auto
  qed
  from assms(3) have "0 < unat reps" by (simp add: word_less_nat_alt)
  note passes = hai_passes [OF row pred this]
  from assms(1-4) show ?thesis
    by (auto simp: qai_hai_infer_def passes delta_ms_value [OF ms])
qed

text \<open>For features of any size the pairwise model overflows \<open>int64_t\<close>: a row with two
  neighbouring features at the maximum of \<open>int32_t\<close> makes the scaled product undefined.\<close>

theorem hai_pairwise_overflow:
  "hai_pairwise_fake_one (replicate 10 0 @ [0x7FFFFFFF, 0x7FFFFFFF] @ replicate 4 0) =
     Inl Signed_overflow"
  by code_simp

end
