(* ===== verification/Qai_Fidelity.thy ===== *)
theory Qai_Fidelity
  imports Complex_Main Qai_Hai
begin

text \<open>
  The fidelity kernel of \<open>ta/fidelity_kernel.c\<close>: a state vector in the data section of the
  trusted application, rotated by dense-angle RY and RZ gates and a ring of CNOTs, forward with
  one feature vector and backward with another, and the overlap turned into a kernel value.

  Floating-point arithmetic is a parameter, the record \<open>fp\<close> of the operations the code uses on
  \<open>double\<close>, with the conversions from and to \<open>float\<close> and integers. The definitions fix the
  order of the operations and nothing about rounding; what is proved for every \<open>fp\<close> holds of
  the compiled code whatever its rounding.
\<close>

section \<open>Arithmetic on doubles\<close>

record 'd fp =
  fp_lit :: "real \<Rightarrow> 'd"
  fp_add :: "'d \<Rightarrow> 'd \<Rightarrow> 'd"
  fp_sub :: "'d \<Rightarrow> 'd \<Rightarrow> 'd"
  fp_mul :: "'d \<Rightarrow> 'd \<Rightarrow> 'd"
  fp_div :: "'d \<Rightarrow> 'd \<Rightarrow> 'd"
  fp_neg :: "'d \<Rightarrow> 'd"
  fp_lt :: "'d \<Rightarrow> 'd \<Rightarrow> bool"
  fp_of_u32 :: "u32 \<Rightarrow> 'd"
  fp_of_f32 :: "u32 \<Rightarrow> 'd"
  fp_to_f32 :: "'d \<Rightarrow> u32"
  fp_to_i64 :: "'d \<Rightarrow> u64"

definition QAI_PI :: "'d fp \<Rightarrow> 'd" where
  "QAI_PI F = fp_lit F 3.14159265358979323846"

text \<open>\<open>c0 + x * (c1 + x * (... + x * cn))\<close>, evaluated inside out.\<close>

fun horner :: "'d fp \<Rightarrow> 'd \<Rightarrow> 'd list \<Rightarrow> 'd" where
  "horner F x [] = fp_lit F 0"
| "horner F x [c] = c"
| "horner F x (c # cs) = fp_add F c (fp_mul F x (horner F x cs))"

definition inv_lit :: "'d fp \<Rightarrow> real \<Rightarrow> 'd" where
  "inv_lit F n = fp_div F (fp_lit F 1) (fp_lit F n)"

definition neg_inv_lit :: "'d fp \<Rightarrow> real \<Rightarrow> 'd" where
  "neg_inv_lit F n = fp_div F (fp_neg F (fp_lit F 1)) (fp_lit F n)"

definition k_sin :: "'d fp \<Rightarrow> 'd \<Rightarrow> 'd" where
  "k_sin F x0 =
     (let neg = fp_lt F x0 (fp_lit F 0);
          x1 = (if neg then fp_neg F x0 else x0);
          x2 = (if fp_lt F (QAI_PI F) x1
                then fp_sub F (fp_mul F (fp_lit F 2) (QAI_PI F)) x1 else x1);
          x = (if fp_lt F (fp_mul F (QAI_PI F) (fp_lit F 0.5)) x2
               then fp_sub F (QAI_PI F) x2 else x2);
          s = fp_mul F x (horner F (fp_mul F x x)
                [fp_lit F 1, neg_inv_lit F 6, inv_lit F 120, neg_inv_lit F 5040,
                 inv_lit F 362880, neg_inv_lit F 39916800, inv_lit F 6227020800,
                 neg_inv_lit F 1307674368000])
      in if neg then fp_neg F s else s)"

definition k_cos :: "'d fp \<Rightarrow> 'd \<Rightarrow> 'd" where
  "k_cos F x =
     (let ax = (if fp_lt F x (fp_lit F 0) then fp_neg F x else x) in
      if fp_lt F (fp_mul F (QAI_PI F) (fp_lit F 0.5)) ax
      then fp_neg F (k_sin F (fp_sub F ax (fp_mul F (QAI_PI F) (fp_lit F 0.5))))
      else horner F (fp_mul F ax ax)
             [fp_lit F 1, fp_neg F (fp_lit F 0.5), inv_lit F 24, neg_inv_lit F 720,
              inv_lit F 40320, neg_inv_lit F 3628800, inv_lit F 479001600,
              neg_inv_lit F 87178291200])"

definition k_exp_unit :: "'d fp \<Rightarrow> 'd \<Rightarrow> 'd" where
  "k_exp_unit F p =
     snd (fold (\<lambda>k (term, sum).
            let term' = fp_mul F term (fp_div F p (fp_lit F (real k)))
            in (term', fp_add F sum term'))
          [1..<17] (fp_lit F 1, fp_lit F 1))"

section \<open>State vector\<close>

record 'd kstate =
  psi_re :: "'d list"
  psi_im :: "'d list"
  tmp_re :: "'d list"
  tmp_im :: "'d list"
  kern_nq :: u32
  kern_dim :: u32
  rng_state :: u32

definition kernel_select :: "u32 \<Rightarrow> 'd kstate \<Rightarrow> 'd kstate" where
  "kernel_select nq st = st\<lparr>kern_nq := nq, kern_dim := push_bit (unat nq) 1\<rparr>"

subsection \<open>Gates\<close>

text \<open>The eight real entries of a two-by-two complex matrix, in the order of the call.\<close>

record 'd gate =
  g00r :: 'd
  g00i :: 'd
  g01r :: 'd
  g01i :: 'd
  g10r :: 'd
  g10i :: 'd
  g11r :: 'd
  g11i :: 'd

text \<open>First pass of \<open>apply_1q\<close>: stash the lower partner, move the upper one into its place.\<close>

definition stash_step :: "nat \<Rightarrow> nat \<Rightarrow> 'd kstate \<times> nat \<Rightarrow> ('d kstate \<times> nat) res" where
  "stash_step bt i = (\<lambda>(st, n0).
     if i AND bt \<noteq> 0 then Inr (st, n0)
     else let j = i OR bt in
       cbind (aread (psi_re st) i) (\<lambda>pr. cbind (awrite (tmp_re st) n0 pr) (\<lambda>tr.
       cbind (aread (psi_im st) i) (\<lambda>pi. cbind (awrite (tmp_im st) n0 pi) (\<lambda>ti.
       cbind (aread (psi_re st) j) (\<lambda>qr. cbind (awrite (psi_re st) i qr) (\<lambda>re.
       cbind (aread (psi_im st) j) (\<lambda>qi. cbind (awrite (psi_im st) i qi) (\<lambda>im.
       Inr (st\<lparr>psi_re := re, psi_im := im, tmp_re := tr, tmp_im := ti\<rparr>, Suc n0))))))))))"

text \<open>\<open>gr * ar - gi * ai + hr * br - hi * bi\<close> and its imaginary counterpart.\<close>

definition lin_re :: "'d fp \<Rightarrow> 'd \<Rightarrow> 'd \<Rightarrow> 'd \<Rightarrow> 'd \<Rightarrow> 'd \<Rightarrow> 'd \<Rightarrow> 'd \<Rightarrow> 'd \<Rightarrow> 'd" where
  "lin_re F gr gi hr hi ar ai br bi =
     fp_sub F (fp_add F (fp_sub F (fp_mul F gr ar) (fp_mul F gi ai)) (fp_mul F hr br)) (fp_mul F hi bi)"

definition lin_im :: "'d fp \<Rightarrow> 'd \<Rightarrow> 'd \<Rightarrow> 'd \<Rightarrow> 'd \<Rightarrow> 'd \<Rightarrow> 'd \<Rightarrow> 'd \<Rightarrow> 'd \<Rightarrow> 'd" where
  "lin_im F gr gi hr hi ar ai br bi =
     fp_add F (fp_add F (fp_add F (fp_mul F gr ai) (fp_mul F gi ar)) (fp_mul F hr bi)) (fp_mul F hi br)"

definition combine_step ::
  "'d fp \<Rightarrow> 'd gate \<Rightarrow> nat \<Rightarrow> nat \<Rightarrow> 'd kstate \<times> nat \<Rightarrow> ('d kstate \<times> nat) res" where
  "combine_step F g bt i = (\<lambda>(st, n0).
     if i AND bt \<noteq> 0 then Inr (st, n0)
     else let j = i OR bt in
       cbind (aread (tmp_re st) n0) (\<lambda>ar. cbind (aread (tmp_im st) n0) (\<lambda>ai.
       cbind (aread (psi_re st) i) (\<lambda>br. cbind (aread (psi_im st) i) (\<lambda>bi.
       cbind (awrite (psi_re st) i (lin_re F (g00r g) (g00i g) (g01r g) (g01i g) ar ai br bi)) (\<lambda>re.
       cbind (awrite (psi_im st) i (lin_im F (g00r g) (g00i g) (g01r g) (g01i g) ar ai br bi)) (\<lambda>im.
       cbind (awrite re j (lin_re F (g10r g) (g10i g) (g11r g) (g11i g) ar ai br bi)) (\<lambda>re.
       cbind (awrite im j (lin_im F (g10r g) (g10i g) (g11r g) (g11i g) ar ai br bi)) (\<lambda>im.
       Inr (st\<lparr>psi_re := re, psi_im := im\<rparr>, Suc n0))))))))))"

definition apply_1q :: "'d fp \<Rightarrow> nat \<Rightarrow> 'd gate \<Rightarrow> 'd kstate \<Rightarrow> 'd kstate res" where
  "apply_1q F q g st =
     (let bt = push_bit q 1 in
      cbind (cfor [0..<unat (kern_dim st)] (stash_step bt) (st, 0)) (\<lambda>(st, _).
      cbind (cfor [0..<unat (kern_dim st)] (combine_step F g bt) (st, 0)) (\<lambda>(st, _). Inr st)))"

definition ry_gate :: "'d fp \<Rightarrow> 'd \<Rightarrow> 'd gate" where
  "ry_gate F theta =
     (let c = k_cos F (fp_mul F theta (fp_lit F 0.5)); s = k_sin F (fp_mul F theta (fp_lit F 0.5)) in
      \<lparr>g00r = c, g00i = fp_lit F 0, g01r = fp_neg F s, g01i = fp_lit F 0,
       g10r = s, g10i = fp_lit F 0, g11r = c, g11i = fp_lit F 0\<rparr>)"

definition apply_ry :: "'d fp \<Rightarrow> nat \<Rightarrow> 'd \<Rightarrow> 'd kstate \<Rightarrow> 'd kstate res" where
  "apply_ry F q theta = apply_1q F q (ry_gate F theta)"

definition rz_gate :: "'d fp \<Rightarrow> 'd \<Rightarrow> 'd gate" where
  "rz_gate F phi =
     (let a = fp_mul F phi (fp_lit F 0.5); c = k_cos F a; s = k_sin F a in
      \<lparr>g00r = c, g00i = fp_neg F s, g01r = fp_lit F 0, g01i = fp_lit F 0,
       g10r = fp_lit F 0, g10i = fp_lit F 0, g11r = c, g11i = s\<rparr>)"

definition apply_rz :: "'d fp \<Rightarrow> nat \<Rightarrow> 'd \<Rightarrow> 'd kstate \<Rightarrow> 'd kstate res" where
  "apply_rz F q phi = apply_1q F q (rz_gate F phi)"

definition cnot_step :: "nat \<Rightarrow> nat \<Rightarrow> nat \<Rightarrow> 'd kstate \<Rightarrow> 'd kstate res" where
  "cnot_step cbit tbit i st =
     (if i AND cbit = 0 \<or> i AND tbit \<noteq> 0 then Inr st
      else let j = i OR tbit in
        cbind (aread (psi_re st) i) (\<lambda>tr. cbind (aread (psi_im st) i) (\<lambda>ti.
        cbind (aread (psi_re st) j) (\<lambda>pr. cbind (awrite (psi_re st) i pr) (\<lambda>re.
        cbind (aread (psi_im st) j) (\<lambda>pi. cbind (awrite (psi_im st) i pi) (\<lambda>im.
        cbind (awrite re j tr) (\<lambda>re. cbind (awrite im j ti) (\<lambda>im.
        Inr (st\<lparr>psi_re := re, psi_im := im\<rparr>))))))))))"

definition cnot_pair :: "nat \<Rightarrow> nat \<Rightarrow> 'd kstate \<Rightarrow> 'd kstate res" where
  "cnot_pair ctrl tgt st =
     cfor [0..<unat (kern_dim st)] (cnot_step (push_bit ctrl 1) (push_bit tgt 1)) st"

definition cnot_ring :: "bool \<Rightarrow> 'd kstate \<Rightarrow> 'd kstate res" where
  "cnot_ring reverse st =
     (let nq = unat (kern_nq st) in
      cfor (if reverse then rev [0..<nq] else [0..<nq]) (\<lambda>q. cnot_pair q (Suc q mod nq)) st)"

definition layer_fwd :: "'d fp \<Rightarrow> 'd list \<Rightarrow> 'd kstate \<Rightarrow> 'd kstate res" where
  "layer_fwd F x st =
     (let rot = cfor [0..<unat (kern_nq st)] (\<lambda>q st.
            cbind (aread x (2 * q)) (\<lambda>a. cbind (apply_ry F q a st) (\<lambda>st.
            cbind (aread x (2 * q + 1)) (\<lambda>b. apply_rz F q b st))))
      in cbind (rot st) (\<lambda>st. cbind (cnot_ring False st) rot))"

definition layer_inv :: "'d fp \<Rightarrow> 'd list \<Rightarrow> 'd kstate \<Rightarrow> 'd kstate res" where
  "layer_inv F y st =
     (let rot = cfor (rev [0..<unat (kern_nq st)]) (\<lambda>q st.
            cbind (aread y (2 * q + 1)) (\<lambda>b. cbind (apply_rz F q (fp_neg F b) st) (\<lambda>st.
            cbind (aread y (2 * q)) (\<lambda>a. apply_ry F q (fp_neg F a) st))))
      in cbind (rot st) (\<lambda>st. cbind (cnot_ring True st) rot))"

definition reset_psi :: "'d fp \<Rightarrow> 'd kstate \<Rightarrow> 'd kstate res" where
  "reset_psi F st =
     cbind (cfor [0..<unat (kern_dim st)] (\<lambda>i st.
              cbind (awrite (psi_re st) i (fp_lit F 0)) (\<lambda>re.
              cbind (awrite (psi_im st) i (fp_lit F 0)) (\<lambda>im.
              Inr (st\<lparr>psi_re := re, psi_im := im\<rparr>)))) st) (\<lambda>st.
     cbind (awrite (psi_re st) 0 (fp_lit F 1)) (\<lambda>re. Inr (st\<lparr>psi_re := re\<rparr>)))"

definition fidelity_exp_reps ::
  "'d fp \<Rightarrow> 'd list \<Rightarrow> 'd list \<Rightarrow> u32 \<Rightarrow> 'd kstate \<Rightarrow> ('d \<times> 'd kstate) res" where
  "fidelity_exp_reps F x y reps st =
     cbind (reset_psi F st) (\<lambda>st.
     cbind (cfor [0..<unat reps] (\<lambda>_. layer_fwd F x) st) (\<lambda>st.
     cbind (cfor [0..<unat reps] (\<lambda>_. layer_inv F y) st) (\<lambda>st.
     cbind (aread (psi_re st) 0) (\<lambda>r. cbind (aread (psi_im st) 0) (\<lambda>i.
     let p = fp_add F (fp_mul F r r) (fp_mul F i i);
         p = (if fp_lt F p (fp_lit F 0) then fp_lit F 0 else p);
         p = (if fp_lt F (fp_lit F 1) p then fp_lit F 1 else p)
     in Inr (k_exp_unit F p, st))))))"

abbreviation (input) QAI_REPS :: u32 where "QAI_REPS \<equiv> 3"

definition fidelity_exp :: "'d fp \<Rightarrow> 'd list \<Rightarrow> 'd list \<Rightarrow> 'd kstate \<Rightarrow> ('d \<times> 'd kstate) res" where
  "fidelity_exp F x y = fidelity_exp_reps F x y QAI_REPS"

section \<open>Benchmark and kernel blocks\<close>

definition next_angle :: "'d fp \<Rightarrow> 'd kstate \<Rightarrow> 'd \<times> 'd kstate" where
  "next_angle F st =
     (let r = rng_state st * 1664525 + 1013904223 in
      (fp_sub F (fp_mul F (fp_mul F (fp_of_u32 F (drop_bit 8 r)) (inv_lit F 16777216))
                          (fp_mul F (fp_lit F 2) (QAI_PI F))) (QAI_PI F),
       st\<lparr>rng_state := r\<rparr>))"

definition fill_vec :: "'d fp \<Rightarrow> 'd kstate \<Rightarrow> 'd list \<times> 'd kstate" where
  "fill_vec F st =
     fold (\<lambda>_ (v, st). let (a, st) = next_angle F st in (v @ [a], st)) [0..<16] ([], st)"

record qai_fidelity_bench_out =
  fb_evals :: u32
  fb_tee_elapsed_ms :: u32
  fb_self_exp_micro :: u64
  fb_batch_sum_micro :: u64

definition qai_fidelity_bench ::
  "'d fp \<Rightarrow> u32 \<Rightarrow> TEE_Time \<Rightarrow> TEE_Time \<Rightarrow> 'd kstate \<Rightarrow>
   (u32 \<times> qai_fidelity_bench_out option \<times> 'd kstate) res" where
  "qai_fidelity_bench F evals t0 t1 st =
     (if evals > 20000 then Inr (TEE_ERROR_BAD_PARAMETERS, None, st)
      else
        let st = kernel_select 8 st; (self_x, st) = fill_vec F st in
        cbind (fidelity_exp F self_x self_x st) (\<lambda>(self, st).
        cbind (cfor [0..<unat evals] (\<lambda>_ (acc, st).
                 let (x, st) = fill_vec F st; (y, st) = fill_vec F st in
                 cbind (fidelity_exp F x y st) (\<lambda>(k, st). Inr (fp_add F acc k, st)))
               (fp_lit F 0, st)) (\<lambda>(acc, st).
        cbind (delta_ms t0 t1) (\<lambda>ms.
        Inr (TEE_SUCCESS,
             Some \<lparr>fb_evals = evals, fb_tee_elapsed_ms = ms,
                   fb_self_exp_micro = fp_to_i64 F (fp_mul F self (fp_lit F 1000000)),
                   fb_batch_sum_micro = fp_to_i64 F (fp_mul F acc (fp_lit F 1000000))\<rparr>,
             st)))))"

text \<open>
  \<open>load_feat\<close> copies \<open>n_feat\<close> floats, given by their bit patterns, from the array behind
  \<open>src\<close> into a local vector of \<open>double\<close>.
\<close>

definition load_feat :: "'d fp \<Rightarrow> u32 list \<Rightarrow> nat \<Rightarrow> 'd list res" where
  "load_feat F src n_feat =
     cfor [0..<n_feat] (\<lambda>i dst. cbind (aread src i) (\<lambda>v. Inr (dst @ [fp_of_f32 F v]))) []"

definition qai_fidelity_kernel_block ::
  "'d fp \<Rightarrow> u32 list \<Rightarrow> u32 \<Rightarrow> u32 list \<Rightarrow> u32 \<Rightarrow> u32 \<Rightarrow> u32 \<Rightarrow> u32 list \<Rightarrow> u32 \<Rightarrow>
   TEE_Time \<Rightarrow> TEE_Time \<Rightarrow> 'd kstate \<Rightarrow> (u32 \<times> u32 list \<times> u32 \<times> 'd kstate) res" where
  "qai_fidelity_kernel_block F ref n_ref query n_query reps n_qubits out_k elapsed t0 t1 st =
     (if n_ref = 0 \<or> n_query = 0 \<or> reps = 0 \<or> reps > QAI_REPS then
        Inr (TEE_ERROR_BAD_PARAMETERS, out_k, elapsed, st)
      else if n_qubits \<noteq> 8 \<and> n_qubits \<noteq> 16 then
        Inr (TEE_ERROR_BAD_PARAMETERS, out_k, elapsed, st)
      else if n_ref > QAI_KERNEL_MAX_PAIRS \<or> n_query > QAI_KERNEL_MAX_PAIRS then
        Inr (TEE_ERROR_BAD_PARAMETERS, out_k, elapsed, st)
      else if n_ref * n_query > QAI_KERNEL_MAX_PAIRS then
        Inr (TEE_ERROR_BAD_PARAMETERS, out_k, elapsed, st)
      else
        let n_feat = unat (n_qubits * 2) in
        cbind (cfor [0..<unat n_query] (\<lambda>q (out_k, st).
                 cbind (load_feat F (drop (q * n_feat) query) n_feat) (\<lambda>qv.
                 cfor [0..<unat n_ref] (\<lambda>r (out_k, st).
                   cbind (load_feat F (drop (r * n_feat) ref) n_feat) (\<lambda>rv.
                   cbind (fidelity_exp_reps F qv rv reps st) (\<lambda>(k, st).
                   cbind (awrite out_k (q * unat n_ref + r) (fp_to_f32 F k)) (\<lambda>out_k.
                   Inr (out_k, st)))))
                 (out_k, st)))
               (out_k, kernel_select n_qubits st)) (\<lambda>(out_k, st).
        cbind (delta_ms t0 t1) (\<lambda>ms. Inr (TEE_SUCCESS, out_k, ms, st))))"

section \<open>Pairs of indices that differ in one bit\<close>

lemma and_pow_eq_0: "(i AND 2 ^ q = 0) \<longleftrightarrow> \<not> bit i q" for i :: nat
  by (simp add: and_exp_eq_0_iff_not_bit)

lemma or_pow_flip: "\<not> bit i q \<Longrightarrow> i OR 2 ^ q = flip_bit q i" for i :: nat
  by (rule bit_eqI) (auto simp: bit_simps)

lemma flip_flip [simp]: "flip_bit q (flip_bit q i) = i" for i :: nat
  by (rule bit_eqI) (auto simp: bit_simps)

lemma bit_flip_same [simp]: "bit (flip_bit q i) q \<longleftrightarrow> \<not> bit i q" for i :: nat
  by (simp add: bit_simps)

lemma bit_flip_other [simp]: "p \<noteq> q \<Longrightarrow> bit (flip_bit q i) p \<longleftrightarrow> bit i p" for i :: nat
  by (auto simp: bit_simps)

lemma flip_neq [simp]: "flip_bit q i \<noteq> i" "i \<noteq> flip_bit q i" for i :: nat
  using bit_flip_same [of q i] by metis+

lemma less_pow_iff_bits: "i < 2 ^ n \<longleftrightarrow> (\<forall>m\<ge>n. \<not> bit i m)" for i :: nat
proof
  assume "i < 2 ^ n"
  then have "take_bit n i = i" by (simp add: take_bit_nat_eq_self)
  then show "\<forall>m\<ge>n. \<not> bit i m" by (metis bit_take_bit_iff not_less)
next
  assume *: "\<forall>m\<ge>n. \<not> bit i m"
  have "bit (take_bit n i) m \<longleftrightarrow> bit i m" for m
    using * by (cases "m < n") (simp_all add: bit_take_bit_iff)
  then have "take_bit n i = i" by (intro bit_eqI)
  then show "i < 2 ^ n" by (metis take_bit_nat_less_exp)
qed

lemma flip_less [simp]: "q < n \<Longrightarrow> flip_bit q i < 2 ^ n \<longleftrightarrow> i < 2 ^ n" for i :: nat
  unfolding less_pow_iff_bits by (auto simp: bit_simps)

text \<open>\<open>cnt q k\<close> counts the indices below \<open>k\<close> with bit \<open>q\<close> clear: the value of \<open>n0\<close>.\<close>

definition cnt :: "nat \<Rightarrow> nat \<Rightarrow> nat" where
  "cnt q k = card {i. i < k \<and> \<not> bit i q}"

lemma cnt_0 [simp]: "cnt q 0 = 0"
  by (simp add: cnt_def)

lemma cnt_Suc: "cnt q (Suc k) = (if bit k q then cnt q k else Suc (cnt q k))"
proof -
  have "{i. i < Suc k \<and> \<not> bit i q} =
        (if bit k q then {} else {k}) \<union> {i. i < k \<and> \<not> bit i q}"
    by (auto simp: less_Suc_eq)
  then show ?thesis by (simp add: cnt_def)
qed

lemma cnt_mono: "k \<le> l \<Longrightarrow> cnt q k \<le> cnt q l"
  unfolding cnt_def by (rule card_mono) auto

lemma cnt_half:
  assumes "q < n"
  shows "2 * cnt q (2 ^ n) = 2 ^ n"
proof -
  let ?C = "{i. i < (2::nat) ^ n \<and> \<not> bit i q}" and ?S = "{i. i < (2::nat) ^ n \<and> bit i q}"
  have "bij_betw (flip_bit q) ?C ?S"
    using assms by (intro bij_betw_byWitness [where f' = "flip_bit q"]) auto
  then have "card ?C = card ?S" by (rule bij_betw_same_card)
  moreover have "card ?C + card ?S = card (?C \<union> ?S)"
    by (rule card_Un_disjoint [symmetric]) auto
  moreover have "?C \<union> ?S = {..<2 ^ n}" by auto
  ultimately show ?thesis by (simp add: cnt_def)
qed

lemma cnt_less:
  assumes "q < n" "i < 2 ^ n" "\<not> bit i q"
  shows "cnt q i < 2 ^ (n - 1)"
proof -
  have "Suc (cnt q i) \<le> cnt q (2 ^ n)"
    using assms cnt_mono [of "Suc i" "2 ^ n" q] by (simp add: cnt_Suc)
  moreover have "2 * cnt q (2 ^ n) = 2 * 2 ^ (n - 1)"
    using cnt_half [OF assms(1)] assms(1) by (cases n) simp_all
  ultimately show ?thesis by linarith
qed

lemma cnt_inj:
  assumes "\<not> bit i q" "\<not> bit j q" "cnt q i = cnt q j"
  shows "i = j"
proof (rule ccontr)
  assume "i \<noteq> j"
  then consider "Suc i \<le> j" | "Suc j \<le> i" by linarith
  then show False
    using assms cnt_mono [of "Suc i" j q] cnt_mono [of "Suc j" i q]
    by cases (simp_all add: cnt_Suc)
qed

text \<open>
  A loop over the indices with bit \<open>q\<close> clear that has replaced the two elements of every pair
  with lower index below \<open>k\<close> by \<open>A i\<close> and \<open>B i\<close>.
\<close>

definition paired :: "nat \<Rightarrow> nat \<Rightarrow> (nat \<Rightarrow> 'a) \<Rightarrow> (nat \<Rightarrow> 'a) \<Rightarrow> 'a list \<Rightarrow> 'a list" where
  "paired q k A B u = map (\<lambda>i.
     if bit i q then (if flip_bit q i < k then B (flip_bit q i) else u ! i)
     else (if i < k then A i else u ! i)) [0..<length u]"

lemma length_paired [simp]: "length (paired q k A B u) = length u"
  by (simp add: paired_def)

lemma paired_0 [simp]: "paired q 0 A B u = u"
  by (rule nth_equalityI) (simp_all add: paired_def)

lemma paired_nth: "i < length u \<Longrightarrow> paired q k A B u ! i =
     (if bit i q then (if flip_bit q i < k then B (flip_bit q i) else u ! i)
      else (if i < k then A i else u ! i))"
  by (simp add: paired_def)

lemma paired_skip: "bit k q \<Longrightarrow> paired q (Suc k) A B u = paired q k A B u"
  by (rule nth_equalityI) (auto simp: paired_nth less_Suc_eq)

lemma paired_step:
  "\<not> bit k q \<Longrightarrow> k < length u \<Longrightarrow>
     paired q (Suc k) A B u = (paired q k A B u)[k := A k, flip_bit q k := B k]"
proof (rule nth_equalityI, goal_cases)
  case (2 i)
  then consider "i = k" | "i = flip_bit q k" | "i \<noteq> k" "i \<noteq> flip_bit q k" "flip_bit q i \<noteq> k"
    by (metis flip_flip)
  then show ?case
    using 2 by cases (simp_all add: paired_nth less_Suc_eq)
qed simp

section \<open>The in-place gate is the reference gate\<close>

text \<open>
  Well-formed kernel state for \<open>n\<close> qubits: the arrays hold at least the amplitudes and the half
  of them that a gate stashes. The arrays of the code are sized for 16 qubits.
\<close>

definition kwf :: "nat \<Rightarrow> 'd kstate \<Rightarrow> bool" where
  "kwf n st \<longleftrightarrow> 1 < n \<and> unat (kern_nq st) = n \<and> unat (kern_dim st) = 2 ^ n \<and>
     2 ^ n \<le> length (psi_re st) \<and> 2 ^ n \<le> length (psi_im st) \<and>
     2 ^ (n - 1) \<le> length (tmp_re st) \<and> 2 ^ (n - 1) \<le> length (tmp_im st)"

lemma kwf_bounds:
  assumes wf: "kwf n st" and q: "q < n" and k: "k < 2 ^ n" and b: "\<not> bit k q"
  shows "k < length (psi_re st)" "k < length (psi_im st)"
    "flip_bit q k < length (psi_re st)" "flip_bit q k < length (psi_im st)"
    "cnt q k < length (tmp_re st)" "cnt q k < length (tmp_im st)"
proof -
  have f: "flip_bit q k < 2 ^ n" and c: "cnt q k < 2 ^ (n - 1)"
    using k q cnt_less [OF q k b] by simp_all
  from wf have l: "2 ^ n \<le> length (psi_re st)" "2 ^ n \<le> length (psi_im st)"
    "2 ^ (n - 1) \<le> length (tmp_re st)" "2 ^ (n - 1) \<le> length (tmp_im st)"
    unfolding kwf_def by blast+
  show "k < length (psi_re st)" "k < length (psi_im st)"
    using k l by (meson less_le_trans)+
  show "flip_bit q k < length (psi_re st)" "flip_bit q k < length (psi_im st)"
    using f l by (meson less_le_trans)+
  show "cnt q k < length (tmp_re st)" "cnt q k < length (tmp_im st)"
    using c l by (meson less_le_trans)+
qed

abbreviation moved :: "nat \<Rightarrow> nat \<Rightarrow> 'd list \<Rightarrow> 'd list" where
  "moved q k v \<equiv> paired q k (\<lambda>i. v ! flip_bit q i) (\<lambda>i. v ! flip_bit q i) v"

definition stashed :: "nat \<Rightarrow> nat \<Rightarrow> 'd list \<Rightarrow> 'd list \<Rightarrow> bool" where
  "stashed q k v t \<longleftrightarrow> (\<forall>i<k. \<not> bit i q \<longrightarrow> t ! cnt q i = v ! i)"

lemma stashed_skip: "bit k q \<Longrightarrow> stashed q k v t \<Longrightarrow> stashed q (Suc k) v t"
  by (auto simp: stashed_def less_Suc_eq)

lemma stashed_step:
  "\<not> bit k q \<Longrightarrow> cnt q k < length t \<Longrightarrow> stashed q k v t \<Longrightarrow>
     stashed q (Suc k) v (t[cnt q k := v ! k])"
  by (auto simp: stashed_def less_Suc_eq nth_list_update dest: cnt_inj)

lemma moved_step:
  assumes "\<not> bit k q" "k < length v" "flip_bit q k < length v"
  shows "(moved q k v)[k := v ! flip_bit q k] = moved q (Suc k) v"
proof -
  let ?w = "(moved q k v)[k := v ! flip_bit q k]"
  have "?w ! flip_bit q k = v ! flip_bit q k"
    using assms by (simp add: paired_nth)
  then have "?w = ?w[flip_bit q k := v ! flip_bit q k]"
    using list_update_id [of ?w "flip_bit q k"] by simp
  then show ?thesis
    using assms by (simp add: paired_step)
qed

lemma stash_pass:
  assumes wf: "kwf n st" and q: "q < n"
  shows "\<exists>tr ti. cfor [0..<2 ^ n] (stash_step (push_bit q 1)) (st, 0) =
      Inr (st\<lparr>psi_re := moved q (2 ^ n) (psi_re st), psi_im := moved q (2 ^ n) (psi_im st),
             tmp_re := tr, tmp_im := ti\<rparr>, cnt q (2 ^ n)) \<and>
    length tr = length (tmp_re st) \<and> length ti = length (tmp_im st) \<and>
    stashed q (2 ^ n) (psi_re st) tr \<and> stashed q (2 ^ n) (psi_im st) ti"
proof -
  let ?P = "\<lambda>k s. \<exists>tr ti.
      s = (st\<lparr>psi_re := moved q k (psi_re st), psi_im := moved q k (psi_im st),
             tmp_re := tr, tmp_im := ti\<rparr>, cnt q k) \<and>
    length tr = length (tmp_re st) \<and> length ti = length (tmp_im st) \<and>
    stashed q k (psi_re st) tr \<and> stashed q k (psi_im st) ti"
  have "\<exists>s. cfor [0..<2 ^ n] (stash_step (push_bit q 1)) (st, 0) = Inr s \<and> ?P (2 ^ n) s"
  proof (rule cfor_invariant [where P = ?P])
    show "?P 0 (st, 0)"
      by (rule exI [of _ "tmp_re st"], rule exI [of _ "tmp_im st"]) (simp add: stashed_def)
  next
    fix k s
    assume k: "k < 2 ^ n" and "?P k s"
    then obtain tr ti where s: "s = (st\<lparr>psi_re := moved q k (psi_re st),
        psi_im := moved q k (psi_im st), tmp_re := tr, tmp_im := ti\<rparr>, cnt q k)"
      and len: "length tr = length (tmp_re st)" "length ti = length (tmp_im st)"
      and t: "stashed q k (psi_re st) tr" "stashed q k (psi_im st) ti"
      by blast
    show "\<exists>s'. stash_step (push_bit q 1) k s = Inr s' \<and> ?P (Suc k) s'"
    proof (cases "bit k q")
      case True
      then have "stash_step (push_bit q 1) k s = Inr s"
        by (simp add: s stash_step_def and_pow_eq_0)
      moreover have "?P (Suc k) s"
        using True s len t
        by (intro exI [of _ tr] exI [of _ ti]) (simp add: paired_skip cnt_Suc stashed_skip)
      ultimately show ?thesis by blast
    next
      case False
      have b: "k < length (psi_re st)" "k < length (psi_im st)"
        "flip_bit q k < length (psi_re st)" "flip_bit q k < length (psi_im st)"
        "cnt q k < length tr" "cnt q k < length ti"
        using kwf_bounds [OF wf q k False] len by simp_all
      let ?tr = "tr[cnt q k := psi_re st ! k]" and ?ti = "ti[cnt q k := psi_im st ! k]"
      let ?s = "(st\<lparr>psi_re := moved q (Suc k) (psi_re st), psi_im := moved q (Suc k) (psi_im st),
                tmp_re := ?tr, tmp_im := ?ti\<rparr>, cnt q (Suc k))"
      have "stash_step (push_bit q 1) k s = Inr ?s"
        using b False
        by (simp add: s stash_step_def and_pow_eq_0 or_pow_flip paired_nth moved_step cnt_Suc)
      moreover have "?P (Suc k) ?s"
        using stashed_step [OF False b(5) t(1)] stashed_step [OF False b(6) t(2)] len
        by (intro exI [of _ ?tr] exI [of _ ?ti]) simp
      ultimately show ?thesis by blast
    qed
  qed simp
  then show ?thesis by blast
qed

text \<open>The amplitude the gate leaves at index \<open>i\<close>, from the vector before the gate.\<close>

definition gate_re :: "'d fp \<Rightarrow> nat \<Rightarrow> 'd gate \<Rightarrow> 'd list \<Rightarrow> 'd list \<Rightarrow> nat \<Rightarrow> 'd" where
  "gate_re F q g re im i =
     (let j = flip_bit q i in
      if bit i q then lin_re F (g10r g) (g10i g) (g11r g) (g11i g) (re ! j) (im ! j) (re ! i) (im ! i)
      else lin_re F (g00r g) (g00i g) (g01r g) (g01i g) (re ! i) (im ! i) (re ! j) (im ! j))"

definition gate_im :: "'d fp \<Rightarrow> nat \<Rightarrow> 'd gate \<Rightarrow> 'd list \<Rightarrow> 'd list \<Rightarrow> nat \<Rightarrow> 'd" where
  "gate_im F q g re im i =
     (let j = flip_bit q i in
      if bit i q then lin_im F (g10r g) (g10i g) (g11r g) (g11i g) (re ! j) (im ! j) (re ! i) (im ! i)
      else lin_im F (g00r g) (g00i g) (g01r g) (g01i g) (re ! i) (im ! i) (re ! j) (im ! j))"

abbreviation gated :: "nat \<Rightarrow> nat \<Rightarrow> nat \<Rightarrow> (nat \<Rightarrow> 'd) \<Rightarrow> 'd list \<Rightarrow> 'd list" where
  "gated q n k f v \<equiv> paired q k f (\<lambda>i. f (flip_bit q i)) (moved q (2 ^ n) v)"

lemma combine_pass:
  fixes F :: "'d fp" and g :: "'d gate"
  assumes wf: "kwf n st" and q: "q < n"
    and len: "length tr = length (tmp_re st)" "length ti = length (tmp_im st)"
    and t: "stashed q (2 ^ n) (psi_re st) tr" "stashed q (2 ^ n) (psi_im st) ti"
  defines "gr \<equiv> gate_re F q g (psi_re st) (psi_im st)" and "gi \<equiv> gate_im F q g (psi_re st) (psi_im st)"
  shows "cfor [0..<2 ^ n] (combine_step F g (push_bit q 1))
      (st\<lparr>psi_re := moved q (2 ^ n) (psi_re st), psi_im := moved q (2 ^ n) (psi_im st),
          tmp_re := tr, tmp_im := ti\<rparr>, 0) =
    Inr (st\<lparr>psi_re := gated q n (2 ^ n) gr (psi_re st), psi_im := gated q n (2 ^ n) gi (psi_im st),
            tmp_re := tr, tmp_im := ti\<rparr>, cnt q (2 ^ n))"
proof -
  let ?s = "\<lambda>k. (st\<lparr>psi_re := gated q n k gr (psi_re st), psi_im := gated q n k gi (psi_im st),
            tmp_re := tr, tmp_im := ti\<rparr>, cnt q k)"
  have "\<exists>s. cfor [0..<2 ^ n] (combine_step F g (push_bit q 1)) (?s 0) = Inr s \<and> s = ?s (2 ^ n)"
  proof (rule cfor_invariant [where P = "\<lambda>k s. s = ?s k"])
    fix k s
    assume k: "k < 2 ^ n" and s: "s = ?s k"
    show "\<exists>s'. combine_step F g (push_bit q 1) k s = Inr s' \<and> s' = ?s (Suc k)"
    proof (cases "bit k q")
      case True
      then show ?thesis
        by (simp add: s combine_step_def and_pow_eq_0 paired_skip cnt_Suc)
    next
      case False
      have b: "k < length (psi_re st)" "k < length (psi_im st)"
        "flip_bit q k < length (psi_re st)" "flip_bit q k < length (psi_im st)"
        "cnt q k < length tr" "cnt q k < length ti"
        using kwf_bounds [OF wf q k False] len by simp_all
      have "tr ! cnt q k = psi_re st ! k" "ti ! cnt q k = psi_im st ! k"
        using t k False by (simp_all add: stashed_def)
      then show ?thesis
        using b False k q
        by (simp add: s combine_step_def and_pow_eq_0 or_pow_flip paired_nth paired_step cnt_Suc
            gr_def gi_def gate_re_def gate_im_def Let_def)
    qed
  qed simp_all
  then show ?thesis by simp
qed

section \<open>The circuit on a plain vector of amplitudes\<close>

definition amps :: "'d kstate \<Rightarrow> ('d \<times> 'd) list" where
  "amps st = zip (take (unat (kern_dim st)) (psi_re st)) (take (unat (kern_dim st)) (psi_im st))"

definition gate1 :: "'d fp \<Rightarrow> nat \<Rightarrow> 'd gate \<Rightarrow> ('d \<times> 'd) list \<Rightarrow> ('d \<times> 'd) list" where
  "gate1 F q g v = map (\<lambda>i. (gate_re F q g (map fst v) (map snd v) i,
                             gate_im F q g (map fst v) (map snd v) i)) [0..<length v]"

definition cnot_index :: "nat \<Rightarrow> nat \<Rightarrow> nat \<Rightarrow> nat" where
  "cnot_index c t i = (if bit i c then flip_bit t i else i)"

definition cnot1 :: "nat \<Rightarrow> nat \<Rightarrow> 'a list \<Rightarrow> 'a list" where
  "cnot1 c t v = map (\<lambda>i. v ! cnot_index c t i) [0..<length v]"

definition rotate_fwd :: "'d fp \<Rightarrow> nat \<Rightarrow> 'd list \<Rightarrow> ('d \<times> 'd) list \<Rightarrow> ('d \<times> 'd) list" where
  "rotate_fwd F n x = fold (\<lambda>q v.
     gate1 F q (rz_gate F (x ! (2 * q + 1))) (gate1 F q (ry_gate F (x ! (2 * q))) v)) [0..<n]"

definition rotate_inv :: "'d fp \<Rightarrow> nat \<Rightarrow> 'd list \<Rightarrow> ('d \<times> 'd) list \<Rightarrow> ('d \<times> 'd) list" where
  "rotate_inv F n y = fold (\<lambda>q v.
     gate1 F q (ry_gate F (fp_neg F (y ! (2 * q))))
       (gate1 F q (rz_gate F (fp_neg F (y ! (2 * q + 1)))) v)) (rev [0..<n])"

definition ring :: "nat \<Rightarrow> nat list \<Rightarrow> 'a list \<Rightarrow> 'a list" where
  "ring n qs = fold (\<lambda>q. cnot1 q (Suc q mod n)) qs"

definition circuit_fwd :: "'d fp \<Rightarrow> nat \<Rightarrow> 'd list \<Rightarrow> ('d \<times> 'd) list \<Rightarrow> ('d \<times> 'd) list" where
  "circuit_fwd F n x v = rotate_fwd F n x (ring n [0..<n] (rotate_fwd F n x v))"

definition circuit_inv :: "'d fp \<Rightarrow> nat \<Rightarrow> 'd list \<Rightarrow> ('d \<times> 'd) list \<Rightarrow> ('d \<times> 'd) list" where
  "circuit_inv F n y v = rotate_inv F n y (ring n (rev [0..<n]) (rotate_inv F n y v))"

definition basis0 :: "'d fp \<Rightarrow> nat \<Rightarrow> ('d \<times> 'd) list" where
  "basis0 F n = (fp_lit F 1, fp_lit F 0) # replicate (2 ^ n - 1) (fp_lit F 0, fp_lit F 0)"

definition overlap :: "'d fp \<Rightarrow> nat \<Rightarrow> 'd list \<Rightarrow> 'd list \<Rightarrow> nat \<Rightarrow> 'd \<times> 'd" where
  "overlap F n x y reps =
     hd (((circuit_inv F n y ^^ reps) \<circ> (circuit_fwd F n x ^^ reps)) (basis0 F n))"

definition clamp01 :: "'d fp \<Rightarrow> 'd \<Rightarrow> 'd" where
  "clamp01 F p = (let p = (if fp_lt F p (fp_lit F 0) then fp_lit F 0 else p)
                  in if fp_lt F (fp_lit F 1) p then fp_lit F 1 else p)"

text \<open>The kernel value as a function of its inputs alone.\<close>

definition fidelity_ref :: "'d fp \<Rightarrow> nat \<Rightarrow> 'd list \<Rightarrow> 'd list \<Rightarrow> nat \<Rightarrow> 'd" where
  "fidelity_ref F n x y reps =
     (let (r, i) = overlap F n x y reps in
      k_exp_unit F (clamp01 F (fp_add F (fp_mul F r r) (fp_mul F i i))))"

section \<open>The code runs the circuit\<close>

text \<open>
  \<open>krefines n m f\<close>: on every well-formed state for \<open>n\<close> qubits the operation \<open>m\<close> succeeds, keeps
  the state well-formed, touches neither the selection nor the generator nor the sizes of the
  arrays (\<open>kframe\<close>), and acts on the amplitudes as \<open>f\<close>.
\<close>

definition kframe :: "'d kstate \<Rightarrow> u32 \<times> u32 \<times> u32 \<times> nat \<times> nat \<times> nat \<times> nat" where
  "kframe st = (kern_nq st, kern_dim st, rng_state st, length (psi_re st), length (psi_im st),
     length (tmp_re st), length (tmp_im st))"

definition krefines ::
  "nat \<Rightarrow> ('d kstate \<Rightarrow> 'd kstate res) \<Rightarrow> (('d \<times> 'd) list \<Rightarrow> ('d \<times> 'd) list) \<Rightarrow> bool" where
  "krefines n m f \<longleftrightarrow> (\<forall>st. kwf n st \<longrightarrow>
     (\<exists>st'. m st = Inr st' \<and> kwf n st' \<and> kframe st' = kframe st \<and> amps st' = f (amps st)))"

lemma krefinesE:
  assumes "krefines n m f" "kwf n st"
  obtains st' where "m st = Inr st'" "kwf n st'" "kframe st' = kframe st" "amps st' = f (amps st)"
  using assms unfolding krefines_def by blast

lemma krefines_cong:
  "krefines n m f \<Longrightarrow> (\<And>st. kwf n st \<Longrightarrow> m' st = m st) \<Longrightarrow> krefines n m' f"
  unfolding krefines_def by simp

lemma krefines_comp:
  fixes m m' :: "'d kstate \<Rightarrow> 'd kstate res"
  assumes m: "krefines n m f" and m': "krefines n m' f'"
  shows "krefines n (\<lambda>st. cbind (m st) m') (\<lambda>v. f' (f v))"
  unfolding krefines_def
proof (intro allI impI)
  fix st :: "'d kstate" assume "kwf n st"
  from krefinesE [OF m this] obtain s1 where 1: "m st = Inr s1" "kwf n s1"
    "kframe s1 = kframe st"
    "amps s1 = f (amps st)" .
  from krefinesE [OF m' 1(2)] obtain s2 where "m' s1 = Inr s2" "kwf n s2"
    "kframe s2 = kframe s1"
    "amps s2 = f' (amps s1)" .
  with 1 show "\<exists>st'. cbind (m st) m' = Inr st' \<and> kwf n st' \<and> kframe st' = kframe st \<and> amps st' = f' (f (amps st))"
    by (intro exI [of _ s2]) simp
qed

lemma krefines_skip: "krefines n Inr (\<lambda>v. v)"
  by (simp add: krefines_def)

lemma krefines_cfor:
  "(\<And>i. i \<in> set is \<Longrightarrow> krefines n (m i) (f i)) \<Longrightarrow> krefines n (cfor is m) (fold f is)"
proof (induction "is")
  case Nil
  then show ?case by (simp add: krefines_def)
next
  case (Cons i "is")
  then have "krefines n (\<lambda>st. cbind (m i st) (cfor is m)) (\<lambda>v. fold f is (f i v))"
    by (intro krefines_comp) simp_all
  moreover have "cfor (i # is) m = (\<lambda>st. cbind (m i st) (cfor is m))"
    by (rule ext) simp
  ultimately show ?case by (simp add: comp_def)
qed

lemma length_amps [simp]: "kwf n st \<Longrightarrow> length (amps st) = 2 ^ n"
  by (simp add: amps_def kwf_def)

lemma amps_nth [simp]: "kwf n st \<Longrightarrow> i < 2 ^ n \<Longrightarrow> amps st ! i = (psi_re st ! i, psi_im st ! i)"
  by (simp add: amps_def kwf_def)

lemma gate1_amps:
  assumes "kwf n st" "q < n"
  shows "gate1 F q g (amps st) = map (\<lambda>i. (gate_re F q g (psi_re st) (psi_im st) i,
     gate_im F q g (psi_re st) (psi_im st) i)) [0..<2 ^ n]"
  using assms by (auto simp: gate1_def gate_re_def gate_im_def Let_def)

lemma krefines_apply_1q:
  fixes F :: "'d fp"
  assumes q: "q < n"
  shows "krefines n (apply_1q F q g) (gate1 F q g)"
  unfolding krefines_def
proof (intro allI impI)
  fix st :: "'d kstate" assume wf: "kwf n st"
  let ?gr = "gate_re F q g (psi_re st) (psi_im st)" and ?gi = "gate_im F q g (psi_re st) (psi_im st)"
  have dim: "unat (kern_dim st) = 2 ^ n" using wf by (simp add: kwf_def)
  from stash_pass [OF wf q] obtain tr ti
    where 1: "cfor [0..<2 ^ n] (stash_step (push_bit q 1)) (st, 0) =
      Inr (st\<lparr>psi_re := moved q (2 ^ n) (psi_re st), psi_im := moved q (2 ^ n) (psi_im st),
             tmp_re := tr, tmp_im := ti\<rparr>, cnt q (2 ^ n))"
    and len: "length tr = length (tmp_re st)" "length ti = length (tmp_im st)"
    and t: "stashed q (2 ^ n) (psi_re st) tr" "stashed q (2 ^ n) (psi_im st) ti" by blast
  let ?st = "st\<lparr>psi_re := gated q n (2 ^ n) ?gr (psi_re st),
      psi_im := gated q n (2 ^ n) ?gi (psi_im st), tmp_re := tr, tmp_im := ti\<rparr>"
  have "apply_1q F q g st = Inr ?st"
    using combine_pass [OF wf q len t, of F g]
    by (simp only: apply_1q_def Let_def dim 1 cbind_simps prod.case kstate.select_convs
        kstate.update_convs kstate.surjective) (simp add: dim)
  moreover have wf': "kwf n ?st" using wf len by (simp add: kwf_def)
  moreover have "amps ?st = gate1 F q g (amps st)"
    using q wf by (intro nth_equalityI) (auto simp: gate1_amps [OF wf q] amps_nth [OF wf']
        length_amps [OF wf'] kwf_def paired_nth)
  ultimately show "\<exists>st'. apply_1q F q g st = Inr st' \<and> kwf n st' \<and> kframe st' = kframe st \<and>
      amps st' = gate1 F q g (amps st)"
    by (intro exI [of _ ?st]) (simp add: kframe_def len)
qed

lemma krefines_apply_ry: "q < n \<Longrightarrow> krefines n (apply_ry F q a) (gate1 F q (ry_gate F a))"
  by (simp add: apply_ry_def krefines_apply_1q)

lemma krefines_apply_rz: "q < n \<Longrightarrow> krefines n (apply_rz F q a) (gate1 F q (rz_gate F a))"
  by (simp add: apply_rz_def krefines_apply_1q)

subsection \<open>CNOT\<close>

abbreviation cnoted :: "nat \<Rightarrow> nat \<Rightarrow> nat \<Rightarrow> 'd list \<Rightarrow> 'd list" where
  "cnoted c t k v \<equiv> paired t k (\<lambda>i. v ! cnot_index c t i) (\<lambda>i. v ! cnot_index c t (flip_bit t i)) v"

lemma cnoted_idle:
  assumes "\<not> bit k t" "\<not> bit k c" "c \<noteq> t" "k < length v" "flip_bit t k < length v"
  shows "cnoted c t (Suc k) v = cnoted c t k v"
proof (rule nth_equalityI)
  fix i assume "i < length (cnoted c t (Suc k) v)"
  moreover have "flip_bit t i = k \<Longrightarrow> i = flip_bit t k" by auto
  ultimately show "cnoted c t (Suc k) v ! i = cnoted c t k v ! i"
    using assms by (auto simp: paired_nth less_Suc_eq cnot_index_def)
qed simp

lemma cnot_step_value:
  assumes wf: "kwf n st" and c: "c < n" and t: "t < n" and ct: "c \<noteq> t" and k: "k < 2 ^ n"
  shows "cnot_step (push_bit c 1) (push_bit t 1) k
      (st\<lparr>psi_re := cnoted c t k (psi_re st), psi_im := cnoted c t k (psi_im st)\<rparr>) =
    Inr (st\<lparr>psi_re := cnoted c t (Suc k) (psi_re st), psi_im := cnoted c t (Suc k) (psi_im st)\<rparr>)"
proof (cases "bit k t")
  case True
  then show ?thesis by (simp add: cnot_step_def and_pow_eq_0 paired_skip)
next
  case False
  note b = kwf_bounds [OF wf t k False]
  show ?thesis
  proof (cases "bit k c")
    case True
    with False b ct show ?thesis
      by (simp add: cnot_step_def and_pow_eq_0 or_pow_flip paired_nth paired_step cnot_index_def Let_def)
  next
    case F: False
    then show ?thesis
      using False b ct by (simp add: cnot_step_def and_pow_eq_0 cnoted_idle)
  qed
qed

lemma krefines_cnot_pair:
  assumes c: "c < n" and t: "t < n" and ct: "c \<noteq> t"
  shows "krefines n (cnot_pair c t) (cnot1 c t)"
  unfolding krefines_def
proof (intro allI impI)
  fix st :: "'d kstate" assume wf: "kwf n st"
  let ?s = "\<lambda>k. st\<lparr>psi_re := cnoted c t k (psi_re st), psi_im := cnoted c t k (psi_im st)\<rparr>"
  have "\<exists>s. cfor [0..<2 ^ n] (cnot_step (push_bit c 1) (push_bit t 1)) (?s 0) = Inr s \<and>
      s = ?s (2 ^ n)"
    by (rule cfor_invariant [where P = "\<lambda>k s. s = ?s k"])
       (simp_all only: cnot_step_value [OF wf c t ct], simp_all)
  moreover have "unat (kern_dim st) = 2 ^ n" using wf by (simp add: kwf_def)
  ultimately have "cnot_pair c t st = Inr (?s (2 ^ n))" by (simp add: cnot_pair_def)
  moreover have wf': "kwf n (?s (2 ^ n))" using wf by (simp add: kwf_def)
  moreover have "amps (?s (2 ^ n)) = cnot1 c t (amps st)"
    using wf t by (intro nth_equalityI)
      (auto simp: cnot1_def amps_nth [OF wf'] length_amps [OF wf'] kwf_def paired_nth cnot_index_def)
  ultimately show "\<exists>st'. cnot_pair c t st = Inr st' \<and> kwf n st' \<and> kframe st' = kframe st \<and> amps st' = cnot1 c t (amps st)"
    by (intro exI [of _ "?s (2 ^ n)"]) (simp add: kframe_def)
qed

lemma Suc_mod_neq: "q < n \<Longrightarrow> 1 < n \<Longrightarrow> q \<noteq> Suc q mod n"
  by (cases "Suc q = n") auto

lemma krefines_cnot_ring:
  "krefines n (cnot_ring r) (ring n (if r then rev [0..<n] else [0..<n]))"
proof (cases "1 < n")
  case True
  have "krefines n (cfor (if r then rev [0..<n] else [0..<n]) (\<lambda>q. cnot_pair q (Suc q mod n)))
      (ring n (if r then rev [0..<n] else [0..<n]) :: ('d \<times> 'd) list \<Rightarrow> _)"
    unfolding ring_def
    by (intro krefines_cfor krefines_cnot_pair) (use True Suc_mod_neq in \<open>auto split: if_splits\<close>)
  then show ?thesis
    by (rule krefines_cong) (simp add: cnot_ring_def kwf_def Let_def)
next
  case False
  then show ?thesis by (simp add: krefines_def kwf_def)
qed

subsection \<open>Layers\<close>

lemma krefines_layer_fwd:
  fixes F :: "'d fp"
  assumes x: "2 * n \<le> length x"
  shows "krefines n (layer_fwd F x) (circuit_fwd F n x)"
proof -
  let ?rot = "cfor [0..<n] (\<lambda>q st.
     cbind (aread x (2 * q)) (\<lambda>a. cbind (apply_ry F q a st) (\<lambda>st.
     cbind (aread x (2 * q + 1)) (\<lambda>b. apply_rz F q b st))))"
  have rot: "krefines n ?rot (rotate_fwd F n x)"
    unfolding rotate_fwd_def
  proof (rule krefines_cfor)
    fix q assume "q \<in> set [0..<n]"
    then have q: "q < n" by simp
    show "krefines n (\<lambda>st. cbind (aread x (2 * q)) (\<lambda>a. cbind (apply_ry F q a st) (\<lambda>st.
       cbind (aread x (2 * q + 1)) (\<lambda>b. apply_rz F q b st))))
     (\<lambda>v. gate1 F q (rz_gate F (x ! (2 * q + 1))) (gate1 F q (ry_gate F (x ! (2 * q))) v))"
      using krefines_comp [OF krefines_apply_ry [OF q] krefines_apply_rz [OF q],
          of F "x ! (2 * q)" F "x ! (2 * q + 1)"] x q by simp
  qed
  have "krefines n (\<lambda>st. cbind (?rot st) (\<lambda>st. cbind (cnot_ring False st) ?rot)) (circuit_fwd F n x)"
    using krefines_comp [OF rot krefines_comp [OF krefines_cnot_ring [of n False] rot]]
    by (simp add: circuit_fwd_def [abs_def])
  then show ?thesis
    by (rule krefines_cong) (simp only: layer_fwd_def Let_def kwf_def)
qed

lemma krefines_layer_inv:
  fixes F :: "'d fp"
  assumes y: "2 * n \<le> length y"
  shows "krefines n (layer_inv F y) (circuit_inv F n y)"
proof -
  let ?rot = "cfor (rev [0..<n]) (\<lambda>q st.
     cbind (aread y (2 * q + 1)) (\<lambda>b. cbind (apply_rz F q (fp_neg F b) st) (\<lambda>st.
     cbind (aread y (2 * q)) (\<lambda>a. apply_ry F q (fp_neg F a) st))))"
  have rot: "krefines n ?rot (rotate_inv F n y)"
    unfolding rotate_inv_def
  proof (rule krefines_cfor)
    fix q assume "q \<in> set (rev [0..<n])"
    then have q: "q < n" by simp
    show "krefines n (\<lambda>st. cbind (aread y (2 * q + 1)) (\<lambda>b. cbind (apply_rz F q (fp_neg F b) st) (\<lambda>st.
       cbind (aread y (2 * q)) (\<lambda>a. apply_ry F q (fp_neg F a) st))))
     (\<lambda>v. gate1 F q (ry_gate F (fp_neg F (y ! (2 * q))))
        (gate1 F q (rz_gate F (fp_neg F (y ! (2 * q + 1)))) v))"
      using krefines_comp [OF krefines_apply_rz [OF q] krefines_apply_ry [OF q],
          of F "fp_neg F (y ! (2 * q + 1))" F "fp_neg F (y ! (2 * q))"] y q by simp
  qed
  have "krefines n (\<lambda>st. cbind (?rot st) (\<lambda>st. cbind (cnot_ring True st) ?rot)) (circuit_inv F n y)"
    using krefines_comp [OF rot krefines_comp [OF krefines_cnot_ring [of n True] rot]]
    by (simp add: circuit_inv_def [abs_def])
  then show ?thesis
    by (rule krefines_cong) (simp only: layer_inv_def Let_def kwf_def)
qed

subsection \<open>Kernel values\<close>

lemma reset_psi_refines:
  fixes F :: "'d fp"
  assumes wf: "kwf n st"
  shows "\<exists>st'. reset_psi F st = Inr st' \<and> kwf n st' \<and> kframe st' = kframe st \<and>
     amps st' = basis0 F n"
proof -
  let ?z = "fp_lit F 0"
  let ?s = "\<lambda>k. st\<lparr>psi_re := replicate k ?z @ drop k (psi_re st),
                  psi_im := replicate k ?z @ drop k (psi_im st)\<rparr>"
  let ?e = "(?s (2 ^ n))\<lparr>psi_re := (replicate (2 ^ n) ?z @ drop (2 ^ n) (psi_re st))[0 := fp_lit F 1]\<rparr>"
  have dim: "unat (kern_dim st) = 2 ^ n" and len: "2 ^ n \<le> length (psi_re st)" "2 ^ n \<le> length (psi_im st)"
    using wf by (simp_all add: kwf_def)
  have upd: "(replicate k ?z @ drop k v)[k := ?z] = replicate (Suc k) ?z @ drop (Suc k) v"
    if "k < length v" for k v
    using that by (simp add: list_update_append Cons_nth_drop_Suc [symmetric])
      (simp add: replicate_app_Cons_same)
  have "\<exists>s. cfor [0..<2 ^ n] (\<lambda>i st.
              cbind (awrite (psi_re st) i ?z) (\<lambda>re.
              cbind (awrite (psi_im st) i ?z) (\<lambda>im.
              Inr (st\<lparr>psi_re := re, psi_im := im\<rparr>)))) (?s 0) = Inr s \<and> s = ?s (2 ^ n)"
    by (rule cfor_invariant [where P = "\<lambda>k s. s = ?s k"]) (use len in \<open>simp_all add: upd\<close>)
  moreover have "0 < length (psi_re st)"
    using len by (meson less_le_trans zero_less_numeral zero_less_power)
  ultimately have "reset_psi F st = Inr ?e"
    using len by (simp add: reset_psi_def dim awrite_def)
  moreover have wf': "kwf n ?e" using wf by (simp add: kwf_def)
  moreover have "amps ?e = basis0 F n"
    using len by (simp add: amps_def dim take_update_swap)
      (rule nth_equalityI, auto simp: basis0_def nth_list_update nth_Cons')
  ultimately show ?thesis using len by (intro exI [of _ ?e]) (simp add: kframe_def)
qed

lemma fold_const_funpow: "fold (\<lambda>_. f) xs = f ^^ length xs"
  by (induction xs) (simp_all add: funpow_swap1 comp_def fun_eq_iff)

lemma krefines_reps: "krefines n m f \<Longrightarrow> krefines n (cfor [0..<k] (\<lambda>_. m)) (f ^^ k)"
  using krefines_cfor [of "[0..<k]" n "\<lambda>_. m" "\<lambda>_. f"] by (simp add: fold_const_funpow)

lemma hd_amps: "kwf n st \<Longrightarrow> hd (amps st) = (psi_re st ! 0, psi_im st ! 0)"
  using amps_nth [of n st 0] length_amps [of n st]
  by (simp add: hd_conv_nth flip: length_greater_0_conv)

lemma fidelity_exp_reps_ref:
  fixes F :: "'d fp"
  assumes wf: "kwf n st" and x: "2 * n \<le> length x" and y: "2 * n \<le> length y"
  shows "\<exists>st'. fidelity_exp_reps F x y reps st = Inr (fidelity_ref F n x y (unat reps), st') \<and>
     kwf n st' \<and> kframe st' = kframe st \<and>
     amps st' = (circuit_inv F n y ^^ unat reps) ((circuit_fwd F n x ^^ unat reps) (basis0 F n))"
proof -
  from reset_psi_refines [OF wf] obtain s0 where 0: "reset_psi F st = Inr s0" "kwf n s0"
    "kframe s0 = kframe st" "amps s0 = basis0 F n" by blast
  have "krefines n (\<lambda>st. cbind (cfor [0..<unat reps] (\<lambda>_. layer_fwd F x) st)
      (cfor [0..<unat reps] (\<lambda>_. layer_inv F y)))
     (\<lambda>v. (circuit_inv F n y ^^ unat reps) ((circuit_fwd F n x ^^ unat reps) v))"
    by (intro krefines_comp krefines_reps krefines_layer_fwd krefines_layer_inv x y)
  from krefinesE [OF this 0(2)] obtain s2 where
    2: "cbind (cfor [0..<unat reps] (\<lambda>_. layer_fwd F x) s0) (cfor [0..<unat reps] (\<lambda>_. layer_inv F y)) = Inr s2"
    "kwf n s2" "kframe s2 = kframe s0"
    "amps s2 = (circuit_inv F n y ^^ unat reps) ((circuit_fwd F n x ^^ unat reps) (amps s0))" .
  have ov: "overlap F n x y (unat reps) = (psi_re s2 ! 0, psi_im s2 ! 0)"
    using hd_amps [OF 2(2)] by (simp add: overlap_def 2(4) 0(4))
  from 2(2) have "0 < length (psi_re s2)" "0 < length (psi_im s2)"
    unfolding kwf_def by (metis less_le_trans zero_less_numeral zero_less_power)+
  moreover from 2(1) obtain s1 where "cfor [0..<unat reps] (\<lambda>_. layer_fwd F x) s0 = Inr s1"
    "cfor [0..<unat reps] (\<lambda>_. layer_inv F y) s1 = Inr s2" by (auto simp: cbind_Inr_iff)
  ultimately have "fidelity_exp_reps F x y reps st = Inr (fidelity_ref F n x y (unat reps), s2)"
    by (simp add: fidelity_exp_reps_def 0(1) fidelity_ref_def ov clamp01_def Let_def)
  with 0 2 show ?thesis by auto
qed

section \<open>Kernel blocks\<close>

text \<open>The arrays as declared, whatever their contents and whatever qubit count was selected last.\<close>

definition kstore :: "'d kstate \<Rightarrow> bool" where
  "kstore st \<longleftrightarrow> length (psi_re st) = 2 ^ 16 \<and> length (psi_im st) = 2 ^ 16 \<and>
     length (tmp_re st) = 2 ^ 15 \<and> length (tmp_im st) = 2 ^ 15"

lemma kstore_frame: "kstore st \<Longrightarrow> kframe st' = kframe (kernel_select nq st) \<Longrightarrow> kstore st'"
  by (simp add: kstore_def kframe_def kernel_select_def)

lemma kernel_select_wf:
  assumes "kstore st" and "nq = 8 \<or> nq = 16"
  shows "kwf (unat nq) (kernel_select nq st)"
  using assms by (auto simp: kwf_def kstore_def kernel_select_def)

definition feat :: "'d fp \<Rightarrow> u32 list \<Rightarrow> nat \<Rightarrow> nat \<Rightarrow> 'd list" where
  "feat F v n i = map (fp_of_f32 F) (take n (drop (i * n) v))"

lemma load_feat_value:
  assumes "n \<le> length v"
  shows "load_feat F v n = Inr (map (fp_of_f32 F) (take n v))"
proof -
  have "\<exists>t. load_feat F v n = Inr t \<and> t = map (fp_of_f32 F) (take n v)"
    unfolding load_feat_def
    by (rule cfor_invariant [where P = "\<lambda>k t. t = map (fp_of_f32 F) (take k v)"])
       (use assms in \<open>simp_all add: take_Suc_conv_app_nth\<close>)
  then show ?thesis by simp
qed

definition block_entry :: "'d fp \<Rightarrow> nat \<Rightarrow> u32 list \<Rightarrow> nat \<Rightarrow> u32 list \<Rightarrow> nat \<Rightarrow> nat \<Rightarrow> u32" where
  "block_entry F nq ref n_ref query reps p =
     fp_to_f32 F (fidelity_ref F nq (feat F query (2 * nq) (p div n_ref))
       (feat F ref (2 * nq) (p mod n_ref)) reps)"

lemma append_drop_update:
  "p < length u \<Longrightarrow> (map f [0..<p] @ drop p u)[p := f p] = map f [0..<Suc p] @ drop (Suc p) u"
  by (simp add: list_update_append Cons_nth_drop_Suc [symmetric])

lemma block_inner:
  fixes F :: "'d fp" and reps :: u32
  assumes wf: "kwf nq st" and ref: "nr * (2 * nq) \<le> length ref"
    and query: "Suc q * (2 * nq) \<le> length query" and out: "Suc q * nr \<le> length u"
  defines "f \<equiv> block_entry F nq ref nr query (unat reps)"
  shows "\<exists>st'. cfor [0..<nr] (\<lambda>r (out_k, st).
       cbind (load_feat F (drop (r * (2 * nq)) ref) (2 * nq)) (\<lambda>rv.
       cbind (fidelity_exp_reps F (feat F query (2 * nq) q) rv reps st) (\<lambda>(k, st).
       cbind (awrite out_k (q * nr + r) (fp_to_f32 F k)) (\<lambda>out_k. Inr (out_k, st)))))
      (map f [0..<q * nr] @ drop (q * nr) u, st) =
     Inr (map f [0..<Suc q * nr] @ drop (Suc q * nr) u, st') \<and> kwf nq st' \<and> kframe st' = kframe st"
proof -
  let ?P = "\<lambda>r s. \<exists>st'. s = (map f [0..<q * nr + r] @ drop (q * nr + r) u, st') \<and> kwf nq st' \<and>
      kframe st' = kframe st"
  have row: "Suc r * (2 * nq) \<le> nr * (2 * nq)" if "r < nr" for r
    using that by (intro mult_le_mono1) simp
  have "\<exists>s. cfor [0..<nr] (\<lambda>r (out_k, st).
       cbind (load_feat F (drop (r * (2 * nq)) ref) (2 * nq)) (\<lambda>rv.
       cbind (fidelity_exp_reps F (feat F query (2 * nq) q) rv reps st) (\<lambda>(k, st).
       cbind (awrite out_k (q * nr + r) (fp_to_f32 F k)) (\<lambda>out_k. Inr (out_k, st)))))
      (map f [0..<q * nr] @ drop (q * nr) u, st) = Inr s \<and> ?P nr s"
  proof (rule cfor_invariant [where P = ?P], goal_cases)
    case (3 r s)
    then obtain st1 where s: "s = (map f [0..<q * nr + r] @ drop (q * nr + r) u, st1)"
      and wf1: "kwf nq st1" and fr: "kframe st1 = kframe st" by blast
    from 3 have r: "r < nr" by simp
    have load: "load_feat F (drop (r * (2 * nq)) ref) (2 * nq) = Inr (feat F ref (2 * nq) r)"
      using row [OF r] ref by (subst load_feat_value) (simp_all add: feat_def)
    have "2 * nq \<le> length (feat F query (2 * nq) q)" "2 * nq \<le> length (feat F ref (2 * nq) r)"
      using row [OF r] ref query by (simp_all add: feat_def)
    from fidelity_exp_reps_ref [OF wf1 this, of F reps] obtain st2 where
      k: "fidelity_exp_reps F (feat F query (2 * nq) q) (feat F ref (2 * nq) r) reps st1 =
        Inr (fidelity_ref F nq (feat F query (2 * nq) q) (feat F ref (2 * nq) r) (unat reps), st2)"
      and 2: "kwf nq st2" "kframe st2 = kframe st1" by blast
    have f: "fp_to_f32 F (fidelity_ref F nq (feat F query (2 * nq) q) (feat F ref (2 * nq) r) (unat reps))
        = f (q * nr + r)"
      using r by (simp add: f_def block_entry_def)
    have "q * nr + r < length u" using r out by simp
    then show ?case
      using 2 fr by (simp add: s load k f append_drop_update del: upt_Suc)
  qed (use wf in auto)
  then show ?thesis by (auto simp: add.commute)
qed

lemma kernel_block_loops:
  fixes F :: "'d fp" and reps :: u32
  assumes wf: "kwf nq st" and ref: "nr * (2 * nq) \<le> length ref"
    and query: "nqu * (2 * nq) \<le> length query" and out: "nqu * nr \<le> length u"
  defines "f \<equiv> block_entry F nq ref nr query (unat reps)"
  shows "\<exists>st'. cfor [0..<nqu] (\<lambda>q (out_k, st).
      cbind (load_feat F (drop (q * (2 * nq)) query) (2 * nq)) (\<lambda>qv.
      cfor [0..<nr] (\<lambda>r (out_k, st).
       cbind (load_feat F (drop (r * (2 * nq)) ref) (2 * nq)) (\<lambda>rv.
       cbind (fidelity_exp_reps F qv rv reps st) (\<lambda>(k, st).
       cbind (awrite out_k (q * nr + r) (fp_to_f32 F k)) (\<lambda>out_k. Inr (out_k, st)))))
      (out_k, st))) (u, st) =
     Inr (map f [0..<nqu * nr] @ drop (nqu * nr) u, st') \<and> kwf nq st' \<and> kframe st' = kframe st"
    (is "\<exists>st'. cfor _ ?body _ = _ \<and> _ \<and> _")
proof -
  let ?P = "\<lambda>q s. \<exists>st'. s = (map f [0..<q * nr] @ drop (q * nr) u, st') \<and> kwf nq st' \<and>
      kframe st' = kframe st"
  have "\<exists>s. cfor [0..<nqu] ?body (u, st) = Inr s \<and> ?P nqu s"
  proof (rule cfor_invariant [where P = ?P], goal_cases)
    case (3 q s)
    then obtain st1 where s: "s = (map f [0..<q * nr] @ drop (q * nr) u, st1)"
      and wf1: "kwf nq st1" and fr: "kframe st1 = kframe st" by blast
    from 3 have "Suc q * (2 * nq) \<le> nqu * (2 * nq)" "Suc q * nr \<le> nqu * nr"
      by (intro mult_le_mono1; simp)+
    with query out have b: "Suc q * (2 * nq) \<le> length query" "Suc q * nr \<le> length u"
      by linarith+
    have load: "load_feat F (drop (q * (2 * nq)) query) (2 * nq) = Inr (feat F query (2 * nq) q)"
      using b by (subst load_feat_value) (simp_all add: feat_def)
    from block_inner [OF wf1 ref b, of F reps] obtain st2 where
      "?body q s = Inr (map f [0..<Suc q * nr] @ drop (Suc q * nr) u, st2)"
      "kwf nq st2" "kframe st2 = kframe st1"
      by (auto simp: s load f_def simp del: upt_Suc mult_Suc)
    then show ?case using fr by auto
  qed (use wf in auto)
  then show ?thesis by auto
qed

section \<open>Steps that undo each other up to a factor\<close>

text \<open>
  The inverse circuit walks the steps of the forward one backwards. When each step undoes its
  counterpart up to a scalar, the whole walk does, up to the product of the scalars.
\<close>

locale undo_steps =
  fixes space :: "'v \<Rightarrow> bool"
    and scale :: "real \<Rightarrow> 'v \<Rightarrow> 'v"
    and qs :: "nat set"
    and fwd :: "nat \<Rightarrow> 'v \<Rightarrow> 'v"
    and inv :: "nat \<Rightarrow> 'v \<Rightarrow> 'v"
    and factor :: "nat \<Rightarrow> real"
  assumes fwd_space: "q \<in> qs \<Longrightarrow> space v \<Longrightarrow> space (fwd q v)"
    and undo: "q \<in> qs \<Longrightarrow> space v \<Longrightarrow> inv q (fwd q v) = scale (factor q) v"
    and inv_scale: "q \<in> qs \<Longrightarrow> space v \<Longrightarrow> inv q (scale s v) = scale s (inv q v)"
    and scale_mult: "scale s (scale t v) = scale (s * t) v"
    and scale_one: "scale 1 v = v"
begin

lemma fold_space: "set xs \<subseteq> qs \<Longrightarrow> space v \<Longrightarrow> space (fold fwd xs v)"
  by (induction xs arbitrary: v) (simp_all add: fwd_space)

lemma fold_undo:
  "set xs \<subseteq> qs \<Longrightarrow> space v \<Longrightarrow>
     fold inv (rev xs) (fold fwd xs v) = scale (prod_list (map factor xs)) v"
proof (induction xs arbitrary: v)
  case Nil
  then show ?case by (simp add: scale_one)
next
  case (Cons q xs)
  then show ?case
    by (simp add: fwd_space inv_scale undo scale_mult mult.commute)
qed

end

section \<open>Exact arithmetic\<close>

definition real_fp :: "(u32 \<Rightarrow> real) \<Rightarrow> (real \<Rightarrow> u32) \<Rightarrow> (real \<Rightarrow> u64) \<Rightarrow> real fp" where
  "real_fp of32 to32 to64 = \<lparr>fp_lit = (\<lambda>r. r), fp_add = (+), fp_sub = (-), fp_mul = (*), fp_div = (/),
     fp_neg = uminus, fp_lt = (<), fp_of_u32 = (\<lambda>w. real (unat w)), fp_of_f32 = of32,
     fp_to_f32 = to32, fp_to_i64 = to64\<rparr>"

lemma real_fp_simps [simp]:
  "fp_lit (real_fp a b c) r = r" "fp_add (real_fp a b c) x y = x + y"
  "fp_sub (real_fp a b c) x y = x - y" "fp_mul (real_fp a b c) x y = x * y"
  "fp_div (real_fp a b c) x y = x / y" "fp_neg (real_fp a b c) x = - x"
  "fp_lt (real_fp a b c) x y \<longleftrightarrow> x < y"
  by (simp_all add: real_fp_def)

lemma k_sin_odd: "k_sin (real_fp a b c) (- x) = - k_sin (real_fp a b c) x"
  by (cases "x < 0"; cases "x = 0") (simp_all add: k_sin_def Let_def QAI_PI_def)

lemma k_cos_even: "k_cos (real_fp a b c) (- x) = k_cos (real_fp a b c) x"
  by (cases "x < 0"; cases "x = 0") (simp_all add: k_cos_def Let_def QAI_PI_def)

definition scale :: "real \<Rightarrow> (real \<times> real) list \<Rightarrow> (real \<times> real) list" where
  "scale s v = map (\<lambda>(r, i). (s * r, s * i)) v"

lemma length_scale [simp]: "length (scale s v) = length v"
  by (simp add: scale_def)

lemma scale_nth: "i < length v \<Longrightarrow> scale s v ! i = (s * fst (v ! i), s * snd (v ! i))"
  by (simp add: scale_def split_beta)

lemma scale_scale: "scale s (scale t v) = scale (s * t) v"
  by (simp add: scale_def split_beta mult.assoc)

lemma scale_1: "scale 1 v = v"
  by (simp add: scale_def)

lemma length_gate1 [simp]: "length (gate1 F q g v) = length v"
  by (simp add: gate1_def)

lemma gate1_nth: "i < length v \<Longrightarrow> gate1 F q g v ! i =
   (gate_re F q g (map fst v) (map snd v) i, gate_im F q g (map fst v) (map snd v) i)"
  by (simp add: gate1_def)

lemmas gate_eval = gate1_nth gate_re_def gate_im_def lin_re_def lin_im_def Let_def

lemma gate1_scale:
  assumes "length v = 2 ^ n" "q < n"
  shows "gate1 (real_fp a b c) q g (scale s v) = scale s (gate1 (real_fp a b c) q g v)"
  by (rule nth_equalityI) (use assms in \<open>auto simp: gate_eval scale_nth algebra_simps\<close>)

text \<open>The squared length a polynomial sine and cosine give a unit vector, one for exact ones.\<close>

definition unit_defect :: "real fp \<Rightarrow> real \<Rightarrow> real" where
  "unit_defect F a = (k_cos F (a * 0.5))\<^sup>2 + (k_sin F (a * 0.5))\<^sup>2"

lemma ry_undo:
  assumes "length v = 2 ^ n" "q < n" and F: "F = real_fp a b c"
  shows "gate1 F q (ry_gate F (- t)) (gate1 F q (ry_gate F t) v) = scale (unit_defect F t) v"
proof -
  have "(- t) * 0.5 = - (t * 0.5)" by simp
  then have "k_cos F ((- t) * 0.5) = k_cos F (t * 0.5)" "k_sin F ((- t) * 0.5) = - k_sin F (t * 0.5)"
    unfolding F by (simp_all only: k_cos_even k_sin_odd)
  then show ?thesis
    by (intro nth_equalityI)
       (use assms in \<open>auto simp: gate_eval scale_nth ry_gate_def unit_defect_def
          power2_eq_square algebra_simps\<close>)
qed

lemma rz_undo:
  assumes "length v = 2 ^ n" "q < n" and F: "F = real_fp a b c"
  shows "gate1 F q (rz_gate F (- t)) (gate1 F q (rz_gate F t) v) = scale (unit_defect F t) v"
proof -
  have "(- t) * 0.5 = - (t * 0.5)" by simp
  then have "k_cos F ((- t) * 0.5) = k_cos F (t * 0.5)" "k_sin F ((- t) * 0.5) = - k_sin F (t * 0.5)"
    unfolding F by (simp_all only: k_cos_even k_sin_odd)
  then show ?thesis
    by (intro nth_equalityI)
       (use assms in \<open>auto simp: gate_eval scale_nth rz_gate_def unit_defect_def
          power2_eq_square algebra_simps\<close>)
qed

lemma length_cnot1 [simp]: "length (cnot1 c t v) = length v"
  by (simp add: cnot1_def)

lemma cnot1_undo:
  assumes "length v = 2 ^ n" "t < n" "c \<noteq> t"
  shows "cnot1 c t (cnot1 c t v) = v"
  by (rule nth_equalityI) (use assms in \<open>auto simp: cnot1_def cnot_index_def\<close>)

lemma cnot1_scale:
  assumes "length v = 2 ^ n" "t < n"
  shows "cnot1 c t (scale s v) = scale s (cnot1 c t v)"
  by (rule nth_equalityI) (use assms in \<open>auto simp: cnot1_def cnot_index_def scale_nth\<close>)

interpretation rotation: undo_steps "\<lambda>v. length v = 2 ^ n" scale "{..<n}"
  "\<lambda>q v. gate1 (real_fp a b c) q (rz_gate (real_fp a b c) (x ! (2 * q + 1)))
           (gate1 (real_fp a b c) q (ry_gate (real_fp a b c) (x ! (2 * q))) v)"
  "\<lambda>q v. gate1 (real_fp a b c) q (ry_gate (real_fp a b c) (- (x ! (2 * q))))
           (gate1 (real_fp a b c) q (rz_gate (real_fp a b c) (- (x ! (2 * q + 1)))) v)"
  "\<lambda>q. unit_defect (real_fp a b c) (x ! (2 * q)) * unit_defect (real_fp a b c) (x ! (2 * q + 1))"
  for n a b c x
  by unfold_locales
    (simp_all add: ry_undo rz_undo gate1_scale scale_scale scale_1 mult.commute)

interpretation cnots: undo_steps "\<lambda>v. length v = 2 ^ n \<and> 1 < n" scale "{..<n}"
  "\<lambda>q. cnot1 q (Suc q mod n)" "\<lambda>q. cnot1 q (Suc q mod n)" "\<lambda>_. 1"
  for n
  by unfold_locales
    (use Suc_mod_neq in \<open>auto simp: cnot1_undo cnot1_scale scale_scale scale_1\<close>)

definition self_factor :: "real fp \<Rightarrow> nat \<Rightarrow> real list \<Rightarrow> real" where
  "self_factor F n x =
     prod_list (map (\<lambda>q. unit_defect F (x ! (2 * q)) * unit_defect F (x ! (2 * q + 1))) [0..<n])"

lemma rotation_undo:
  assumes "length v = 2 ^ n" and F: "F = real_fp a b c"
  shows "rotate_inv F n x (rotate_fwd F n x v) = scale (self_factor F n x) v"
    and "length (rotate_fwd F n x v) = 2 ^ n"
  using rotation.fold_undo [of "[0..<n]" n v] rotation.fold_space [of "[0..<n]" n v] assms
  by (auto simp: rotate_inv_def rotate_fwd_def self_factor_def lessThan_atLeast0)

lemma ring_undo:
  assumes "length v = 2 ^ n" "1 < n"
  shows "ring n (rev [0..<n]) (ring n [0..<n] v) = (v :: (real \<times> real) list)"
    and "length (ring n [0..<n] v) = 2 ^ n"
  using cnots.fold_undo [of "[0..<n]" n v] cnots.fold_space [of "[0..<n]" n v] assms
  by (auto simp: ring_def lessThan_atLeast0 map_replicate_const scale_1)

lemma fold_scale:
  assumes "\<And>q v. q \<in> set qs \<Longrightarrow> length v = L \<Longrightarrow> length (f q v) = L \<and> f q (scale s v) = scale s (f q v)"
    and "length v = L"
  shows "fold f qs (scale s v) = scale s (fold f qs v)" "length (fold f qs v) = L"
  using assms by (induction qs arbitrary: v) simp_all

lemma rotate_inv_scale:
  assumes "length v = 2 ^ n" and F: "F = real_fp a b c"
  shows "rotate_inv F n x (scale s v) = scale s (rotate_inv F n x v)"
    and "length (rotate_inv F n x v) = 2 ^ n"
  using assms unfolding rotate_inv_def F
  by (intro fold_scale [where L = "2 ^ n"]; simp add: gate1_scale)+

lemma ring_scale:
  assumes "length v = 2 ^ n" "1 < n"
  shows "ring n (rev [0..<n]) (scale s v) = scale s (ring n (rev [0..<n]) v)"
    and "length (ring n (rev [0..<n]) v) = 2 ^ n"
  using assms unfolding ring_def
  by (intro fold_scale [where L = "2 ^ n"]; simp add: cnot1_scale)+

interpretation circuits: undo_steps "\<lambda>v. length v = 2 ^ n \<and> 1 < n" scale UNIV
  "\<lambda>_. circuit_fwd (real_fp a b c) n x" "\<lambda>_. circuit_inv (real_fp a b c) n x"
  "\<lambda>_. (self_factor (real_fp a b c) n x)\<^sup>2"
  for n a b c x
  by unfold_locales
    (auto simp: circuit_fwd_def circuit_inv_def rotation_undo ring_undo rotate_inv_scale ring_scale
      scale_scale scale_1 power2_eq_square)

lemma self_circuit:
  assumes "1 < n" and F: "F = real_fp a b c"
  shows "(circuit_inv F n x ^^ reps) ((circuit_fwd F n x ^^ reps) (basis0 F n)) =
      (self_factor F n x ^ (2 * reps), 0) # replicate (2 ^ n - 1) (0, 0)"
proof -
  have "(circuit_inv F n x ^^ reps) ((circuit_fwd F n x ^^ reps) (basis0 F n)) =
      scale (self_factor F n x ^ (2 * reps)) (basis0 F n)"
    using circuits.fold_undo [of "replicate reps 0" "basis0 F n" n] assms
    by (simp add: fold_const_funpow basis0_def prod_list_replicate power_mult)
  then show ?thesis by (simp add: F basis0_def scale_def)
qed

lemma self_overlap:
  assumes "1 < n" and F: "F = real_fp a b c"
  shows "overlap F n x x reps = (self_factor F n x ^ (2 * reps), 0)"
  by (simp add: overlap_def self_circuit [OF assms])

lemma clamp01_square: "clamp01 (real_fp a b c) (p * p) = min 1 (p * p)"
  by (auto simp: clamp01_def Let_def min_def not_less)

lemma fidelity_ref_self:
  assumes "1 < n" and F: "F = real_fp a b c"
  shows "fidelity_ref F n x x reps = k_exp_unit F (min 1 (self_factor F n x ^ (4 * reps)))"
proof -
  have "(p ^ (2 * reps)) * (p ^ (2 * reps)) = p ^ (4 * reps)" for p :: real
    by (simp flip: power_add)
  then show ?thesis
    using clamp01_square [of a b c "self_factor F n x ^ (2 * reps)"]
    by (simp add: fidelity_ref_def self_overlap [OF assms(1) refl] F)
qed

section \<open>Properties\<close>

text \<open>Claim C25: the in-place gate of \<open>apply_1q\<close>, which moves the upper amplitude of each pair down,
  keeps the lower one in the half-size scratch arrays and then writes both, accesses its arrays
  in bounds and leaves the amplitudes of the textbook gate computed from the old vector, for
  every qubit, matrix and arithmetic.\<close>

theorem apply_1q_reference:
  assumes "kwf n st" and "q < n"
  shows "\<exists>st'. apply_1q F q g st = Inr st' \<and> amps st' = gate1 F q g (amps st) \<and>
    kwf n st' \<and> kframe st' = kframe st"
  using krefinesE [OF krefines_apply_1q [OF assms(2)] assms(1), of F g] by metis

definition int_fp :: "int fp" where
  "int_fp = \<lparr>fp_lit = floor, fp_add = (+), fp_sub = (-), fp_mul = (*), fp_div = (div),
     fp_neg = uminus, fp_lt = (<), fp_of_u32 = uint, fp_of_f32 = sint,
     fp_to_f32 = word_of_int, fp_to_i64 = word_of_int\<rparr>"

definition not_gate :: "int gate" where
  "not_gate = \<lparr>g00r = 0, g00i = 0, g01r = 1, g01i = 0, g10r = 1, g10i = 0, g11r = 0, g11i = 0\<rparr>"

definition two_qubits :: "int kstate" where
  "two_qubits = \<lparr>psi_re = [1, 2, 3, 4], psi_im = [5, 6, 7, 8], tmp_re = [0, 0], tmp_im = [0, 0],
     kern_nq = 2, kern_dim = 4, rng_state = 0\<rparr>"

theorem apply_1q_reference_witness:
  "\<exists>st'. apply_1q int_fp 1 not_gate two_qubits = Inr st' \<and>
     amps st' = [(3, 7), (4, 8), (1, 5), (2, 6)]"
proof -
  have "kwf 2 two_qubits" by (simp add: kwf_def two_qubits_def)
  moreover have "gate1 int_fp 1 not_gate (amps two_qubits) = [(3, 7), (4, 8), (1, 5), (2, 6)]"
    by code_simp
  ultimately show ?thesis
    using apply_1q_reference [of 2 two_qubits 1 int_fp not_gate] by auto
qed

text \<open>Claim C23: the kernel value is a function of the two feature vectors, the qubit count and the
  repetitions alone: whatever an earlier call left in the state vector, the scratch arrays and
  the generator, \<open>fidelity_exp_reps\<close> returns the value of the circuit run on a fresh vector, and
  it never accesses its arrays out of bounds.\<close>

theorem fidelity_exp_reps_state_independent:
  assumes "kstore st" and "nq = 8 \<or> nq = 16"
    and "2 * unat nq \<le> length x" and "2 * unat nq \<le> length y"
  shows "\<exists>st'. fidelity_exp_reps F x y reps (kernel_select nq st) =
      Inr (fidelity_ref F (unat nq) x y (unat reps), st') \<and> kstore st'"
  using fidelity_exp_reps_ref [OF kernel_select_wf [OF assms(1,2)] assms(3,4), of F reps]
    kstore_frame [OF assms(1)] by blast

definition used_store :: "int kstate" where
  "used_store = \<lparr>psi_re = replicate 65536 7, psi_im = replicate 65536 9, tmp_re = replicate 32768 3,
     tmp_im = replicate 32768 1, kern_nq = 16, kern_dim = 65536, rng_state = 5\<rparr>"

lemma kstore_used: "kstore used_store"
  by (simp add: kstore_def used_store_def)

theorem fidelity_exp_reps_state_independent_witness:
  "\<exists>st'. fidelity_exp_reps int_fp (replicate 16 1) (replicate 16 2) 3 (kernel_select 8 used_store) =
      Inr (fidelity_ref int_fp 8 (replicate 16 1) (replicate 16 2) 3, st') \<and> kstore st'"
  using fidelity_exp_reps_state_independent
    [OF kstore_used, of 8 "replicate 16 1" "replicate 16 2" int_fp 3]
  by simp

text \<open>For a block the interface accepts, \<open>qai_fidelity_kernel_block\<close> succeeds, fills the output in query-major order with the kernel values of all pairs, writes nothing behind them,
  and reports the elapsed time.\<close>

lemma kernel_block_correct:
  assumes "kstore st" "nq = 8 \<or> nq = 16" "0 < reps" "reps \<le> QAI_REPS"
    and "0 < n_ref" "n_ref \<le> QAI_KERNEL_MAX_PAIRS" "0 < n_query" "n_query \<le> QAI_KERNEL_MAX_PAIRS"
    and "n_ref * n_query \<le> QAI_KERNEL_MAX_PAIRS"
    and "unat n_ref * (2 * unat nq) \<le> length ref" "unat n_query * (2 * unat nq) \<le> length query"
    and "unat n_query * unat n_ref \<le> length out_k"
    and "tt_millis t0 < 1000" "tt_millis t1 < 1000"
  shows "\<exists>st'. qai_fidelity_kernel_block F ref n_ref query n_query reps nq out_k el t0 t1 st =
    Inr (TEE_SUCCESS,
         map (block_entry F (unat nq) ref (unat n_ref) query (unat reps)) [0..<unat n_query * unat n_ref]
           @ drop (unat n_query * unat n_ref) out_k,
         word_of_int (total_ms t1 - total_ms t0), st') \<and> kstore st'"
proof -
  have nf: "unat (nq * 2) = 2 * unat nq" using assms(2) by auto
  from kernel_block_loops [OF kernel_select_wf [OF assms(1,2)] assms(10-12), of F reps]
  show ?thesis
    using assms kstore_frame [OF assms(1)]
    by (force simp: qai_fidelity_kernel_block_def nf Let_def delta_ms_value simp del: upt_Suc)
qed

text \<open>Claim C24: in exact arithmetic, for 8 or 16 qubits and vectors of two features per qubit or more, the kernel of a
  vector with itself depends on the polynomials for
  sine and cosine only through \<open>sin\<^sup>2 + cos\<^sup>2\<close> of its half angles: forward and inverse cancel, the
  state ends with the product of those sums, with exponent \<open>2 * reps\<close>, as its first amplitude and
  with nothing elsewhere, and the value is the exponential of the square of that amplitude, capped at one.\<close>

theorem self_fidelity_exact:
  assumes "kstore st" and "nq = 8 \<or> nq = 16" and "2 * unat nq \<le> length x"
    and F: "F = real_fp a b c"
  shows "\<exists>st'. fidelity_exp_reps F x x reps (kernel_select nq st) =
     Inr (k_exp_unit F (min 1 (self_factor F (unat nq) x ^ (4 * unat reps))), st') \<and>
     amps st' = (self_factor F (unat nq) x ^ (2 * unat reps), 0) # replicate (2 ^ unat nq - 1) (0, 0)"
proof -
  have n: "1 < unat nq" using assms(2) by auto
  show ?thesis
    using fidelity_exp_reps_ref [OF kernel_select_wf [OF assms(1,2)] assms(3,3), of F reps]
    by (auto simp: fidelity_ref_self [OF n F] self_circuit [OF n F])
qed

definition blank_store :: "real kstate" where
  "blank_store = \<lparr>psi_re = replicate 65536 0, psi_im = replicate 65536 0, tmp_re = replicate 32768 0,
     tmp_im = replicate 32768 0, kern_nq = 8, kern_dim = 256, rng_state = 240904935\<rparr>"

theorem self_fidelity_exact_witness:
  "\<exists>st'. fidelity_exp_reps (real_fp (\<lambda>_. 0) (\<lambda>_. 0) (\<lambda>_. 0)) (replicate 16 0) (replicate 16 0) 1
      (kernel_select 8 blank_store) =
     Inr (k_exp_unit (real_fp (\<lambda>_. 0) (\<lambda>_. 0) (\<lambda>_. 0)) 1, st') \<and> amps st' = (1, 0) # replicate 255 (0, 0)"
proof -
  let ?F = "real_fp (\<lambda>_. 0) (\<lambda>_. 0) (\<lambda>_. 0)"
  have "unit_defect ?F 0 = 1"
    by (simp add: unit_defect_def k_cos_def k_sin_def QAI_PI_def inv_lit_def neg_inv_lit_def Let_def)
  then have "self_factor ?F 8 (replicate 16 0) = 1"
    by (simp add: self_factor_def upt_rec)
  moreover have "kstore blank_store" by (simp add: kstore_def blank_store_def)
  ultimately show ?thesis
    using self_fidelity_exact [of blank_store 8 "replicate 16 0" ?F "\<lambda>_. 0" "\<lambda>_. 0" "\<lambda>_. 0" 1]
    by simp
qed

end
