(* ===== verification/Qai_TA.thy ===== *)
theory Qai_TA
  imports Qai_Fidelity
begin

text \<open>
  The trusted application of \<open>ta/qai_ta.c\<close>: its entry points, the checks on parameter types and
  buffer sizes, and the commands that copy structures out of and into the caller's memory
  references. Buffers are byte lists; an access past a buffer, or to the wrong member of the
  parameter union, is a fault.

  A memory reference is taken to be stable during a command and the two references of a
  command not to overlap; the state vector of the fidelity kernel persists between commands.
\<close>

section \<open>Parameters\<close>

datatype tee_param =
    P_none
  | P_value u32 u32
  | P_memref (p_buffer: "u8 list") (p_size: u64)

abbreviation (input) TEE_PARAM_TYPE_NONE :: u32 where "TEE_PARAM_TYPE_NONE \<equiv> 0"
abbreviation (input) TEE_PARAM_TYPE_VALUE_INPUT :: u32 where "TEE_PARAM_TYPE_VALUE_INPUT \<equiv> 1"
abbreviation (input) TEE_PARAM_TYPE_MEMREF_INPUT :: u32 where "TEE_PARAM_TYPE_MEMREF_INPUT \<equiv> 5"
abbreviation (input) TEE_PARAM_TYPE_MEMREF_OUTPUT :: u32 where "TEE_PARAM_TYPE_MEMREF_OUTPUT \<equiv> 6"

definition TEE_PARAM_TYPES :: "u32 \<Rightarrow> u32 \<Rightarrow> u32 \<Rightarrow> u32 \<Rightarrow> u32" where
  "TEE_PARAM_TYPES t0 t1 t2 t3 = t0 OR push_bit 4 t1 OR push_bit 8 t2 OR push_bit 12 t3"

definition TEE_PARAM_TYPE_GET :: "u32 \<Rightarrow> nat \<Rightarrow> u32" where
  "TEE_PARAM_TYPE_GET t i = drop_bit (i * 4) t AND 0xF"

text \<open>
  What the framework guarantees of the four parameters: each union holds the member its type
  announces, and a memory reference of \<open>size\<close> bytes is backed by that many bytes.
\<close>

fun param_ok :: "u32 \<Rightarrow> tee_param \<Rightarrow> bool" where
  "param_ok t P_none \<longleftrightarrow> t = 0"
| "param_ok t (P_value a b) \<longleftrightarrow> t \<in> {1, 2, 3}"
| "param_ok t (P_memref buf sz) \<longleftrightarrow> t \<in> {5, 6, 7} \<and> length buf = unat sz"

definition params_conform :: "u32 \<Rightarrow> tee_param list \<Rightarrow> bool" where
  "params_conform types params \<longleftrightarrow> length params = 4 \<and>
     (\<forall>i\<in>set [0..<4]. param_ok (TEE_PARAM_TYPE_GET types i) (params ! i))"

definition memref_of :: "tee_param list \<Rightarrow> nat \<Rightarrow> (u8 list \<times> u64) res" where
  "memref_of params i =
     cbind (aread params i) (\<lambda>p.
     case p of P_memref buf sz \<Rightarrow> Inr (buf, sz) | _ \<Rightarrow> Inl Bad_union)"

definition value_a_of :: "tee_param list \<Rightarrow> nat \<Rightarrow> u32 res" where
  "value_a_of params i =
     cbind (aread params i) (\<lambda>p. case p of P_value a b \<Rightarrow> Inr a | _ \<Rightarrow> Inl Bad_union)"

section \<open>Environment of a command\<close>

text \<open>
  The clock readings before and after the timed loop, and what the stack held where the
  command places its uninitialised prediction array.
\<close>

record ta_env =
  te_t0 :: TEE_Time
  te_t1 :: TEE_Time
  te_pred :: "u8 list"

section \<open>Entry points without commands\<close>

definition TA_CreateEntryPoint :: u32 where
  "TA_CreateEntryPoint = TEE_SUCCESS"

definition TA_OpenSessionEntryPoint :: "u32 \<Rightarrow> u32" where
  "TA_OpenSessionEntryPoint param_types =
     (if param_types \<noteq> TEE_PARAM_TYPES TEE_PARAM_TYPE_NONE TEE_PARAM_TYPE_NONE
           TEE_PARAM_TYPE_NONE TEE_PARAM_TYPE_NONE
      then TEE_ERROR_BAD_PARAMETERS else TEE_SUCCESS)"

section \<open>Plain inference\<close>

definition copy_input :: "tee_param list \<Rightarrow> (u32 \<times> qai_input option) res" where
  "copy_input params =
     cbind (memref_of params 0) (\<lambda>(buf, sz).
     if unat sz < sizeof_qai_input then Inr (TEE_ERROR_BAD_PARAMETERS, None)
     else cbind (mem_read buf 0 sizeof_qai_input) (\<lambda>bs.
       let qin = dec_qai_input bs in
       if qi_num_features qin = 0 \<or> qi_num_features qin > QAI_MAX_FEATURES
       then Inr (TEE_ERROR_BAD_PARAMETERS, None)
       else Inr (TEE_SUCCESS, Some qin)))"

definition write_output :: "tee_param list \<Rightarrow> qai_output \<Rightarrow> (u32 \<times> tee_param list) res" where
  "write_output params out =
     cbind (memref_of params 1) (\<lambda>(buf, sz).
     if unat sz < sizeof_qai_output then Inr (TEE_ERROR_SHORT_BUFFER, params)
     else cbind (mem_write buf 0 (enc_qai_output out)) (\<lambda>buf.
       Inr (TEE_SUCCESS, params[1 := P_memref buf (of_nat sizeof_qai_output)])))"

text \<open>The switch over the model identifiers; no result for an identifier it does not know.\<close>

definition infer_switch :: "u32 \<Rightarrow> qai_input \<Rightarrow> qai_output option res" where
  "infer_switch model_id qin =
     (let x = qi_features qin; n = qi_num_features qin in
      if model_id = QAI_MODEL_BASELINE then cbind (qai_infer_baseline x n) (\<lambda>out. Inr (Some out))
      else if model_id = QAI_MODEL_TINYML then cbind (qai_infer_tinyml x n) (\<lambda>out. Inr (Some out))
      else if model_id = QAI_MODEL_QAI then cbind (qai_infer_qai x n) (\<lambda>out. Inr (Some out))
      else Inr None)"

definition types_in_out :: u32 where
  "types_in_out = TEE_PARAM_TYPES TEE_PARAM_TYPE_MEMREF_INPUT TEE_PARAM_TYPE_MEMREF_OUTPUT
     TEE_PARAM_TYPE_NONE TEE_PARAM_TYPE_NONE"

definition cmd_infer_plain ::
  "u32 \<Rightarrow> tee_param list \<Rightarrow> u32 \<Rightarrow> (u32 \<times> tee_param list) res" where
  "cmd_infer_plain param_types params model_id =
     (if param_types \<noteq> types_in_out then Inr (TEE_ERROR_BAD_PARAMETERS, params)
      else cbind (copy_input params) (\<lambda>(res, qin).
        case qin of
          None \<Rightarrow> Inr (res, params)
        | Some qin \<Rightarrow>
            cbind (infer_switch model_id qin) (\<lambda>out.
            case out of
              None \<Rightarrow> Inr (TEE_ERROR_BAD_PARAMETERS, params)
            | Some out \<Rightarrow> write_output params out)))"

section \<open>Protected inference\<close>

text \<open>
  The two locals that hold plaintext features. The command's result carries what they hold when
  it returns, since that is what its wiping is about.
\<close>

record prot_frame =
  pf_pin :: qai_protected_input
  pf_in :: qai_input

definition zero_protected_input :: qai_protected_input where
  "zero_protected_input = \<lparr>qp_num_features = 0, qp_model_id = 0, qp_cipher = replicate 64 0\<rparr>"

definition zero_input :: qai_input where
  "zero_input = \<lparr>qi_num_features = 0, qi_features = replicate 16 0\<rparr>"

definition cmd_infer_protected ::
  "u32 \<Rightarrow> tee_param list \<Rightarrow> prot_frame \<Rightarrow> (u32 \<times> tee_param list \<times> prot_frame) res" where
  "cmd_infer_protected param_types params fr =
     (if param_types \<noteq> types_in_out then Inr (TEE_ERROR_BAD_PARAMETERS, params, fr)
      else cbind (memref_of params 0) (\<lambda>(buf, sz).
      if unat sz < sizeof_qai_protected_input then Inr (TEE_ERROR_BAD_PARAMETERS, params, fr)
      else cbind (mem_read buf 0 sizeof_qai_protected_input) (\<lambda>bs.
      let pin = dec_qai_protected_input bs; fr = fr\<lparr>pf_pin := pin\<rparr> in
      if qp_num_features pin = 0 \<or> qp_num_features pin > QAI_MAX_FEATURES
      then Inr (TEE_ERROR_BAD_PARAMETERS, params, fr)
      else
        let feat_bytes = qp_num_features pin * 4 in
        cbind (qai_xor_crypt (qp_cipher pin) feat_bytes) (\<lambda>plain.
        let pin = pin\<lparr>qp_cipher := plain\<rparr> in
        cbind (mem_read plain 0 (unat feat_bytes)) (\<lambda>moved.
        cbind (mem_write (replicate 64 0) 0 moved) (\<lambda>feats.
        let qin = \<lparr>qi_num_features = qp_num_features pin, qi_features = words_of_bytes feats\<rparr>;
            fr = fr\<lparr>pf_pin := pin, pf_in := qin\<rparr> in
        cbind (infer_switch (qp_model_id pin) qin) (\<lambda>out.
        case out of
          None \<Rightarrow> Inr (TEE_ERROR_BAD_PARAMETERS, params, fr)
        | Some out \<Rightarrow>
            let fr = fr\<lparr>pf_in := zero_input, pf_pin := zero_protected_input\<rparr> in
            cbind (write_output params out) (\<lambda>(res, params). Inr (res, params, fr)))))))))"

section \<open>Information and benchmark\<close>

definition the_info :: qai_info where
  "the_info = \<lparr>qn_ta_version = 1, qn_feature_count = QAI_FEATURE_COUNT,
     qn_baseline_param_bytes = of_nat (4 * length qai_baseline_w + 4),
     qn_tinyml_param_bytes = of_nat (4 * length qai_tinyml_w + 4),
     qn_qai_param_bytes = of_nat (4 * length qai_theta + 4 * length qai_gamma + 4),
     qn_stack_hint_bytes = 4 * 1024, qn_heap_hint_bytes = 32 * 1024\<rparr>"

definition cmd_get_info :: "u32 \<Rightarrow> tee_param list \<Rightarrow> (u32 \<times> tee_param list) res" where
  "cmd_get_info param_types params =
     (if param_types \<noteq> TEE_PARAM_TYPES TEE_PARAM_TYPE_MEMREF_OUTPUT TEE_PARAM_TYPE_NONE
           TEE_PARAM_TYPE_NONE TEE_PARAM_TYPE_NONE
      then Inr (TEE_ERROR_BAD_PARAMETERS, params)
      else cbind (memref_of params 0) (\<lambda>(buf, sz).
        if unat sz < sizeof_qai_info then Inr (TEE_ERROR_SHORT_BUFFER, params)
        else cbind (mem_write buf 0 (enc_qai_info the_info)) (\<lambda>buf.
          Inr (TEE_SUCCESS, params[0 := P_memref buf (of_nat sizeof_qai_info)]))))"

definition le64 :: "u64 \<Rightarrow> u8 list" where
  "le64 w = le32 (ucast w) @ le32 (ucast (drop_bit 32 w))"

definition enc_qai_fidelity_bench :: "qai_fidelity_bench_out \<Rightarrow> u8 list" where
  "enc_qai_fidelity_bench b =
     le32 (fb_evals b) @ le32 (fb_tee_elapsed_ms b) @ le64 (fb_self_exp_micro b) @
     le64 (fb_batch_sum_micro b)"

definition cmd_bench_fidelity ::
  "'d fp \<Rightarrow> ta_env \<Rightarrow> u32 \<Rightarrow> tee_param list \<Rightarrow> 'd kstate \<Rightarrow> (u32 \<times> tee_param list \<times> 'd kstate) res" where
  "cmd_bench_fidelity F env param_types params st =
     (if param_types \<noteq> TEE_PARAM_TYPES TEE_PARAM_TYPE_VALUE_INPUT TEE_PARAM_TYPE_MEMREF_OUTPUT
           TEE_PARAM_TYPE_NONE TEE_PARAM_TYPE_NONE
      then Inr (TEE_ERROR_BAD_PARAMETERS, params, st)
      else cbind (memref_of params 1) (\<lambda>(buf, sz).
        if unat sz < sizeof_qai_fidelity_bench then Inr (TEE_ERROR_SHORT_BUFFER, params, st)
        else cbind (value_a_of params 0) (\<lambda>evals.
        cbind (qai_fidelity_bench F evals (te_t0 env) (te_t1 env) st) (\<lambda>(res, out, st).
        case out of
          None \<Rightarrow> Inr (res, params, st)
        | Some out \<Rightarrow>
            cbind (mem_write buf 0 (enc_qai_fidelity_bench out)) (\<lambda>buf.
            Inr (TEE_SUCCESS, params[1 := P_memref buf (of_nat sizeof_qai_fidelity_bench)], st))))))"

section \<open>Blocks\<close>

text \<open>
  \<open>need_in\<close> and \<open>need_out\<close> are \<open>uint32_t\<close> and wrap; the row counts are only bounded by the
  kernels that are called after the size checks.
\<close>

definition cmd_hai_infer ::
  "ta_env \<Rightarrow> u32 \<Rightarrow> tee_param list \<Rightarrow> (u32 \<times> tee_param list) res" where
  "cmd_hai_infer env param_types params =
     (if param_types \<noteq> types_in_out then Inr (TEE_ERROR_BAD_PARAMETERS, params)
      else cbind (memref_of params 0) (\<lambda>(ibuf, isize).
      if unat isize < sizeof_qai_hai_infer_in then Inr (TEE_ERROR_BAD_PARAMETERS, params)
      else cbind (mem_read ibuf 0 sizeof_qai_hai_infer_in) (\<lambda>bs.
      let h = dec_qai_hai_infer_in bs;
          need_in = 12 + hi_n h * 16 * 4 :: u32;
          need_out = 8 + hi_n h :: u32 in
      cbind (memref_of params 1) (\<lambda>(obuf, osize).
      if isize < ucast need_in \<or> osize < ucast need_out then Inr (TEE_ERROR_SHORT_BUFFER, params)
      else
        let rows = words_of_bytes (drop sizeof_qai_hai_infer_in ibuf) in
        cbind (qai_hai_infer (hi_model h) rows (hi_n h) (if hi_reps h \<noteq> 0 then hi_reps h else 1)
                 (te_pred env) 0 (te_t0 env) (te_t1 env)) (\<lambda>(res, pred, ms).
        if res \<noteq> TEE_SUCCESS then Inr (res, params)
        else
          cbind (mem_write obuf 0
                   (enc_qai_hai_infer_out \<lparr>ho_tee_elapsed_ms = ms, ho_n = hi_n h\<rparr>)) (\<lambda>obuf.
          cbind (mem_read pred 0 (unat (hi_n h))) (\<lambda>ps.
          cbind (mem_write obuf sizeof_qai_hai_infer_out ps) (\<lambda>obuf.
          Inr (TEE_SUCCESS, params[1 := P_memref obuf (ucast need_out)]))))))))) "

definition cmd_kernel_block_reps ::
  "'d fp \<Rightarrow> ta_env \<Rightarrow> u32 \<Rightarrow> tee_param list \<Rightarrow> u32 \<Rightarrow> 'd kstate \<Rightarrow>
   (u32 \<times> tee_param list \<times> 'd kstate) res" where
  "cmd_kernel_block_reps F env param_types params reps st =
     (if param_types \<noteq> types_in_out then Inr (TEE_ERROR_BAD_PARAMETERS, params, st)
      else cbind (memref_of params 0) (\<lambda>(ibuf, isize).
      if unat isize < sizeof_qai_kernel_block_in then Inr (TEE_ERROR_BAD_PARAMETERS, params, st)
      else cbind (mem_read ibuf 0 sizeof_qai_kernel_block_in) (\<lambda>bs.
      let h = dec_qai_kernel_block_in bs in
      if kb_n_qubits h \<noteq> 8 \<and> kb_n_qubits h \<noteq> 16 then Inr (TEE_ERROR_BAD_PARAMETERS, params, st)
      else
        let n_feat = kb_n_qubits h * 2;
            need_in = 12 + (kb_n_ref h + kb_n_query h) * n_feat * 4 :: u32;
            need_out = 8 + kb_n_ref h * kb_n_query h * 4 :: u32 in
        cbind (memref_of params 1) (\<lambda>(obuf, osize).
        if isize < ucast need_in \<or> osize < ucast need_out
        then Inr (TEE_ERROR_SHORT_BUFFER, params, st)
        else
          let vecs = words_of_bytes (drop sizeof_qai_kernel_block_in ibuf);
              query = drop (unat (kb_n_ref h * n_feat)) vecs;
              k = words_of_bytes (drop sizeof_qai_kernel_block_out obuf) in
          cbind (qai_fidelity_kernel_block F vecs (kb_n_ref h) query (kb_n_query h) reps
                   (kb_n_qubits h) k 0 (te_t0 env) (te_t1 env) st) (\<lambda>(res, k, ms, st).
          if res \<noteq> TEE_SUCCESS then Inr (res, params, st)
          else
            cbind (mem_write obuf sizeof_qai_kernel_block_out (bytes_of_words k)) (\<lambda>obuf.
            cbind (mem_write obuf 0 (enc_qai_kernel_block_out
                     \<lparr>ko_tee_elapsed_ms = ms, ko_n_out = kb_n_ref h * kb_n_query h\<rparr>)) (\<lambda>obuf.
            Inr (TEE_SUCCESS, params[1 := P_memref obuf (ucast need_out)], st))))))))"

definition cmd_kernel_block ::
  "'d fp \<Rightarrow> ta_env \<Rightarrow> u32 \<Rightarrow> tee_param list \<Rightarrow> 'd kstate \<Rightarrow> (u32 \<times> tee_param list \<times> 'd kstate) res" where
  "cmd_kernel_block F env param_types params = cmd_kernel_block_reps F env param_types params 3"

definition cmd_qmoc_block ::
  "'d fp \<Rightarrow> ta_env \<Rightarrow> u32 \<Rightarrow> tee_param list \<Rightarrow> 'd kstate \<Rightarrow> (u32 \<times> tee_param list \<times> 'd kstate) res" where
  "cmd_qmoc_block F env param_types params = cmd_kernel_block_reps F env param_types params 1"

section \<open>Dispatch\<close>

definition with_state :: "'s \<Rightarrow> (u32 \<times> tee_param list) res \<Rightarrow> (u32 \<times> tee_param list \<times> 's) res" where
  "with_state st m = cbind m (\<lambda>(res, params). Inr (res, params, st))"

definition TA_InvokeCommandEntryPoint ::
  "'d fp \<Rightarrow> ta_env \<Rightarrow> prot_frame \<Rightarrow> u32 \<Rightarrow> u32 \<Rightarrow> tee_param list \<Rightarrow> 'd kstate \<Rightarrow>
   (u32 \<times> tee_param list \<times> 'd kstate) res" where
  "TA_InvokeCommandEntryPoint F env fr cmd_id param_types params st =
     (if cmd_id = TA_QAI_CMD_INFER_BASELINE then
        with_state st (cmd_infer_plain param_types params QAI_MODEL_BASELINE)
      else if cmd_id = TA_QAI_CMD_INFER_TINYML then
        with_state st (cmd_infer_plain param_types params QAI_MODEL_TINYML)
      else if cmd_id = TA_QAI_CMD_INFER_QAI then
        with_state st (cmd_infer_plain param_types params QAI_MODEL_QAI)
      else if cmd_id = TA_QAI_CMD_INFER_PROTECTED then
        cbind (cmd_infer_protected param_types params fr) (\<lambda>(res, params, fr).
        Inr (res, params, st))
      else if cmd_id = TA_QAI_CMD_GET_INFO then with_state st (cmd_get_info param_types params)
      else if cmd_id = TA_QAI_CMD_BENCH_FIDELITY then
        cmd_bench_fidelity F env param_types params st
      else if cmd_id = TA_QAI_CMD_QOC_BLOCK then cmd_kernel_block F env param_types params st
      else if cmd_id = TA_QAI_CMD_HAI_INFER then
        with_state st (cmd_hai_infer env param_types params)
      else if cmd_id = TA_QAI_CMD_QMOC_BLOCK then cmd_qmoc_block F env param_types params st
      else Inr (TEE_ERROR_BAD_PARAMETERS, params, st))"

section \<open>Replies\<close>

text \<open>
  A command may write inside a buffer and lower its size, and nothing else: every parameter
  keeps its kind, every buffer its extent.
\<close>

fun param_reply :: "tee_param \<Rightarrow> tee_param \<Rightarrow> bool" where
  "param_reply (P_memref b s) (P_memref b' s') \<longleftrightarrow> length b' = length b \<and> s' \<le> s"
| "param_reply p p' \<longleftrightarrow> p = p'"

definition reply_ok :: "tee_param list \<Rightarrow> tee_param list \<Rightarrow> bool" where
  "reply_ok ps ps' \<longleftrightarrow> list_all2 param_reply ps ps'"

lemma param_reply_refl [simp]: "param_reply p p"
  by (cases p) simp_all

lemma reply_ok_refl [simp]: "reply_ok ps ps"
  by (simp add: reply_ok_def list_all2_refl)

lemma reply_ok_update:
  "ps ! i = P_memref b s \<Longrightarrow> length b' = length b \<Longrightarrow> s' \<le> s \<Longrightarrow>
     reply_ok ps (ps[i := P_memref b' s'])"
  unfolding reply_ok_def list_all2_conv_all_nth
  by (metis length_list_update nth_list_update_eq nth_list_update_neq param_reply.simps(1)
      param_reply_refl)

lemma params_conformD:
  "params_conform types params \<Longrightarrow> i < 4 \<Longrightarrow>
     length params = 4 \<and> param_ok (TEE_PARAM_TYPE_GET types i) (params ! i)"
  by (simp add: params_conform_def)

lemma conform_in_out:
  assumes "params_conform types_in_out params"
  obtains ib isz ob osz where "length params = 4"
    "params ! 0 = P_memref ib isz" "length ib = unat isz"
    "params ! 1 = P_memref ob osz" "length ob = unat osz"
proof -
  have t: "TEE_PARAM_TYPE_GET types_in_out 0 = 5" "TEE_PARAM_TYPE_GET types_in_out 1 = 6"
    by code_simp+
  have "length params = 4" "param_ok 5 (params ! 0)" "param_ok 6 (params ! 1)"
    using assms by (auto simp: params_conform_def t [symmetric])
  then show ?thesis
    using that by (cases "params ! 0"; cases "params ! 1") auto
qed

lemma memref_of_ok [simp]:
  "i < length params \<Longrightarrow> params ! i = P_memref b s \<Longrightarrow> memref_of params i = Inr (b, s)"
  by (simp add: memref_of_def)

lemma safe_mem_read [safe_rules]:
  "off + n \<le> length buf \<Longrightarrow> P (take n (drop off buf)) \<Longrightarrow> safe (mem_read buf off n) P"
  by (simp add: mem_read_def)

lemma safe_mem_write [safe_rules]:
  "off + length bs \<le> length buf \<Longrightarrow> P (take off buf @ bs @ drop (off + length bs) buf) \<Longrightarrow>
     safe (mem_write buf off bs) P"
  by (simp add: mem_write_def)

section \<open>Memory safety of the kernels\<close>

lemma safe_fill_result: "safe (fill_result s t m) (\<lambda>_. True)"
  by (simp add: fill_result_def abs_i32_def i32_def)

lemma safe_term64:
  "i < length ws \<Longrightarrow> i < length x \<Longrightarrow> safe (cbind (term64 ws x i) (\<lambda>p. i64 (acc + p))) (\<lambda>_. True)"
  by (simp add: term64_def i64_def)

lemma safe_pair64:
  "i < length gs \<Longrightarrow> i < l \<Longrightarrow> l \<le> length x \<Longrightarrow>
     safe (cbind (pair64 gs x l i) (\<lambda>p. i64 (acc + p))) (\<lambda>_. True)"
  using less_le_trans [OF mod_less_divisor [of l "Suc i"], of "length x"]
  by (simp add: pair64_def i64_def)

lemma safe_true_bind:
  "safe m (\<lambda>_. True) \<Longrightarrow> (\<And>x. safe (f x) P) \<Longrightarrow> safe (cbind m f) P"
  by (cases m) auto

lemma safe_infer_switch:
  assumes "4 \<le> length (qi_features qin)"
  shows "safe (infer_switch m qin) (\<lambda>_. True)"
proof -
  let ?x = "qi_features qin" and ?n = "qi_num_features qin"
  have lim: "i < 4" "i < length ?x" if "i < unat (feature_limit ?n)" for i
    using that feature_limit_le [of ?n] assms by linarith+
  have le: "unat (feature_limit ?n) \<le> length ?x"
    using feature_limit_le [of ?n] assms by linarith
  have "safe (qai_infer_baseline ?x ?n) (\<lambda>_. True)"
    unfolding qai_infer_baseline_def Let_def
    by (intro safe_true_bind safe_cfor safe_fill_result)
       (auto simp: lim i32_def)
  moreover have "safe (qai_infer_tinyml ?x ?n) (\<lambda>_. True)"
    unfolding qai_infer_tinyml_def Let_def
    by (intro safe_true_bind safe_cfor safe_fill_result safe_term64 safe_i64_div) (auto simp: lim)
  moreover have "safe (qai_infer_qai ?x ?n) (\<lambda>_. True)"
    unfolding qai_infer_qai_def Let_def
    by (intro safe_true_bind safe_cfor safe_fill_result safe_term64 safe_pair64 safe_i64_div)
       (auto simp: lim le)
  ultimately show ?thesis
    by (auto simp: infer_switch_def Let_def intro: safe_true_bind)
qed

lemma safe_hai_one:
  assumes "16 \<le> length x"
  shows "safe (hai_one m x) (\<lambda>_. True)"
proof -
  have pair: "safe (cbind (hai_pair_term x i) (\<lambda>p. i64 (acc + p))) (\<lambda>_. True)" if "i < 16" for i acc
    using that assms mod_less_divisor [of 16 "Suc i"]
    by (simp add: hai_pair_term_def i64_def i64_div_def)
  have "safe (hai_tinyml_one x) (\<lambda>_. True)"
    unfolding hai_tinyml_one_def using assms
    by (intro safe_true_bind safe_cfor safe_term64 safe_i64) auto
  moreover have "safe (hai_pairwise_fake_one x) (\<lambda>_. True)"
    unfolding hai_pairwise_fake_one_def using assms
    by (intro safe_true_bind safe_cfor safe_term64 pair safe_i64) auto
  ultimately show ?thesis by (simp add: hai_one_def)
qed

lemma safe_delta_ms: "safe (delta_ms t0 t1) (\<lambda>_. True)"
  by (simp add: delta_ms_def Let_def i32_def)

lemma safe_qai_hai_infer:
  assumes "n \<le> 32 \<Longrightarrow> 16 * unat n \<le> length rows" and "32 \<le> length pred"
  shows "safe (qai_hai_infer m rows n reps pred el t0 t1)
    (\<lambda>(res, pred', ms). length pred' = length pred \<and> (res = TEE_SUCCESS \<longrightarrow> n \<le> 32))"
proof (cases "n = 0 \<or> n > 32 \<or> reps = 0 \<or> (m \<noteq> 0 \<and> m \<noteq> 1)")
  case True
  then show ?thesis by (auto simp: qai_hai_infer_def)
next
  case False
  then have n: "n \<le> 32" by (simp add: not_less)
  then have n': "unat n \<le> 32" by (simp add: word_le_nat_alt)
  let ?I = "\<lambda>p. length p = length pred"
  have step: "safe (cbind (hai_one m (drop (i * 16) rows)) (awrite p i)) ?I"
    if "i < unat n" "?I p" for i p
  proof (rule safe_true_bind)
    have "Suc i * 16 \<le> unat n * 16" using that(1) by (intro mult_le_mono1) simp
    then show "safe (hai_one m (drop (i * 16) rows)) (\<lambda>_. True)"
      using assms(1) [OF n] by (intro safe_hai_one) simp
  qed (use that n' assms(2) in \<open>simp add: safe_awrite\<close>)
  have "safe (cfor [0..<unat reps] (\<lambda>r. cfor [0..<unat n] (\<lambda>i pred.
       cbind (hai_one m (drop (i * 16) rows)) (awrite pred i))) pred) ?I"
    by (intro safe_cfor step) auto
  then show ?thesis
    using False n unfolding qai_hai_infer_def
    by (auto intro!: safe_bind elim!: safe_mono intro: safe_mono [OF safe_delta_ms])
qed

subsection \<open>Fidelity\<close>

definition bench_inv :: "'d kstate \<Rightarrow> bool" where
  "bench_inv st \<longleftrightarrow> kstore st \<and> kwf 8 st"

lemma bench_inv_rng: "bench_inv st \<Longrightarrow> bench_inv (st\<lparr>rng_state := r\<rparr>)"
  by (simp add: bench_inv_def kstore_def kwf_def)

lemma bench_inv_frame: "bench_inv st \<Longrightarrow> kframe st' = kframe st \<Longrightarrow> bench_inv st'"
  by (simp add: bench_inv_def kstore_def kwf_def kframe_def)

lemma fill_vec_inv:
  assumes "bench_inv st"
  shows "length (fst (fill_vec F st)) = 16 \<and> bench_inv (snd (fill_vec F st))"
proof -
  have "length (fst (fold (\<lambda>_ (v, st). let (a, st) = next_angle F st in (v @ [a], st)) xs (v, st))) =
      length v + length xs \<and>
    bench_inv (snd (fold (\<lambda>_ (v, st). let (a, st) = next_angle F st in (v @ [a], st)) xs (v, st)))"
    for xs :: "nat list" and v using assms
    by (induction xs arbitrary: v st) (auto simp: next_angle_def Let_def bench_inv_rng)
  from this [of "[0..<16]" "[]"] show ?thesis by (simp add: fill_vec_def del: upt_Suc)
qed

lemma fidelity_exp_inv:
  assumes "bench_inv st" "length x = 16" "length y = 16"
  shows "\<exists>k st'. fidelity_exp F x y st = Inr (k, st') \<and> bench_inv st'"
  using fidelity_exp_reps_ref [of 8 st x y F 3] assms bench_inv_frame [OF assms(1)]
  unfolding fidelity_exp_def bench_inv_def by force

lemma bench_step_inv:
  assumes "bench_inv st"
  shows "\<exists>acc' st'. (let (x, st) = fill_vec F st; (y, st) = fill_vec F st in
     cbind (fidelity_exp F x y st) (\<lambda>(k, st). Inr (fp_add F acc k, st))) = Inr (acc', st') \<and>
     bench_inv st'"
proof -
  obtain x s1 y s2 where 1: "fill_vec F st = (x, s1)" and 2: "fill_vec F s1 = (y, s2)"
    by (metis surj_pair)
  from fill_vec_inv [OF assms, of F] 1 have x: "length x = 16" "bench_inv s1" by simp_all
  from fill_vec_inv [OF x(2), of F] 2 have y: "length y = 16" "bench_inv s2" by simp_all
  from fidelity_exp_inv [OF y(2) x(1) y(1), of F] show ?thesis
    by (auto simp: 1 2)
qed

lemma safe_fidelity_bench:
  fixes F :: "'d fp"
  assumes "kstore st"
  shows "safe (qai_fidelity_bench F evals t0 t1 st) (\<lambda>(res, out, st'). kstore st')"
proof (cases "evals > 20000")
  case True
  then show ?thesis using assms by (simp add: qai_fidelity_bench_def)
next
  case False
  have "bench_inv (kernel_select 8 st)"
    using kernel_select_wf [OF assms, of 8] assms
    by (simp add: bench_inv_def kstore_def kernel_select_def)
  moreover obtain x s1 where 1: "fill_vec F (kernel_select 8 st) = (x, s1)" by force
  ultimately have x: "length x = 16" "bench_inv s1"
    using fill_vec_inv [of "kernel_select 8 st" F] by simp_all
  from fidelity_exp_inv [OF x(2,1,1), of F] obtain k s2
    where 2: "fidelity_exp F x x s1 = Inr (k, s2)" "bench_inv s2" by blast
  have "safe (cfor [0..<unat evals] (\<lambda>_ (acc, st).
                 let (x, st) = fill_vec F st; (y, st) = fill_vec F st in
                 cbind (fidelity_exp F x y st) (\<lambda>(k, st). Inr (fp_add F acc k, st)))
               (fp_lit F 0, s2)) (\<lambda>(acc, st). bench_inv st)"
  proof (rule safe_cfor)
    fix i and t :: "'d \<times> 'd kstate" assume "case t of (acc, st) \<Rightarrow> bench_inv st"
    then obtain acc st where t: "t = (acc, st)" "bench_inv st" by (cases t) auto
    from bench_step_inv [OF t(2), of F acc]
    show "safe ((\<lambda>(acc, st). let (x, st) = fill_vec F st; (y, st) = fill_vec F st in
       cbind (fidelity_exp F x y st) (\<lambda>(k, st). Inr (fp_add F acc k, st))) t)
      (\<lambda>(acc, st). bench_inv st)" by (auto simp: t safe_iff)
  qed (use 2 in simp)
  then show ?thesis
    using False unfolding qai_fidelity_bench_def
    by (auto simp: 1 2 bench_inv_def intro!: safe_bind elim!: safe_mono
        intro: safe_mono [OF safe_delta_ms])
qed

lemma safe_kernel_block:
  fixes F :: "'d fp"
  assumes st: "kstore st"
    and ref: "n_ref \<le> 32 \<Longrightarrow> n_query \<le> 32 \<Longrightarrow> unat n_ref * (2 * unat nq) \<le> length ref"
    and query: "n_ref \<le> 32 \<Longrightarrow> n_query \<le> 32 \<Longrightarrow> unat n_query * (2 * unat nq) \<le> length query"
    and out: "n_ref \<le> 32 \<Longrightarrow> n_query \<le> 32 \<Longrightarrow> unat n_query * unat n_ref \<le> length out_k"
  shows "safe (qai_fidelity_kernel_block F ref n_ref query n_query reps nq out_k el t0 t1 st)
    (\<lambda>(res, out', ms, st'). length out' = length out_k \<and> kstore st' \<and>
       (res = TEE_SUCCESS \<longrightarrow> n_ref \<le> 32 \<and> n_query \<le> 32))"
proof (cases "n_ref = 0 \<or> n_query = 0 \<or> reps = 0 \<or> reps > 3 \<or> (nq \<noteq> 8 \<and> nq \<noteq> 16) \<or>
    n_ref > 32 \<or> n_query > 32 \<or> n_ref * n_query > 32")
  case True
  then show ?thesis using st by (auto simp: qai_fidelity_kernel_block_def)
next
  case False
  then have nq: "nq = 8 \<or> nq = 16" and le: "n_ref \<le> 32" "n_query \<le> 32" by auto
  have nf: "unat (nq * 2) = 2 * unat nq" using nq by auto
  from kernel_block_loops [OF kernel_select_wf [OF st nq] ref [OF le] query [OF le] out [OF le], of F reps]
  show ?thesis
    using False le kstore_frame [OF st] out [OF le] unfolding qai_fidelity_kernel_block_def
    by (auto simp: nf Let_def simp del: upt_Suc intro!: safe_bind safe_mono [OF safe_delta_ms])
qed

section \<open>Memory safety of the commands\<close>

lemma length_words_of_bytes_drop:
  "length (words_of_bytes (drop k b)) = (length b - k) div 4"
  by (simp add: length_words_of_bytes)

lemma safe_write_output:
  assumes "length params = 4" "params ! 1 = P_memref ob osz" "length ob = unat osz"
  shows "safe (write_output params out) (\<lambda>(res, params'). reply_ok params params')"
proof (cases "unat osz < 16")
  case True
  then show ?thesis using assms by (simp add: write_output_def)
next
  case False
  then have "16 \<le> osz" by (simp add: word_le_nat_alt)
  with False show ?thesis
    using assms by (auto simp: write_output_def mem_write_ok intro: reply_ok_update)
qed

lemma safe_cmd_infer_plain:
  assumes conf: "params_conform types params"
  shows "safe (cmd_infer_plain types params m) (\<lambda>(res, params'). reply_ok params params')"
proof (cases "types = types_in_out")
  case True
  with conf obtain ib isz ob osz where p: "length params = 4"
    "params ! 0 = P_memref ib isz" "length ib = unat isz"
    "params ! 1 = P_memref ob osz" "length ob = unat osz" by (metis conform_in_out)
  show ?thesis
  proof (cases "unat isz < 68")
    case False
    let ?q = "dec_qai_input (take 68 ib)"
    have "4 \<le> length (qi_features ?q)"
      using False p(3) by (simp add: dec_qai_input_def length_words_of_bytes)
    from safe_infer_switch [OF this, of m] show ?thesis
      using True False p unfolding cmd_infer_plain_def copy_input_def
      by (auto simp: mem_read_ok Let_def split: option.split
          intro!: safe_bind safe_write_output elim!: safe_mono)
  qed (use True p in \<open>simp add: cmd_infer_plain_def copy_input_def\<close>)
qed (simp add: cmd_infer_plain_def)

lemma feat_bytes_le:
  "n \<noteq> 0 \<Longrightarrow> \<not> 16 < n \<Longrightarrow> unat (n * 4 :: u32) = 4 * unat n \<and> unat n \<le> 16"
proof -
  assume "\<not> 16 < n"
  then have "unat n \<le> 16" by (simp add: word_le_nat_alt not_less)
  then show ?thesis by (simp add: unat_mult_lem [THEN iffD1])
qed

lemma safe_cmd_infer_protected:
  assumes conf: "params_conform types params"
  shows "safe (cmd_infer_protected types params fr) (\<lambda>(res, params', fr'). reply_ok params params')"
proof (cases "types = types_in_out")
  case True
  with conf obtain ib isz ob osz where p: "length params = 4"
    "params ! 0 = P_memref ib isz" "length ib = unat isz"
    "params ! 1 = P_memref ob osz" "length ob = unat osz" by (metis conform_in_out)
  let ?pin = "dec_qai_protected_input (take 72 ib)"
  show ?thesis
  proof (cases "unat isz < 72 \<or> qp_num_features ?pin = 0 \<or> 16 < qp_num_features ?pin")
    case False
    then have fb: "unat (qp_num_features ?pin * 4) = 4 * unat (qp_num_features ?pin)"
      "unat (qp_num_features ?pin) \<le> 16"
      using feat_bytes_le [of "qp_num_features ?pin"] by auto
    have len: "length (qp_cipher ?pin) = 64"
      using False p(3) by (simp add: dec_qai_protected_input_def)
    have feats: "4 \<le> length (qi_features \<lparr>qi_num_features = n, qi_features = words_of_bytes bs\<rparr>)"
      if "length bs = 64" for n bs
      using that by (simp add: length_words_of_bytes)
    show ?thesis
      using True False p fb len unfolding cmd_infer_protected_def
      by (auto simp: mem_read_ok mem_write_ok qai_xor_crypt_value Let_def split: option.split
          intro!: safe_bind safe_mono [OF safe_infer_switch] safe_mono [OF safe_write_output] feats)
  qed (use True p in \<open>auto simp: cmd_infer_protected_def mem_read_ok Let_def\<close>)
qed (simp add: cmd_infer_protected_def)

lemma safe_cmd_get_info:
  assumes conf: "params_conform types params"
  shows "safe (cmd_get_info types params) (\<lambda>(res, params'). reply_ok params params')"
proof (cases "types = TEE_PARAM_TYPES 6 0 0 0")
  case True
  have "TEE_PARAM_TYPE_GET (TEE_PARAM_TYPES 6 0 0 0) 0 = 6" by code_simp
  then have "length params = 4" "param_ok 6 (params ! 0)"
    using params_conformD [OF conf, of 0] True by auto
  moreover from this obtain ob osz where "params ! 0 = P_memref ob osz" "length ob = unat osz"
    by (cases "params ! 0") auto
  moreover have "28 \<le> osz" if "\<not> unat osz < 28" using that by (simp add: word_le_nat_alt)
  ultimately show ?thesis
    by (auto simp: cmd_get_info_def mem_write_ok intro!: reply_ok_update)
qed (simp add: cmd_get_info_def)

lemma length_le64 [simp]: "length (le64 w) = 8"
  by (simp add: le64_def)

lemma length_enc_bench [simp]: "length (enc_qai_fidelity_bench b) = 24"
  by (simp add: enc_qai_fidelity_bench_def)

lemma safe_cmd_bench_fidelity:
  assumes conf: "params_conform types params" and st: "kstore st"
  shows "safe (cmd_bench_fidelity F env types params st)
    (\<lambda>(res, params', st'). reply_ok params params' \<and> kstore st')"
proof (cases "types = TEE_PARAM_TYPES 1 6 0 0")
  case True
  have t: "TEE_PARAM_TYPE_GET (TEE_PARAM_TYPES 1 6 0 0) 0 = 1"
    "TEE_PARAM_TYPE_GET (TEE_PARAM_TYPES 1 6 0 0) 1 = 6" by code_simp+
  then have l: "length params = 4" "param_ok 1 (params ! 0)" "param_ok 6 (params ! 1)"
    using params_conformD [OF conf, of 0] params_conformD [OF conf, of 1] True by auto
  then obtain a b where 0: "params ! 0 = P_value a b" by (cases "params ! 0") auto
  from l obtain ob osz where 1: "params ! 1 = P_memref ob osz" "length ob = unat osz"
    by (cases "params ! 1") auto
  have "24 \<le> osz" if "\<not> unat osz < 24" using that by (simp add: word_le_nat_alt)
  then show ?thesis
    using True l(1) 0 1 st safe_fidelity_bench [OF st, of F a "te_t0 env" "te_t1 env"]
    unfolding cmd_bench_fidelity_def
    by (auto simp: value_a_of_def mem_write_ok split: option.split
        intro!: safe_bind reply_ok_update elim!: safe_mono)
qed (use st in \<open>simp add: cmd_bench_fidelity_def\<close>)

text \<open>The wrapping size computations are exact for the row counts the kernels accept.\<close>

lemma unat_need_hai:
  assumes "n \<le> (32 :: u32)"
  shows "unat (12 + n * 16 * 4 :: u32) = 12 + 64 * unat n" and "unat (8 + n :: u32) = 8 + unat n"
proof -
  from assms have "unat n \<le> 32" by (simp add: word_le_nat_alt)
  then show "unat (12 + n * 16 * 4 :: u32) = 12 + 64 * unat n" "unat (8 + n :: u32) = 8 + unat n"
    by (simp_all add: unat_word_ariths)
qed

lemma unat_need_kernel:
  assumes "r \<le> (32 :: u32)" "q \<le> 32" "nq = 8 \<or> nq = 16"
  shows "unat (12 + (r + q) * (nq * 2) * 4 :: u32) = 12 + (unat r + unat q) * (2 * unat nq) * 4"
    and "unat (8 + r * q * 4 :: u32) = 8 + unat r * unat q * 4"
    and "unat (r * (nq * 2) :: u32) = unat r * (2 * unat nq)"
proof -
  from assms have u: "unat r \<le> 32" "unat q \<le> 32" by (simp_all add: word_le_nat_alt)
  then have le: "unat r * unat q \<le> 32 * 32" by (intro mult_le_mono)
  then have rq: "unat (r * q) = unat r * unat q" by (simp add: unat_word_ariths)
  have "unat (8 + w * 4 :: u32) = 8 + unat w * 4" if "unat w \<le> 32 * 32" for w :: u32
    using that by (simp add: unat_word_ariths)
  from this [of "r * q"] le show "unat (8 + r * q * 4 :: u32) = 8 + unat r * unat q * 4"
    by (simp add: rq)
  show "unat (12 + (r + q) * (nq * 2) * 4 :: u32) = 12 + (unat r + unat q) * (2 * unat nq) * 4"
    "unat (r * (nq * 2) :: u32) = unat r * (2 * unat nq)"
    using assms(3) u by (auto simp: unat_word_ariths)
qed

lemma ucast_le_size: "ucast (w :: u32) \<le> (s :: u64) \<longleftrightarrow> unat w \<le> unat s"
  by (simp add: word_le_nat_alt)

lemma safe_cmd_hai_infer:
  assumes conf: "params_conform types params" and env: "32 \<le> length (te_pred env)"
  shows "safe (cmd_hai_infer env types params) (\<lambda>(res, params'). reply_ok params params')"
proof (cases "types = types_in_out")
  case True
  with conf obtain ib isz ob osz where p: "length params = 4"
    "params ! 0 = P_memref ib isz" "length ib = unat isz"
    "params ! 1 = P_memref ob osz" "length ob = unat osz" by (metis conform_in_out)
  let ?h = "dec_qai_hai_infer_in (take 12 ib)"
  let ?in = "12 + hi_n ?h * 16 * 4 :: u32" and ?out = "8 + hi_n ?h :: u32"
  show ?thesis
  proof (cases "unat isz < 12 \<or> isz < ucast ?in \<or> osz < ucast ?out")
    case False
    then have need: "unat ?in \<le> unat isz" "unat ?out \<le> unat osz"
      by (simp_all add: not_less ucast_le_size)
    let ?rows = "words_of_bytes (drop 12 ib)"
    have rows: "16 * unat (hi_n ?h) \<le> length ?rows" if "hi_n ?h \<le> 32"
      using need p(3) unat_need_hai [OF that] by (simp add: length_words_of_bytes)
    have out: "8 + unat (hi_n ?h) \<le> unat osz" "unat (hi_n ?h) \<le> 32" if "hi_n ?h \<le> 32"
      using need unat_need_hai [OF that] that by (simp_all add: word_le_nat_alt)
    note kernel = safe_qai_hai_infer [OF rows env, of "hi_model ?h"
        "if hi_reps ?h \<noteq> 0 then hi_reps ?h else 1" 0 "te_t0 env" "te_t1 env"]
    show ?thesis
      using True False p env out kernel unfolding cmd_hai_infer_def
      by (auto simp: mem_read_ok mem_write_ok Let_def not_less ucast_le_size
          intro!: safe_bind reply_ok_update [OF p(4) [unfolded One_nat_def]] elim!: safe_mono)
  qed (use True p in \<open>auto simp: cmd_hai_infer_def mem_read_ok Let_def\<close>)
qed (simp add: cmd_hai_infer_def)

lemma block_fits:
  fixes r q f i ob :: nat
  assumes "12 + (r + q) * f * 4 \<le> i" and "8 + r * q * 4 \<le> ob"
  shows "r * f \<le> (i - 12) div 4" "q * f \<le> (i - 12) div 4 - r * f" "q * r \<le> (ob - 8) div 4"
    "8 \<le> ob"
proof -
  have "(r + q) * f * 4 \<le> i - 12" "q * r * 4 \<le> ob - 8"
    using assms by (simp_all add: mult.commute)
  then have "(r + q) * f \<le> (i - 12) div 4" and 1: "q * r \<le> (ob - 8) div 4"
    by (simp_all add: less_eq_div_iff_mult_less_eq)
  then have "r * f + q * f \<le> (i - 12) div 4" by (simp add: distrib_right)
  then show "r * f \<le> (i - 12) div 4" "q * f \<le> (i - 12) div 4 - r * f" by linarith+
  show "q * r \<le> (ob - 8) div 4" by (rule 1)
  show "8 \<le> ob" using assms(2) by linarith
qed

lemma safe_cmd_kernel_block_reps:
  assumes conf: "params_conform types params" and st: "kstore st"
  shows "safe (cmd_kernel_block_reps F env types params reps st)
    (\<lambda>(res, params', st'). reply_ok params params' \<and> kstore st')"
proof (cases "types = types_in_out")
  case True
  with conf obtain ib isz ob osz where p: "length params = 4"
    "params ! 0 = P_memref ib isz" "length ib = unat isz"
    "params ! 1 = P_memref ob osz" "length ob = unat osz" by (metis conform_in_out)
  let ?h = "dec_qai_kernel_block_in (take 12 ib)"
  let ?r = "kb_n_ref ?h" and ?q = "kb_n_query ?h" and ?nq = "kb_n_qubits ?h"
  let ?in = "12 + (?r + ?q) * (?nq * 2) * 4 :: u32" and ?out = "8 + ?r * ?q * 4 :: u32"
  show ?thesis
  proof (cases "unat isz < 12 \<or> (?nq \<noteq> 8 \<and> ?nq \<noteq> 16) \<or> isz < ucast ?in \<or> osz < ucast ?out")
    case False
    then have nq: "?nq = 8 \<or> ?nq = 16" and need: "unat ?in \<le> unat isz" "unat ?out \<le> unat osz"
      by (auto simp: not_less ucast_le_size)
    let ?vecs = "words_of_bytes (drop 12 ib)" and ?k = "words_of_bytes (drop 8 ob)"
    let ?query = "drop (unat (?r * (?nq * 2))) ?vecs"
    have ref: "unat ?r * (2 * unat ?nq) \<le> length ?vecs"
      and query: "unat ?q * (2 * unat ?nq) \<le> length ?query"
      and out: "unat ?q * unat ?r \<le> length ?k" and o8: "8 \<le> unat osz"
      if le: "?r \<le> 32" "?q \<le> 32"
      using block_fits [of "unat ?r" "unat ?q" "2 * unat ?nq" "unat isz" "unat osz"]
        need p(3,5) unat_need_kernel [OF le nq]
      by (simp_all add: length_words_of_bytes)
    note kernel = safe_kernel_block [OF st ref query out, of F reps 0 "te_t0 env" "te_t1 env"]
    show ?thesis
      using True False p kernel o8 unfolding cmd_kernel_block_reps_def
      by (auto simp: mem_read_ok mem_write_ok Let_def not_less ucast_le_size length_words_of_bytes st
          intro!: safe_bind reply_ok_update [OF p(4) [unfolded One_nat_def]] elim!: safe_mono)
  qed (use True p st in \<open>auto simp: cmd_kernel_block_reps_def mem_read_ok Let_def\<close>)
qed (simp add: cmd_kernel_block_reps_def st)

lemma safe_with_state:
  "safe m (\<lambda>(res, params'). reply_ok params params') \<Longrightarrow> kstore st \<Longrightarrow>
     safe (with_state st m) (\<lambda>(res, params', st'). reply_ok params params' \<and> kstore st')"
  unfolding with_state_def by (auto intro!: safe_bind elim!: safe_mono)

text \<open>Claim C1: whatever command, parameter types and buffer contents the normal world sends, the
  trusted application reads and writes only inside the buffers the framework mapped, never
  reads a parameter union at the wrong member and never reports a size above the one it was
  given, although its 32-bit size computations wrap; the fidelity state keeps its shape, and the
  only undefined executions left are overflows of signed integers.\<close>

theorem invoke_memory_safe:
  assumes "params_conform types params" and "kstore st" and "length (te_pred env) = 32"
  shows "safe (TA_InvokeCommandEntryPoint F env fr cmd_id types params st)
    (\<lambda>(res, params', st'). reply_ok params params' \<and> kstore st')"
proof -
  note plain = safe_with_state [OF safe_cmd_infer_plain [OF assms(1)] assms(2)]
  note info = safe_with_state [OF safe_cmd_get_info [OF assms(1)] assms(2)]
  have env: "32 \<le> length (te_pred env)" using assms(3) by simp
  note hai = safe_with_state [OF safe_cmd_hai_infer [OF assms(1) env] assms(2)]
  have prot: "safe (cbind (cmd_infer_protected types params fr) (\<lambda>(res, params, fr).
      Inr (res, params, st))) (\<lambda>(res, params', st'). reply_ok params params' \<and> kstore st')"
    using assms(2)
    by (intro safe_bind safe_mono [OF safe_cmd_infer_protected [OF assms(1)]]) auto
  show ?thesis
    unfolding TA_InvokeCommandEntryPoint_def cmd_kernel_block_def cmd_qmoc_block_def
    using plain info hai prot assms(2) safe_cmd_bench_fidelity [OF assms(1,2)]
      safe_cmd_kernel_block_reps [OF assms(1,2)]
    by simp
qed

definition plain_params :: "u8 list \<Rightarrow> u8 list \<Rightarrow> tee_param list" where
  "plain_params ib ob = [P_memref ib (of_nat (length ib)), P_memref ob (of_nat (length ob)), P_none, P_none]"

definition some_env :: ta_env where
  "some_env = \<lparr>te_t0 = \<lparr>tt_seconds = 1, tt_millis = 0\<rparr>, te_t1 = \<lparr>tt_seconds = 1, tt_millis = 3\<rparr>,
     te_pred = replicate 32 0\<rparr>"

definition some_frame :: prot_frame where
  "some_frame = \<lparr>pf_pin = zero_protected_input, pf_in = zero_input\<rparr>"

lemma params_conform_plain:
  assumes "length ib < 2 ^ 64" "length ob < 2 ^ 64"
  shows "params_conform types_in_out (plain_params ib ob)"
proof -
  have t: "TEE_PARAM_TYPE_GET types_in_out 0 = 5" "TEE_PARAM_TYPE_GET types_in_out 1 = 6"
    "TEE_PARAM_TYPE_GET types_in_out 2 = 0" "TEE_PARAM_TYPE_GET types_in_out 3 = 0"
    by code_simp+
  have "unat (of_nat n :: u64) = n" if "n < 2 ^ 64" for n
    using that by (simp add: unat_of_nat take_bit_nat_eq_self)
  moreover have "set [0..<4] = {0, 1, 2, 3 :: nat}" by code_simp
  ultimately show ?thesis
    using assms by (simp add: params_conform_def plain_params_def t del: set_upt One_nat_def)
qed

theorem invoke_memory_safe_witness:
  "safe (TA_InvokeCommandEntryPoint int_fp some_env some_frame TA_QAI_CMD_HAI_INFER types_in_out
     (plain_params (enc_qai_hai_infer_in \<lparr>hi_model = 0, hi_n = 0x4000000, hi_reps = 1\<rparr>)
        (replicate 8 0)) used_store)
    (\<lambda>(res, params', st').
       reply_ok (plain_params (enc_qai_hai_infer_in \<lparr>hi_model = 0, hi_n = 0x4000000, hi_reps = 1\<rparr>)
        (replicate 8 0)) params' \<and> kstore st')"
  by (rule invoke_memory_safe [OF params_conform_plain kstore_used])
     (simp_all add: some_env_def enc_qai_hai_infer_in_def)

end
