(* ===== verification/Qai_Commands.thy ===== *)
theory Qai_Commands
  imports Qai_TA
begin

text \<open>
  What the commands of the trusted application return: the protected path against the plain
  one, the wiping of plaintext, the block commands from request bytes to reply bytes, and the
  rejection of requests of the wrong shape.
\<close>

section \<open>Kernels read only the features that are present\<close>

lemma cfor_cong:
  "(\<And>i t. i \<in> set is \<Longrightarrow> f i t = g i t) \<Longrightarrow> cfor is f s = cfor is g s"
  by (induction "is" arbitrary: s) (auto intro: cbind_cong)

lemma infer_switch_cong:
  assumes "unat n \<le> length x" "unat n \<le> length y" and eq: "\<And>i. i < unat n \<Longrightarrow> x ! i = y ! i"
  shows "infer_switch m \<lparr>qi_num_features = n, qi_features = x\<rparr> =
         infer_switch m \<lparr>qi_num_features = n, qi_features = y\<rparr>"
proof -
  let ?l = "unat (feature_limit n)"
  have read: "aread x i = aread y i" if "i < ?l" for i
    using that assms feature_limit_le_n [of n] by simp
  have "Suc i mod ?l < ?l" if "i < ?l" for i using that by simp
  then have pair: "pair64 gs x ?l i = pair64 gs y ?l i" if "i < ?l" for gs i
    using that by (simp add: pair64_def read)
  have lin: "term64 ws x i = term64 ws y i" if "i < ?l" for ws i
    using that by (simp add: term64_def read)
  have "qai_infer_baseline x n = qai_infer_baseline y n"
    unfolding qai_infer_baseline_def Let_def
    by (intro cbind_cong cfor_cong) (simp_all add: read)
  moreover have "qai_infer_tinyml x n = qai_infer_tinyml y n"
    unfolding qai_infer_tinyml_def Let_def
    by (intro cbind_cong cfor_cong) (simp_all add: lin)
  moreover have "qai_infer_qai x n = qai_infer_qai y n"
    unfolding qai_infer_qai_def Let_def
    by (intro cbind_cong cfor_cong) (simp_all add: lin pair)
  ultimately show ?thesis by (simp add: infer_switch_def)
qed

section \<open>Protected inference\<close>

lemma take_bytes_of_words: "take (4 * n) (bytes_of_words ws) = bytes_of_words (take n ws)"
proof (induction ws arbitrary: n)
  case (Cons w ws)
  then show ?case by (cases n) simp_all
qed simp

lemma bytes_of_zeros: "bytes_of_words (replicate k 0) = replicate (4 * k) 0"
proof (induction k)
  case (Suc k)
  have "le32 0 = [0, 0, 0, 0]" by (simp add: le32_def)
  with Suc show ?case by (simp add: numeral_eq_Suc)
qed simp

lemma padded_features:
  "n \<le> 16 \<Longrightarrow> words_of_bytes (take (4 * n) (bytes_of_words ws) @ replicate (64 - 4 * n) 0) =
     take n ws @ replicate (16 - n) 0"
proof -
  assume "n \<le> 16"
  then have "64 - 4 * n = 4 * (16 - n)" by simp
  then have "take (4 * n) (bytes_of_words ws) @ replicate (64 - 4 * n) 0 =
      bytes_of_words (take n ws @ replicate (16 - n) 0)"
    by (simp add: take_bytes_of_words bytes_of_zeros)
  then show ?thesis by (simp only: words_of_bytes_of_words_exact)
qed

lemma plain_params_simps [simp]:
  "length (plain_params ib ob) = 4"
  "plain_params ib ob ! 0 = P_memref ib (of_nat (length ib))"
  "plain_params ib ob ! 1 = P_memref ob (of_nat (length ob))"
  "plain_params ib ob ! Suc 0 = P_memref ob (of_nat (length ob))"
  by (simp_all add: plain_params_def)

lemma unat_size: "n < 2 ^ 64 \<Longrightarrow> unat (of_nat n :: u64) = n"
  by (simp add: unat_of_nat take_bit_nat_eq_self)

lemma length_enc_inputs:
  "length (qi_features q) = 16 \<Longrightarrow> length (enc_qai_input q) = 68"
  "length (qp_cipher p) = 64 \<Longrightarrow> length (enc_qai_protected_input p) = 72"
  by (simp_all add: enc_qai_input_def enc_qai_protected_input_def)

definition reply1 :: "(u32 \<times> tee_param list) \<Rightarrow> u32 \<times> tee_param" where
  "reply1 = (\<lambda>(res, ps). (res, ps ! 1))"

lemma reply1_plain [simp]: "reply1 (r, plain_params ib ob) = (r, P_memref ob (of_nat (length ob)))"
  by (simp add: reply1_def)

lemma reply1_write_output:
  assumes "length ps = 4" "length qs = 4" "ps ! 1 = qs ! 1"
  shows "map_sum id reply1 (write_output ps out) = map_sum id reply1 (write_output qs out)"
  using assms
  by (cases "qs ! 1") (simp_all add: write_output_def memref_of_def mem_write_def reply1_def)

lemma cmd_infer_plain_value:
  assumes "length feats = 16" "0 < n" "n \<le> 16"
  shows "cmd_infer_plain types_in_out
      (plain_params (enc_qai_input \<lparr>qi_num_features = n, qi_features = feats\<rparr>) ob) m =
    cbind (infer_switch m \<lparr>qi_num_features = n, qi_features = feats\<rparr>) (\<lambda>out. case out of
      None \<Rightarrow> Inr (TEE_ERROR_BAD_PARAMETERS,
        plain_params (enc_qai_input \<lparr>qi_num_features = n, qi_features = feats\<rparr>) ob)
    | Some out \<Rightarrow> write_output
        (plain_params (enc_qai_input \<lparr>qi_num_features = n, qi_features = feats\<rparr>) ob) out)"
  using assms length_enc_inputs(1) [of "\<lparr>qi_num_features = n, qi_features = feats\<rparr>"]
  by (auto simp: cmd_infer_plain_def copy_input_def mem_read_ok dec_enc_qai_input Let_def not_less)

lemma cmd_infer_protected_value:
  fixes m :: u32 and ob :: "u8 list"
  assumes "length feats = 16" "0 < n" "n \<le> 16"
    and c: "qai_xor_crypt (bytes_of_words feats) (n * 4) = Inr cipher"
  defines "qin \<equiv> \<lparr>qi_num_features = n, qi_features = take (unat n) feats @ replicate (16 - unat n) 0\<rparr>"
    and "ps \<equiv> plain_params (enc_qai_protected_input
        \<lparr>qp_num_features = n, qp_model_id = m, qp_cipher = cipher\<rparr>) ob"
  shows "cmd_infer_protected types_in_out ps fr =
    cbind (infer_switch m qin) (\<lambda>out. case out of
      None \<Rightarrow> Inr (TEE_ERROR_BAD_PARAMETERS, ps,
        fr\<lparr>pf_pin := \<lparr>qp_num_features = n, qp_model_id = m, qp_cipher = bytes_of_words feats\<rparr>,
           pf_in := qin\<rparr>)
    | Some out \<Rightarrow> cbind (write_output ps out) (\<lambda>(res, ps).
        Inr (res, ps, fr\<lparr>pf_in := zero_input, pf_pin := zero_protected_input\<rparr>)))"
proof -
  have n: "unat (n * 4) = 4 * unat n" "unat n \<le> 16"
    using feat_bytes_le [of n] assms(2,3) by auto
  have x: "cipher = xor_key qai_prot_key (bytes_of_words feats) (4 * unat n)"
    using c n assms(1) by (simp add: qai_xor_crypt_value)
  then have len: "length cipher = 64" using assms(1) by simp
  have d: "qai_xor_crypt cipher (n * 4) = Inr (bytes_of_words feats)"
    using n len by (simp add: qai_xor_crypt_value x xor_key_involution)
  have pad: "words_of_bytes (take (4 * unat n) (bytes_of_words feats) @ replicate (64 - 4 * unat n) 0)
      = take (unat n) feats @ replicate (16 - unat n) 0"
    using n by (intro padded_features)
  show ?thesis
    using assms(1-3) len n
      length_enc_inputs(2) [of "\<lparr>qp_num_features = n, qp_model_id = m, qp_cipher = cipher\<rparr>"]
    by (auto simp: cmd_infer_protected_def ps_def qin_def mem_read_ok mem_write_ok Let_def not_less d pad
        dec_enc_qai_protected_input)
qed

text \<open>Claim C7: the protected path decides as the plain one: for every model and every feature vector
  the reply (code, output bytes and size) to a request whose features were encrypted with the
  shared key stream equals the reply to the same features sent in the clear, undefined
  executions included.\<close>

theorem protected_matches_plain:
  assumes "length feats = 16" "0 < n" "n \<le> QAI_MAX_FEATURES"
    and "qai_xor_crypt (bytes_of_words feats) (n * 4) = Inr cipher"
  shows "map_sum id (\<lambda>(res, ps, fr). reply1 (res, ps))
      (cmd_infer_protected types_in_out (plain_params (enc_qai_protected_input
        \<lparr>qp_num_features = n, qp_model_id = m, qp_cipher = cipher\<rparr>) ob) fr) =
    map_sum id reply1 (cmd_infer_plain types_in_out (plain_params (enc_qai_input
        \<lparr>qi_num_features = n, qi_features = feats\<rparr>) ob) m)"
proof -
  let ?p = "plain_params (enc_qai_protected_input
        \<lparr>qp_num_features = n, qp_model_id = m, qp_cipher = cipher\<rparr>) ob"
  let ?q = "plain_params (enc_qai_input \<lparr>qi_num_features = n, qi_features = feats\<rparr>) ob"
  have "unat n \<le> 16" using assms(3) by (simp add: word_le_nat_alt)
  then have sw: "infer_switch m \<lparr>qi_num_features = n,
      qi_features = take (unat n) feats @ replicate (16 - unat n) 0\<rparr> =
    infer_switch m \<lparr>qi_num_features = n, qi_features = feats\<rparr>"
    using assms(1) by (intro infer_switch_cong) (simp_all add: nth_append)
  have w: "map_sum id (\<lambda>(res, ps, fr). reply1 (res, ps))
      (cbind (write_output ?p out) (\<lambda>(res, ps). Inr (res, ps, f))) =
    map_sum id reply1 (write_output ?q out)" for out f
    using reply1_write_output [of ?p ?q out]
    by (cases "write_output ?p out") (auto simp: split_beta)
  show ?thesis
    unfolding cmd_infer_protected_value [OF assms] cmd_infer_plain_value [OF assms(1-3)] sw
    by (cases "infer_switch m \<lparr>qi_num_features = n, qi_features = feats\<rparr>")
       (auto simp: w split: option.split)
qed

theorem protected_matches_plain_witness:
  "map_sum id (\<lambda>(res, ps, fr). reply1 (res, ps))
      (cmd_infer_protected types_in_out (plain_params (enc_qai_protected_input
        \<lparr>qp_num_features = 4, qp_model_id = 2,
         qp_cipher = xor_key qai_prot_key (bytes_of_words (replicate 16 10)) 16\<rparr>) (replicate 16 0)) some_frame) =
    map_sum id reply1 (cmd_infer_plain types_in_out (plain_params (enc_qai_input
        \<lparr>qi_num_features = 4, qi_features = replicate 16 10\<rparr>) (replicate 16 0)) 2)"
  by (rule protected_matches_plain) (simp_all add: qai_xor_crypt_value)

text \<open>Claim C31: when the protected command succeeds it has overwritten both locals that held the
  decrypted features.\<close>

theorem protected_success_wipes:
  assumes "cmd_infer_protected types params fr = Inr (TEE_SUCCESS, params', fr')"
  shows "pf_in fr' = zero_input \<and> pf_pin fr' = zero_protected_input"
  using assms
  by (auto simp: cmd_infer_protected_def Let_def cbind_Inr_iff split: if_splits option.splits)

theorem protected_success_wipes_witness:
  "\<exists>params' fr'. cmd_infer_protected types_in_out (plain_params (enc_qai_protected_input
        \<lparr>qp_num_features = 4, qp_model_id = 0,
         qp_cipher = xor_key qai_prot_key (bytes_of_words (replicate 16 10)) 16\<rparr>) (replicate 16 0)) some_frame =
      Inr (TEE_SUCCESS, params', fr') \<and> pf_in fr' = zero_input \<and> pf_pin fr' = zero_protected_input"
proof -
  let ?ps = "plain_params (enc_qai_protected_input \<lparr>qp_num_features = 4, qp_model_id = 0,
     qp_cipher = xor_key qai_prot_key (bytes_of_words (replicate 16 10)) 16\<rparr>) (replicate 16 0)"
  have "infer_switch 0 \<lparr>qi_num_features = 4,
      qi_features = take (unat (4 :: u32)) (replicate 16 10) @ replicate (16 - unat (4 :: u32)) 0\<rparr> =
    Inr (Some \<lparr>qo_prediction = 1, qo_confidence = 40, qo_score = 40, qo_model_id = 0\<rparr>)"
    by code_simp
  then have "\<exists>params' fr'. cmd_infer_protected types_in_out ?ps some_frame = Inr (TEE_SUCCESS, params', fr')"
    using cmd_infer_protected_value [of "replicate 16 10" 4
        "xor_key qai_prot_key (bytes_of_words (replicate 16 10)) 16" 0 "replicate 16 0" some_frame]
    by (simp add: qai_xor_crypt_value write_output_def mem_write_ok)
  then obtain params' fr' where
    e: "cmd_infer_protected types_in_out ?ps some_frame = Inr (TEE_SUCCESS, params', fr')" by blast
  from protected_success_wipes [OF e] e show ?thesis by blast
qed

text \<open>Claim C32: a protected request with an unknown model identifier returns with the decrypted
  features still in both locals, although the code means to wipe them before it returns.\<close>

theorem protected_unknown_model_keeps_plaintext:
  assumes "length feats = 16" "0 < n" "n \<le> QAI_MAX_FEATURES" "QAI_MODEL_QAI < m"
    and "qai_xor_crypt (bytes_of_words feats) (n * 4) = Inr cipher"
  shows "\<exists>params' fr'. cmd_infer_protected types_in_out (plain_params (enc_qai_protected_input
        \<lparr>qp_num_features = n, qp_model_id = m, qp_cipher = cipher\<rparr>) ob) fr =
      Inr (TEE_ERROR_BAD_PARAMETERS, params', fr') \<and>
      qp_cipher (pf_pin fr') = bytes_of_words feats \<and>
      take (unat n) (qi_features (pf_in fr')) = take (unat n) feats"
proof -
  have "m \<noteq> 0" "m \<noteq> 1" "m \<noteq> 2" using assms(4) by (auto simp: word_less_nat_alt)
  then have "infer_switch m qin = Inr None" for qin by (simp add: infer_switch_def)
  moreover have "unat n \<le> 16" using assms(3) by (simp add: word_le_nat_alt)
  ultimately show ?thesis
    using assms(1) unfolding cmd_infer_protected_value [OF assms(1-3,5)] by simp
qed

theorem protected_unknown_model_keeps_plaintext_witness:
  "\<exists>params' fr'. cmd_infer_protected types_in_out (plain_params (enc_qai_protected_input
        \<lparr>qp_num_features = 4, qp_model_id = 3,
         qp_cipher = xor_key qai_prot_key (bytes_of_words (replicate 16 10)) 16\<rparr>) []) some_frame =
      Inr (TEE_ERROR_BAD_PARAMETERS, params', fr') \<and>
      qp_cipher (pf_pin fr') = bytes_of_words (replicate 16 10) \<and>
      take (unat (4 :: u32)) (qi_features (pf_in fr')) = take (unat (4 :: u32)) (replicate 16 10)"
  by (rule protected_unknown_model_keeps_plaintext) (simp_all add: qai_xor_crypt_value)

section \<open>Block commands\<close>

definition hai_request :: "u32 \<Rightarrow> u32 \<Rightarrow> u32 \<Rightarrow> u32 list \<Rightarrow> u8 list" where
  "hai_request model n reps rows =
     enc_qai_hai_infer_in \<lparr>hi_model = model, hi_n = n, hi_reps = reps\<rparr> @ bytes_of_words rows"

definition hai_reply :: "u32 \<Rightarrow> u32 \<Rightarrow> u32 list \<Rightarrow> u32 \<Rightarrow> u8 list" where
  "hai_reply model n rows ms =
     enc_qai_hai_infer_out \<lparr>ho_tee_elapsed_ms = ms, ho_n = n\<rparr> @
     map (\<lambda>i. decision (hai_exact model (hai_row rows i))) [0..<unat n]"

lemma take_drop_header [simp]:
  "take 12 (hai_request model n reps rows) = enc_qai_hai_infer_in \<lparr>hi_model = model, hi_n = n, hi_reps = reps\<rparr>"
  "drop 12 (hai_request model n reps rows) = bytes_of_words rows"
  "length (hai_request model n reps rows) = 12 + 4 * length rows"
  by (simp_all add: hai_request_def)

lemma hai_command_value:
  assumes "0 < n" "n \<le> QAI_HAI_MAX_ROWS"
    and model: "model = QAI_HAI_MODEL_TINYML \<or> model = QAI_HAI_MODEL_PAIRWISE_FAKE"
    and rows: "length rows = unat n * 16"
    and range: "\<forall>i<unat n. hai_in_range model (hai_row rows i)"
    and out: "8 + unat n \<le> length ob" "length ob < 2 ^ 64"
    and env: "tt_millis (te_t0 env) < 1000" "tt_millis (te_t1 env) < 1000" "length (te_pred env) = 32"
  shows "cmd_hai_infer env types_in_out (plain_params (hai_request model n reps rows) ob) =
    Inr (TEE_SUCCESS, (plain_params (hai_request model n reps rows) ob)
      [1 := P_memref (hai_reply model n rows (word_of_int (total_ms (te_t1 env) - total_ms (te_t0 env)))
                        @ drop (8 + unat n) ob) (of_nat (8 + unat n))])"
proof -
  have n: "unat n \<le> 32" using assms(2) by (simp add: word_le_nat_alt)
  let ?reps = "if reps = 0 then 1 else reps"
  have "0 < ?reps" by (simp add: word_gt_0)
  from qai_hai_infer_block [OF assms(1,2) this model, of rows "te_pred env" "te_t0 env" "te_t1 env" 0]
  have kernel: "qai_hai_infer model rows n ?reps (te_pred env) 0 (te_t0 env) (te_t1 env) =
      Inr (TEE_SUCCESS, map (\<lambda>i. decision (hai_exact model (hai_row rows i))) [0..<unat n] @
        drop (unat n) (te_pred env), word_of_int (total_ms (te_t1 env) - total_ms (te_t0 env)))"
    using rows range env n by simp
  have need: "unat (12 + n * 16 * 4 :: u32) = 12 + 64 * unat n" "unat (8 + n :: u32) = 8 + unat n"
    using unat_need_hai [of n] assms(2) by auto
  have size: "unat (of_nat (length ob) :: u64) = length ob"
    "unat (of_nat (12 + 4 * length rows) :: u64) = 12 + 4 * length rows"
    by (intro unat_size; use out n rows in simp)+
  have last: "ucast (8 + n) = (of_nat (8 + unat n) :: u64)"
    by (rule word_unat_eq_iff [THEN iffD2], subst unat_size) (use n need in simp_all)
  have fits: "\<not> (of_nat (12 + 4 * length rows) :: u64) < ucast (12 + n * 16 * 4)"
    "\<not> (of_nat (length ob) :: u64) < ucast (8 + n)"
    by (simp_all only: word_less_nat_alt unat_ucast_size size need, (use out rows in linarith)+)
  have read: "mem_read (hai_request model n reps rows) 0 12 =
      Inr (enc_qai_hai_infer_in \<lparr>hi_model = model, hi_n = n, hi_reps = reps\<rparr>)"
    by (simp add: mem_read_ok)
  let ?ms = "word_of_int (total_ms (te_t1 env) - total_ms (te_t0 env))"
  let ?ob = "enc_qai_hai_infer_out \<lparr>ho_tee_elapsed_ms = ?ms, ho_n = n\<rparr> @ drop 8 ob"
  have body: "mem_write ob 0 (enc_qai_hai_infer_out h) = Inr (enc_qai_hai_infer_out h @ drop 8 ob)" for h
    using out by (simp add: mem_write_ok)
  have "cmd_hai_infer env types_in_out (plain_params (hai_request model n reps rows) ob) =
    cbind (mem_write ?ob 8
      (map (\<lambda>i. decision (hai_exact model (hai_row rows i))) [0..<unat n])) (\<lambda>b.
    Inr (TEE_SUCCESS, (plain_params (hai_request model n reps rows) ob)
      [1 := P_memref b (of_nat (8 + unat n))]))"
    using kernel n env size fits
    by (cases "reps = 0") (simp_all add: cmd_hai_infer_def read body dec_enc_qai_hai_infer_in mem_read_ok last Let_def
        del: of_nat_add of_int_diff)
  then show ?thesis
    using out by (simp add: mem_write_ok hai_reply_def add.commute del: of_nat_add of_int_diff)
qed

text \<open>Claim C10: a HAI request of 1 to 32 rows for one of the two models, with room for the reply, in which for the
  pairwise model no feature exceeds \<open>2 ^ 24\<close> in absolute value (with larger ones its arithmetic can
  overflow, the other model takes any), is answered with success, a reply made of
  the elapsed time, the row count and for every row the decision of its exact score, the rest of
  the output buffer untouched, and the size set to what was written; a repetition count of
  zero is served as one, and the count does not change the decisions.\<close>

theorem hai_command_end_to_end:
  assumes "0 < n" "n \<le> QAI_HAI_MAX_ROWS"
    and model: "model = QAI_HAI_MODEL_TINYML \<or> model = QAI_HAI_MODEL_PAIRWISE_FAKE"
    and rows: "length rows = unat n * 16"
    and range: "\<forall>i<unat n. hai_in_range model (hai_row rows i)"
    and out: "8 + unat n \<le> length ob" "length ob < 2 ^ 64"
    and env: "tt_millis (te_t0 env) < 1000" "tt_millis (te_t1 env) < 1000" "length (te_pred env) = 32"
  shows "cmd_hai_infer env types_in_out (plain_params (hai_request model n reps rows) ob) =
    Inr (TEE_SUCCESS, (plain_params (hai_request model n reps rows) ob)
      [1 := P_memref (hai_reply model n rows (word_of_int (total_ms (te_t1 env) - total_ms (te_t0 env)))
                        @ drop (8 + unat n) ob) (of_nat (8 + unat n))])"
  using assms by (rule hai_command_value)

theorem hai_command_end_to_end_witness:
  "cmd_hai_infer some_env types_in_out (plain_params (hai_request 0 1 0 (replicate 16 1000)) (replicate 10 7)) =
    Inr (TEE_SUCCESS, (plain_params (hai_request 0 1 0 (replicate 16 1000)) (replicate 10 7))
      [1 := P_memref ([3, 0, 0, 0, 1, 0, 0, 0, 1, 7]) 9])"
proof -
  have d: "hai_exact 0 (hai_row (replicate 16 1000) 0) = 4295000" by code_simp
  show ?thesis
    using hai_command_end_to_end [of 1 0 "replicate 16 1000" "replicate 10 7" some_env 0]
    by (simp add: hai_in_range_def some_env_def hai_reply_def total_ms_def decision_def d upt_rec
        enc_qai_hai_infer_out_def le32_def)
qed

definition kernel_request :: "u32 \<Rightarrow> u32 \<Rightarrow> u32 \<Rightarrow> u32 list \<Rightarrow> u32 list \<Rightarrow> u8 list" where
  "kernel_request n_ref n_query nq ref query =
     enc_qai_kernel_block_in \<lparr>kb_n_ref = n_ref, kb_n_query = n_query, kb_n_qubits = nq\<rparr> @
     bytes_of_words (ref @ query)"

lemma kernel_request_parts [simp]:
  "take 12 (kernel_request n_ref n_query nq ref query) =
     enc_qai_kernel_block_in \<lparr>kb_n_ref = n_ref, kb_n_query = n_query, kb_n_qubits = nq\<rparr>"
  "drop 12 (kernel_request n_ref n_query nq ref query) = bytes_of_words (ref @ query)"
  "length (kernel_request n_ref n_query nq ref query) = 12 + 4 * (length ref + length query)"
  by (simp_all add: kernel_request_def)

lemma bytes_of_words_prefix: "bytes_of_words (words_of_bytes bs) = take (4 * (length bs div 4)) bs"
proof (induction bs rule: words_of_bytes.induct)
  case (1 a b c d bs)
  then show ?case by (simp add: le32_un_le32 take_Cons' del: un_le32.simps)
qed simp_all

lemma drop_bytes_of_words: "drop (4 * n) (bytes_of_words ws) = bytes_of_words (drop n ws)"
proof (induction ws arbitrary: n)
  case (Cons w ws)
  then show ?case by (cases n) simp_all
qed simp

text \<open>Replacing the first words of an array seen through a cast pointer replaces those bytes.\<close>

lemma overwrite_words:
  assumes "length es \<le> length (words_of_bytes b)"
  shows "bytes_of_words (es @ drop (length es) (words_of_bytes b)) @ drop (4 * length (words_of_bytes b)) b
    = bytes_of_words es @ drop (4 * length es) b"
proof -
  let ?L = "4 * (length b div 4)"
  have "4 * length es \<le> ?L" using assms by (simp add: length_words_of_bytes)
  then have "drop (4 * length es) (take ?L b) @ drop ?L b = drop (4 * length es) b"
    by (metis append_take_drop_id drop_append diff_is_0_eq' drop0 length_take min_absorb2
        times_div_less_eq_dividend)
  then show ?thesis
    by (simp add: drop_bytes_of_words [symmetric] bytes_of_words_prefix length_words_of_bytes)
qed

lemma block_entries_append:
  assumes "length ref = r * (2 * nq)" and "0 < r"
  shows "map (block_entry F nq (ref @ query) r query reps) [0..<m] =
     map (block_entry F nq ref r query reps) [0..<m]"
proof (rule map_cong [OF refl])
  fix p
  have "Suc (p mod r) * (2 * nq) \<le> r * (2 * nq)"
    using assms(2) by (intro mult_le_mono1) (simp add: Suc_leI)
  then have "feat F (ref @ query) (2 * nq) (p mod r) = feat F ref (2 * nq) (p mod r)"
    using assms(1) by (simp add: feat_def)
  then show "block_entry F nq (ref @ query) r query reps p = block_entry F nq ref r query reps p"
    by (simp add: block_entry_def)
qed

lemma kernel_block_value:
  fixes F :: "'d fp"
  assumes st: "kstore st" and nq: "nq = 8 \<or> nq = 16" and reps: "0 < reps" "reps \<le> 3"
    and n: "0 < n_ref" "n_ref \<le> 32" "0 < n_query" "n_query \<le> 32" "n_ref * n_query \<le> 32"
    and len: "length ref = unat n_ref * (2 * unat nq)" "length query = unat n_query * (2 * unat nq)"
    and out: "8 + 4 * (unat n_query * unat n_ref) \<le> length ob" "length ob < 2 ^ 64"
    and env: "tt_millis (te_t0 env) < 1000" "tt_millis (te_t1 env) < 1000"
  defines "ps \<equiv> plain_params (kernel_request n_ref n_query nq ref query) ob"
    and "es \<equiv> map (block_entry F (unat nq) ref (unat n_ref) query (unat reps))
      [0..<unat n_query * unat n_ref]"
  shows "\<exists>st'. cmd_kernel_block_reps F env types_in_out ps reps st =
    Inr (TEE_SUCCESS, ps[1 := P_memref
      (enc_qai_kernel_block_out \<lparr>ko_tee_elapsed_ms = word_of_int (total_ms (te_t1 env) - total_ms (te_t0 env)),
         ko_n_out = n_ref * n_query\<rparr> @ bytes_of_words es @ drop (8 + 4 * (unat n_query * unat n_ref)) ob)
      (of_nat (8 + 4 * (unat n_query * unat n_ref)))], st') \<and> kstore st'"
proof -
  let ?k = "words_of_bytes (drop 8 ob)"
  have r0: "0 < unat n_ref" using n(1) by (simp add: word_less_nat_alt)
  note need = unat_need_kernel [OF n(2,4) nq]
  have u: "unat n_ref \<le> 32" "unat n_query \<le> 32" using n by (simp_all add: word_le_nat_alt)
  then have small: "unat n_query * unat n_ref \<le> 32 * 32" by (intro mult_le_mono)
  have k: "unat n_query * unat n_ref \<le> length ?k"
    using out by (simp add: length_words_of_bytes less_eq_div_iff_mult_less_eq)
  have "\<exists>st'. qai_fidelity_kernel_block F (ref @ query) n_ref query n_query reps nq ?k 0
      (te_t0 env) (te_t1 env) st =
    Inr (TEE_SUCCESS, es @ drop (unat n_query * unat n_ref) ?k,
      word_of_int (total_ms (te_t1 env) - total_ms (te_t0 env)), st') \<and> kstore st'"
    unfolding es_def block_entries_append [OF len(1) r0, symmetric]
    by (rule kernel_block_correct) (use assms k in simp_all)
  then obtain st' where kernel: "qai_fidelity_kernel_block F (ref @ query) n_ref query n_query reps nq ?k 0
      (te_t0 env) (te_t1 env) st =
    Inr (TEE_SUCCESS, es @ drop (unat n_query * unat n_ref) ?k,
      word_of_int (total_ms (te_t1 env) - total_ms (te_t0 env)), st')" and st': "kstore st'" by blast
  have size: "unat (of_nat (length ob) :: u64) = length ob"
    "unat (of_nat (12 + 4 * (length ref + length query)) :: u64) = 12 + 4 * (length ref + length query)"
    by (intro unat_size; use out u nq len in auto)+
  have fits: "\<not> (of_nat (12 + 4 * (length ref + length query)) :: u64) <
      ucast (12 + (n_ref + n_query) * (nq * 2) * 4)"
    "\<not> (of_nat (length ob) :: u64) < ucast (8 + n_ref * n_query * 4)"
    using out by (simp_all only: word_less_nat_alt unat_ucast_size size need, simp_all add: len algebra_simps)
  have last: "ucast (8 + n_ref * n_query * 4) = (of_nat (8 + 4 * (unat n_query * unat n_ref)) :: u64)"
    by (rule word_unat_eq_iff [THEN iffD2], subst unat_size) (use need small in simp_all)
  have read: "mem_read (kernel_request n_ref n_query nq ref query) 0 12 =
      Inr (enc_qai_kernel_block_in \<lparr>kb_n_ref = n_ref, kb_n_query = n_query, kb_n_qubits = nq\<rparr>)"
    by (simp add: mem_read_ok)
  have es: "length es = unat n_query * unat n_ref" by (simp add: es_def)
  have body: "mem_write ob 8 (bytes_of_words (es @ drop (unat n_query * unat n_ref) ?k)) =
      Inr (take 8 ob @ bytes_of_words es @ drop (8 + 4 * (unat n_query * unat n_ref)) ob)"
    using overwrite_words [of es "drop 8 ob"] k out
    by (simp add: mem_write_ok es length_words_of_bytes add.commute del: bytes_of_words_append)
  have hdr: "mem_write (take 8 ob @ t) 0 (enc_qai_kernel_block_out h) = Inr (enc_qai_kernel_block_out h @ t)"
    for t h using out by (simp add: mem_write_ok)
  show ?thesis
    using kernel st' nq fits need(3) len(1) size
    by (auto simp: ps_def cmd_kernel_block_reps_def read body hdr last dec_enc_qai_kernel_block_in Let_def
        simp del: of_nat_add of_int_diff bytes_of_words_append)
qed

text \<open>Claim C9: a well-formed kernel-block request (at most 32 pairs, 8 or 16 qubits) is answered with
  success and a reply of the elapsed time, the number of pairs and the kernel values of all
  pairs in query-major order, whatever earlier requests left in the state vector; bytes behind
  the reply stay as they were, and the size is set to what was written.\<close>

theorem kernel_block_command:
  fixes F :: "'d fp"
  assumes st: "kstore st" and nq: "nq = 8 \<or> nq = 16" and reps: "0 < reps" "reps \<le> 3"
    and n: "0 < n_ref" "n_ref \<le> 32" "0 < n_query" "n_query \<le> 32" "n_ref * n_query \<le> 32"
    and len: "length ref = unat n_ref * (2 * unat nq)" "length query = unat n_query * (2 * unat nq)"
    and out: "8 + 4 * (unat n_query * unat n_ref) \<le> length ob" "length ob < 2 ^ 64"
    and env: "tt_millis (te_t0 env) < 1000" "tt_millis (te_t1 env) < 1000"
  defines "ps \<equiv> plain_params (kernel_request n_ref n_query nq ref query) ob"
    and "es \<equiv> map (block_entry F (unat nq) ref (unat n_ref) query (unat reps))
      [0..<unat n_query * unat n_ref]"
  shows "\<exists>st'. cmd_kernel_block_reps F env types_in_out ps reps st =
    Inr (TEE_SUCCESS, ps[1 := P_memref
      (enc_qai_kernel_block_out \<lparr>ko_tee_elapsed_ms = word_of_int (total_ms (te_t1 env) - total_ms (te_t0 env)),
         ko_n_out = n_ref * n_query\<rparr> @ bytes_of_words es @ drop (8 + 4 * (unat n_query * unat n_ref)) ob)
      (of_nat (8 + 4 * (unat n_query * unat n_ref)))], st') \<and> kstore st'"
  unfolding ps_def es_def using assms(1-15) by (rule kernel_block_value)

theorem kernel_block_command_witness:
  "\<exists>st'. cmd_kernel_block_reps int_fp some_env types_in_out
      (plain_params (kernel_request 1 1 8 (replicate 16 1) (replicate 16 2)) (replicate 12 7)) 3 used_store =
    Inr (TEE_SUCCESS, (plain_params (kernel_request 1 1 8 (replicate 16 1) (replicate 16 2)) (replicate 12 7))
      [1 := P_memref ([3, 0, 0, 0, 1, 0, 0, 0] @
         le32 (block_entry int_fp 8 (replicate 16 1) 1 (replicate 16 2) 3 0)) 12], st') \<and> kstore st'"
  using kernel_block_command [OF kstore_used, of 8 3 1 1 "replicate 16 1" "replicate 16 2"
      "replicate 12 7" some_env int_fp]
  by (simp add: some_env_def total_ms_def upt_rec enc_qai_kernel_block_out_def le32_def)

section \<open>Rejections\<close>

text \<open>A command identifier the application does not know, and parameter types that no
  command accepts, are answered with \<open>TEE_ERROR_BAD_PARAMETERS\<close> without reading a parameter and
  with every buffer and the fidelity state unchanged.\<close>

theorem invoke_rejects:
  assumes "TA_QAI_CMD_QMOC_BLOCK < cmd_id \<or>
    types \<notin> {types_in_out, TEE_PARAM_TYPES 6 0 0 0, TEE_PARAM_TYPES 1 6 0 0}"
  shows "TA_InvokeCommandEntryPoint F env fr cmd_id types params st =
    Inr (TEE_ERROR_BAD_PARAMETERS, params, st)"
  using assms
proof
  assume "TA_QAI_CMD_QMOC_BLOCK < cmd_id"
  then have "cmd_id \<noteq> 0" "cmd_id \<noteq> 1" "cmd_id \<noteq> 2" "cmd_id \<noteq> 3" "cmd_id \<noteq> 4" "cmd_id \<noteq> 5"
    "cmd_id \<noteq> 6" "cmd_id \<noteq> 7" "cmd_id \<noteq> 8"
    by (auto simp: word_less_nat_alt)
  then show ?thesis by (simp add: TA_InvokeCommandEntryPoint_def)
next
  assume "types \<notin> {types_in_out, TEE_PARAM_TYPES 6 0 0 0, TEE_PARAM_TYPES 1 6 0 0}"
  then show ?thesis
    by (simp add: TA_InvokeCommandEntryPoint_def with_state_def cmd_infer_plain_def
        cmd_infer_protected_def cmd_get_info_def cmd_bench_fidelity_def cmd_kernel_block_def
        cmd_qmoc_block_def cmd_kernel_block_reps_def cmd_hai_infer_def)
qed

theorem invoke_rejects_witness:
  "TA_InvokeCommandEntryPoint int_fp some_env some_frame 9 types_in_out [] used_store =
    Inr (TEE_ERROR_BAD_PARAMETERS, [], used_store)"
  by (rule invoke_rejects) simp

end
