(* ===== verification/Qai_Client.thy ===== *)
theory Qai_Client
  imports Qai_Commands
begin

text \<open>
  The demonstration client of \<open>host/main.c\<close>: the inference in the normal world, the calls that
  send features to the trusted application in the clear or encrypted, option parsing and the
  program's main function. \<open>TEEC_InvokeCommand\<close> is a parameter, a function of the command, the
  parameter types, the parameters and the state of the other side; the lemmas instantiate it
  with a session whose invocations reach \<open>TA_InvokeCommandEntryPoint\<close>. The clock readings, the
  results of opening the session and the bytes of an uninitialised local are arguments.
\<close>

type_synonym 's teec_invoke =
  "u32 \<Rightarrow> u32 \<Rightarrow> tee_param list \<Rightarrow> 's \<Rightarrow> (u32 \<times> tee_param list \<times> 's) res"

section \<open>Inference in the normal world\<close>

definition g_prot_key :: "u8 list" where
  "g_prot_key =
     [0x51, 0x41, 0x49, 0x2d, 0x4f, 0x50, 0x54, 0x45,
      0x45, 0x2d, 0x50, 0x49, 0x35, 0x2d, 0x4b, 0x31]"

definition ree_baseline_w :: "int list" where
  "ree_baseline_w = [1, 1, 1, 1]"

definition ree_tinyml_w :: "int list" where
  "ree_tinyml_w = [441, 775, - 300, 232]"

definition ree_tinyml_bias :: int where
  "ree_tinyml_bias = 12"

definition ree_theta :: "int list" where
  "ree_theta = [99, 146, - 64, 47]"

definition ree_gamma :: "int list" where
  "ree_gamma = [5, - 2, 2, 0]"

definition ree_qai_bias :: int where
  "ree_qai_bias = - 1"

lemmas ree_params = ree_baseline_w_def ree_tinyml_w_def ree_tinyml_bias_def ree_theta_def
  ree_gamma_def ree_qai_bias_def

definition now_us :: "int \<Rightarrow> int \<Rightarrow> int \<Rightarrow> int res" where
  "now_us rc tv_sec tv_nsec =
     (if rc \<noteq> 0 then Inr 0
      else cbind (i64 (tv_sec * 1000000)) (\<lambda>us. i64 (us + tv_nsec sdiv 1000)))"

definition xor_crypt :: "u8 list \<Rightarrow> u32 \<Rightarrow> u8 list res" where
  "xor_crypt buf len =
     cfor [0..<unat len]
       (\<lambda>i buf. cbind (aread buf i) (\<lambda>b. cbind (aread g_prot_key (i mod QAI_PROT_KEY_LEN))
          (\<lambda>k. awrite buf i (b XOR k))))
       buf"

definition ree_infer :: "u32 \<Rightarrow> u32 list \<Rightarrow> u32 \<Rightarrow> qai_output res" where
  "ree_infer model x n =
     (let lim = if n < QAI_FEATURE_COUNT then n else QAI_FEATURE_COUNT in
      cbind
       (if model = QAI_MODEL_BASELINE then
          cbind (cfor [0..<unat lim]
                   (\<lambda>i acc. cbind (term64 ree_baseline_w x i) (\<lambda>p. i64 (acc + p))) 0)
                (\<lambda>acc. Inr (to_i32 acc))
        else if model = QAI_MODEL_TINYML then
          cbind (cfor [0..<unat lim]
                   (\<lambda>i acc. cbind (term64 ree_tinyml_w x i) (\<lambda>p. i64 (acc + p))) ree_tinyml_bias)
                (\<lambda>acc. cbind (i64_div acc QAI_FP_SCALE) (\<lambda>q. Inr (to_i32 q)))
        else
          cbind (cfor [0..<unat lim]
                   (\<lambda>i acc. cbind (term64 ree_theta x i) (\<lambda>p. i64 (acc + p))) ree_qai_bias)
          (\<lambda>acc. cbind (cfor [0..<unat lim]
                   (\<lambda>i acc. cbind (pair64 ree_gamma x (unat lim) i) (\<lambda>p. i64 (acc + p))) acc)
          (\<lambda>acc. cbind (i64_div acc QAI_FP_SCALE) (\<lambda>q. Inr (to_i32 q)))))
      (\<lambda>score. cbind (if score < 0 then i32 (- score) else Inr score) (\<lambda>conf.
        Inr \<lparr>qo_prediction = (if score > 0 then 1 else 0), qo_confidence = word_of_int conf,
             qo_score = word_of_int score, qo_model_id = model\<rparr>)))"

section \<open>Calls into the trusted application\<close>

definition cmd_for_model :: "u32 \<Rightarrow> u32" where
  "cmd_for_model model =
     (if model = QAI_MODEL_TINYML then TA_QAI_CMD_INFER_TINYML
      else if model = QAI_MODEL_QAI then TA_QAI_CMD_INFER_QAI
      else TA_QAI_CMD_INFER_BASELINE)"

definition tee_infer ::
  "'s teec_invoke \<Rightarrow> u32 \<Rightarrow> bool \<Rightarrow> qai_input \<Rightarrow> int \<Rightarrow> int \<Rightarrow> 's \<Rightarrow>
   (int \<times> qai_output \<times> int \<times> 's) res" where
  "tee_infer TEEC_InvokeCommand model protected_mode qin t0 t1 s =
     cbind
      (if protected_mode then
         let n = qi_num_features qin in
         cbind (mem_read (bytes_of_words (qi_features qin)) 0 (4 * unat n)) (\<lambda>bs.
         cbind (mem_write (replicate 64 0) 0 bs) (\<lambda>cipher.
         cbind (xor_crypt cipher (n * 4)) (\<lambda>cipher.
         Inr (TA_QAI_CMD_INFER_PROTECTED, enc_qai_protected_input
           \<lparr>qp_num_features = n, qp_model_id = model, qp_cipher = cipher\<rparr>))))
       else Inr (cmd_for_model model, enc_qai_input qin)) (\<lambda>(cmd, ib).
     cbind (TEEC_InvokeCommand cmd types_in_out (plain_params ib (replicate sizeof_qai_output 0)) s)
       (\<lambda>(res, params, s).
     cbind (i64 (t1 - t0)) (\<lambda>elapsed_us.
     cbind (memref_of params 1) (\<lambda>(buf, sz).
     Inr (if res \<noteq> TEE_SUCCESS then - 1 else 0, dec_qai_output buf, elapsed_us, s)))))"

definition tee_info :: "'s teec_invoke \<Rightarrow> 's \<Rightarrow> (int \<times> u8 list \<times> 's) res" where
  "tee_info TEEC_InvokeCommand s =
     cbind (TEEC_InvokeCommand TA_QAI_CMD_GET_INFO
       (TEE_PARAM_TYPES TEE_PARAM_TYPE_MEMREF_OUTPUT TEE_PARAM_TYPE_NONE TEE_PARAM_TYPE_NONE
          TEE_PARAM_TYPE_NONE)
       [P_memref (replicate sizeof_qai_info 0) (of_nat sizeof_qai_info), P_none, P_none, P_none] s)
       (\<lambda>(res, params, s).
     cbind (memref_of params 0) (\<lambda>(buf, sz).
     Inr (if res \<noteq> TEE_SUCCESS then - 1 else 0, buf, s)))"

text \<open>Which of the context and the session are open afterwards.\<close>

record teec_handles =
  th_ctx :: bool
  th_sess :: bool

definition tee_open :: "u32 \<Rightarrow> u32 \<Rightarrow> teec_handles \<Rightarrow> int \<times> teec_handles" where
  "tee_open init_res open_res h =
     (if init_res \<noteq> TEE_SUCCESS then (- 1, h)
      else let h = h\<lparr>th_ctx := True\<rparr> in
        if open_res \<noteq> TEE_SUCCESS then (- 1, h\<lparr>th_ctx := False\<rparr>)
        else (0, h\<lparr>th_sess := True\<rparr>))"

section \<open>Options\<close>

record host_opts =
  op_model :: u32
  op_protected :: bool
  op_bench :: bool
  op_ree :: bool
  op_info :: bool
  op_kernel :: bool
  op_bench_n :: int

definition default_opts :: host_opts where
  "default_opts = \<lparr>op_model = QAI_MODEL_BASELINE, op_protected = False, op_bench = False,
     op_ree = False, op_info = False, op_kernel = False, op_bench_n = 100\<rparr>"

definition isspace :: "char \<Rightarrow> bool" where
  "isspace c \<longleftrightarrow> (let k = of_char c :: nat in k = 32 \<or> 9 \<le> k \<and> k \<le> 13)"

fun digits_from :: "int \<Rightarrow> string \<Rightarrow> int" where
  "digits_from acc [] = acc"
| "digits_from acc (c # cs) =
     (let k = of_char c :: int in
      if 48 \<le> k \<and> k \<le> 57 then digits_from (10 * acc + (k - 48)) cs else acc)"

text \<open>\<open>atoi\<close>; a value outside \<open>int\<close> is undefined.\<close>

definition atoi :: "string \<Rightarrow> int res" where
  "atoi s =
     i32 (case dropWhile isspace s of
       [] \<Rightarrow> 0
     | c # cs \<Rightarrow> if c = CHR ''-'' then - digits_from 0 cs
                 else if c = CHR ''+'' then digits_from 0 cs else digits_from 0 (c # cs))"

definition takes_count :: "string list \<Rightarrow> bool" where
  "takes_count rest \<longleftrightarrow> (case rest of [] \<Rightarrow> False | a # _ \<Rightarrow> a = [] \<or> hd a \<noteq> CHR ''-'')"

text \<open>The options, or the status with which the program ends at once.\<close>

fun parse_args :: "string list \<Rightarrow> host_opts \<Rightarrow> (int + host_opts) res" where
  "parse_args [] opts = Inr (Inr opts)"
| "parse_args (a # rest) opts =
     (if a = ''--baseline'' then parse_args rest (opts\<lparr>op_model := QAI_MODEL_BASELINE\<rparr>)
      else if a = ''--tinyml'' then parse_args rest (opts\<lparr>op_model := QAI_MODEL_TINYML\<rparr>)
      else if a = ''--qai'' then parse_args rest (opts\<lparr>op_model := QAI_MODEL_QAI\<rparr>)
      else if a = ''--protected'' then parse_args rest (opts\<lparr>op_protected := True\<rparr>)
      else if a = ''--ree-compare'' then parse_args rest (opts\<lparr>op_ree := True\<rparr>)
      else if a = ''--info'' then parse_args rest (opts\<lparr>op_info := True\<rparr>)
      else if a = ''--kernel-bench'' then
        (if takes_count rest then
           cbind (atoi (hd rest)) (\<lambda>k.
           parse_args (tl rest) (opts\<lparr>op_kernel := True, op_bench_n := k\<rparr>))
         else parse_args rest (opts\<lparr>op_kernel := True\<rparr>))
      else if a = ''--bench'' then
        (if takes_count rest then
           cbind (atoi (hd rest)) (\<lambda>k.
           parse_args (tl rest) (opts\<lparr>op_bench := True, op_bench_n := k\<rparr>))
         else parse_args rest (opts\<lparr>op_bench := True\<rparr>))
      else if a = ''-h'' \<or> a = ''--help'' then Inr (Inl 0)
      else Inr (Inl 1))"

section \<open>The program\<close>

definition demo_input :: qai_input where
  "demo_input = \<lparr>qi_num_features = QAI_FEATURE_COUNT, qi_features = [10, 20, - 5, 3] @ replicate 12 0\<rparr>"

datatype report =
    R_info "u8 list"
  | R_kernel "u8 list" int
  | R_average int int qai_output
  | R_ree qai_output int
  | R_result qai_output int bool

definition run_kernel ::
  "'s teec_invoke \<Rightarrow> (nat \<Rightarrow> int) \<Rightarrow> int \<Rightarrow> 's \<Rightarrow> (int \<times> report list \<times> 's) res" where
  "run_kernel TEEC_InvokeCommand clock bench_n s =
     cbind (TEEC_InvokeCommand TA_QAI_CMD_BENCH_FIDELITY
       (TEE_PARAM_TYPES TEE_PARAM_TYPE_VALUE_INPUT TEE_PARAM_TYPE_MEMREF_OUTPUT TEE_PARAM_TYPE_NONE
          TEE_PARAM_TYPE_NONE)
       [P_value (word_of_int bench_n) 0,
        P_memref (replicate sizeof_qai_fidelity_bench 0) (of_nat sizeof_qai_fidelity_bench),
        P_none, P_none] s) (\<lambda>(res, params, s).
     if res \<noteq> TEE_SUCCESS then Inr (1, [], s)
     else cbind (memref_of params 1) (\<lambda>(kb, sz).
       cbind (i64 (clock 1 - clock 0)) (\<lambda>wall. Inr (0, [R_kernel kb wall], s))))"

text \<open>
  One round of the benchmark: the inference in the application, then the one in the normal
  world into the same local. A failed round ends the loop, which the first component records.
\<close>

definition bench_round ::
  "'s teec_invoke \<Rightarrow> (nat \<Rightarrow> int) \<Rightarrow> host_opts \<Rightarrow> nat \<Rightarrow> int \<times> int \<times> int \<times> qai_output \<times> 's \<Rightarrow>
   (int \<times> int \<times> int \<times> qai_output \<times> 's) res" where
  "bench_round TEEC_InvokeCommand clock opts i = (\<lambda>(rc, total, ree_sum, tmp, s).
     if rc \<noteq> 0 then Inr (rc, total, ree_sum, tmp, s)
     else
       cbind (tee_infer TEEC_InvokeCommand (op_model opts) (op_protected opts) demo_input
                (clock (4 * i)) (clock (4 * i + 1)) s) (\<lambda>(rc, tmp, tus, s).
       if rc \<noteq> 0 then Inr (rc, total, ree_sum, tmp, s)
       else
         cbind (i64 (total + tus)) (\<lambda>total.
         cbind (ree_infer (op_model opts) (qi_features demo_input) (qi_num_features demo_input)) (\<lambda>tmp.
         cbind (i64 (clock (4 * i + 3) - clock (4 * i + 2))) (\<lambda>d.
         cbind (i64 (ree_sum + d)) (\<lambda>ree_sum. Inr (rc, total, ree_sum, tmp, s)))))))"

definition run_bench ::
  "'s teec_invoke \<Rightarrow> (nat \<Rightarrow> int) \<Rightarrow> host_opts \<Rightarrow> qai_output \<Rightarrow> 's \<Rightarrow> (int \<times> report list \<times> 's) res" where
  "run_bench TEEC_InvokeCommand clock opts tmp s =
     cbind (cfor [0..<nat (op_bench_n opts)] (bench_round TEEC_InvokeCommand clock opts)
              (0, 0, 0, tmp, s)) (\<lambda>(rc, total, ree_sum, tmp, s).
     if rc \<noteq> 0 then Inr (1, [], s)
     else
       cbind (i64_div total (op_bench_n opts)) (\<lambda>avg.
       cbind (i64_div ree_sum (op_bench_n opts)) (\<lambda>ree_avg.
       Inr (0, [R_average avg ree_avg tmp], s))))"

definition run_single ::
  "'s teec_invoke \<Rightarrow> (nat \<Rightarrow> int) \<Rightarrow> host_opts \<Rightarrow> 's \<Rightarrow> (int \<times> report list \<times> 's) res" where
  "run_single TEEC_InvokeCommand clock opts s =
     cbind (if op_ree opts then
              cbind (ree_infer (op_model opts) (qi_features demo_input) (qi_num_features demo_input))
                (\<lambda>ree_out. cbind (i64 (clock 1 - clock 0)) (\<lambda>us. Inr [R_ree ree_out us]))
            else Inr []) (\<lambda>shown.
     cbind (tee_infer TEEC_InvokeCommand (op_model opts) (op_protected opts) demo_input
              (clock 2) (clock 3) s) (\<lambda>(rc, out, elapsed, s).
     if rc \<noteq> 0 then Inr (1, shown, s)
     else Inr (0, shown @ [R_result out elapsed (op_protected opts)], s)))"

definition host_main ::
  "'s teec_invoke \<Rightarrow> u32 \<Rightarrow> u32 \<Rightarrow> (nat \<Rightarrow> int) \<Rightarrow> qai_output \<Rightarrow> string list \<Rightarrow> 's \<Rightarrow>
   (int \<times> report list \<times> teec_handles \<times> 's) res" where
  "host_main TEEC_InvokeCommand init_res open_res clock tmp args s =
     (let h = \<lparr>th_ctx = False, th_sess = False\<rparr> in
      cbind (parse_args args default_opts) (\<lambda>parsed. case parsed of
        Inl status \<Rightarrow> Inr (status, [], h, s)
      | Inr opts \<Rightarrow>
          (case tee_open init_res open_res h of (rc, h) \<Rightarrow>
           if rc \<noteq> 0 then Inr (1, [], h, s)
           else
             cbind (if op_info opts then
                      cbind (tee_info TEEC_InvokeCommand s) (\<lambda>(rc, info, s).
                      Inr (0, if rc = 0 then [R_info info] else [], s))
                    else if op_kernel opts then run_kernel TEEC_InvokeCommand clock (op_bench_n opts) s
                    else if op_bench opts then run_bench TEEC_InvokeCommand clock opts tmp s
                    else run_single TEEC_InvokeCommand clock opts s) (\<lambda>(status, shown, s).
             Inr (status, shown, h\<lparr>th_sess := False, th_ctx := False\<rparr>, s)))))"

section \<open>A session of the application\<close>

text \<open>
  The other side as the client sees it: a count of the invocations so far, which selects the
  clock readings and the stack contents of each command, and the state of the fidelity kernel.
\<close>

definition qai_session ::
  "'d fp \<Rightarrow> (nat \<Rightarrow> ta_env) \<Rightarrow> (nat \<Rightarrow> prot_frame) \<Rightarrow> (nat \<times> 'd kstate) teec_invoke" where
  "qai_session F envs frames cmd types params = (\<lambda>(k, st).
     cbind (TA_InvokeCommandEntryPoint F (envs k) (frames k) cmd types params st)
       (\<lambda>(res, params, st). Inr (res, params, (Suc k, st))))"

section \<open>Lemmas\<close>

lemma ree_tables [simp]:
  "g_prot_key = qai_prot_key" "ree_baseline_w = qai_baseline_w" "ree_tinyml_w = qai_tinyml_w"
  "ree_tinyml_bias = qai_tinyml_bias" "ree_theta = qai_theta" "ree_gamma = qai_gamma"
  "ree_qai_bias = qai_qai_bias"
  by (simp_all add: g_prot_key_def qai_prot_key_def ree_params qai_params)

lemma xor_crypt_eq: "xor_crypt = qai_xor_crypt"
  by (intro ext) (simp add: xor_crypt_def qai_xor_crypt_def)

lemma ree_tail:
  "cbind (if score < 0 then i32 (- score) else Inr score) (\<lambda>conf.
     Inr \<lparr>qo_prediction = (if score > 0 then 1 else 0), qo_confidence = word_of_int conf,
          qo_score = word_of_int score, qo_model_id = m\<rparr>) = fill_result score 0 m"
  by (simp add: fill_result_def abs_i32_def)

lemma prefix_sum_linear: "linear_score qai_baseline_w 0 x m = prefix_sum x m" if "m \<le> 4"
proof -
  have "(\<Sum>i\<leftarrow>[0..<m]. qai_baseline_w ! i * sint (x ! i)) = (\<Sum>i\<leftarrow>[0..<m]. sint (x ! i))"
    using that by (intro arg_cong [where f = sum_list] map_cong refl) (simp add: nth_bounds(1))
  then show ?thesis by (simp add: linear_score_def prefix_sum_def)
qed

text \<open>
  The normal-world inference accumulates the baseline score in 64 bits where the application
  uses 32: it is defined wherever the application's is, with the same answer.
\<close>

lemma ree_infer_baseline:
  assumes "unat (feature_limit n) \<le> length x" "qai_infer_baseline x n = Inr out"
  shows "ree_infer QAI_MODEL_BASELINE x n = Inr out"
proof -
  let ?m = "unat (feature_limit n)"
  have m: "?m \<le> 4" by (rule feature_limit_le)
  have "cfor [0..<?m] (\<lambda>i acc. cbind (term64 qai_baseline_w x i) (\<lambda>p. i64 (acc + p))) 0 =
      Inr (linear_score qai_baseline_w 0 x ?m)"
    using m assms(1) nth_bounds(1) by (intro linear_loop(1)) auto
  then have loop: "cfor [0..<?m] (\<lambda>i acc. cbind (term64 qai_baseline_w x i) (\<lambda>p. i64 (acc + p))) 0 =
      Inr (prefix_sum x ?m)" by (simp add: prefix_sum_linear [OF m])
  have "in_i32 (prefix_sum x ?m)" "fill_result (prefix_sum x ?m) 0 QAI_MODEL_BASELINE = Inr out"
    using assms(2) unfolding qai_infer_baseline_value [OF assms(1)] by (auto split: if_splits)
  with loop show ?thesis
    unfolding ree_infer_def Let_def feature_limit_def [symmetric] ree_tail
    by (simp add: to_i32_id)
qed

lemma ree_infer_others:
  "ree_infer QAI_MODEL_TINYML x n = qai_infer_tinyml x n"
  "ree_infer QAI_MODEL_QAI x n = qai_infer_qai x n"
  unfolding ree_infer_def qai_infer_tinyml_def qai_infer_qai_def Let_def
    feature_limit_def [symmetric] ree_tail
  by (simp_all add: cbind_assoc qai_params(6,10))

lemma ree_infer_agrees:
  assumes "unat n \<le> length x"
    and "infer_switch model \<lparr>qi_num_features = n, qi_features = x\<rparr> = Inr (Some out)"
  shows "ree_infer model x n = Inr out"
  using assms(2) ree_infer_baseline [of n x out] feature_limit_le_n [of n] assms(1)
  by (auto simp: infer_switch_def ree_infer_others cmonad split: if_splits)

lemma write_output_plain:
  "write_output (plain_params ib (replicate 16 b)) out =
     Inr (TEE_SUCCESS, (plain_params ib (replicate 16 b))[1 := P_memref (enc_qai_output out) 16])"
  by (simp add: write_output_def memref_of_def mem_write_ok)

lemma session_plain:
  assumes "length feats = 16" "0 < n" "n \<le> 16"
    and "infer_switch model \<lparr>qi_num_features = n, qi_features = feats\<rparr> = Inr (Some out)"
  defines "ps \<equiv> plain_params (enc_qai_input \<lparr>qi_num_features = n, qi_features = feats\<rparr>) (replicate 16 0)"
  shows "qai_session F envs frames (cmd_for_model model) types_in_out ps (k, st) =
    Inr (TEE_SUCCESS, ps[1 := P_memref (enc_qai_output out) 16], (Suc k, st))"
proof -
  have "model = 0 \<or> model = 1 \<or> model = 2"
    using assms(4) by (auto simp: infer_switch_def split: if_splits)
  then show ?thesis
    using assms(4) unfolding ps_def
    by (auto simp: qai_session_def TA_InvokeCommandEntryPoint_def cmd_for_model_def with_state_def
        cmd_infer_plain_value [OF assms(1-3)] write_output_plain)
qed

text \<open>Encrypting the features that are present and leaving zeros behind them.\<close>

lemma protected_cipher:
  assumes "length feats = 16" "0 < n" "n \<le> QAI_MAX_FEATURES"
  defines "padded \<equiv> take (unat n) feats @ replicate (16 - unat n) 0"
  shows "\<exists>cipher. cbind (mem_read (bytes_of_words feats) 0 (4 * unat n)) (\<lambda>bs.
      cbind (mem_write (replicate 64 0) 0 bs) (\<lambda>c. xor_crypt c (n * 4))) = Inr cipher \<and>
    qai_xor_crypt (bytes_of_words padded) (n * 4) = Inr cipher \<and> length padded = 16"
proof -
  have n: "unat (n * 4) = 4 * unat n" "unat n \<le> 16"
    using feat_bytes_le [of n] assms(2,3) by auto
  have "bytes_of_words padded = take (4 * unat n) (bytes_of_words feats) @ replicate (64 - 4 * unat n) 0"
    using n(2) by (simp add: padded_def take_bytes_of_words bytes_of_zeros right_diff_distrib')
  then have "cbind (mem_read (bytes_of_words feats) 0 (4 * unat n)) (\<lambda>bs.
      cbind (mem_write (replicate 64 0) 0 bs) (\<lambda>c. xor_crypt c (n * 4))) =
    qai_xor_crypt (bytes_of_words padded) (n * 4)"
    using n assms(1) by (simp add: mem_read_ok mem_write_ok xor_crypt_eq)
  moreover have "length padded = 16" using n assms(1) by (simp add: padded_def)
  ultimately show ?thesis
    using n by (simp add: qai_xor_crypt_value)
qed

lemma session_protected:
  assumes "length feats = 16" "0 < n" "n \<le> 16"
    and "infer_switch model \<lparr>qi_num_features = n, qi_features = feats\<rparr> = Inr (Some out)"
    and "qai_xor_crypt (bytes_of_words (take (unat n) feats @ replicate (16 - unat n) 0)) (n * 4) = Inr cipher"
  defines "ps \<equiv> plain_params (enc_qai_protected_input
    \<lparr>qp_num_features = n, qp_model_id = model, qp_cipher = cipher\<rparr>) (replicate 16 0)"
  shows "qai_session F envs frames TA_QAI_CMD_INFER_PROTECTED types_in_out ps (k, st) =
    Inr (TEE_SUCCESS, ps[1 := P_memref (enc_qai_output out) 16], (Suc k, st))"
proof -
  let ?padded = "take (unat n) feats @ replicate (16 - unat n) 0"
  have n: "unat n \<le> 16" using assms(3) by (simp add: word_le_nat_alt)
  then have len: "length ?padded = 16" using assms(1) by simp
  have "infer_switch model \<lparr>qi_num_features = n,
      qi_features = take (unat n) ?padded @ replicate (16 - unat n) 0\<rparr> =
    infer_switch model \<lparr>qi_num_features = n, qi_features = feats\<rparr>"
    using n assms(1) by (intro infer_switch_cong) (simp_all add: nth_append)
  then show ?thesis
    using assms(4) unfolding ps_def
    by (simp add: qai_session_def TA_InvokeCommandEntryPoint_def
        cmd_infer_protected_value [OF len assms(2,3,5)] write_output_plain)
qed

lemma tee_infer_value:
  assumes "length feats = 16" "0 < n" "n \<le> QAI_MAX_FEATURES"
    and "infer_switch model \<lparr>qi_num_features = n, qi_features = feats\<rparr> = Inr (Some out)"
    and "in_i64 (t1 - t0)"
  shows "tee_infer (qai_session F envs frames) model protected_mode
      \<lparr>qi_num_features = n, qi_features = feats\<rparr> t0 t1 (k, st) = Inr (0, out, t1 - t0, (Suc k, st))"
proof (cases protected_mode)
  case False
  then show ?thesis
    using assms(5) by (simp add: tee_infer_def session_plain [OF assms(1-4)] memref_of_def dec_enc_qai_output)
next
  case True
  obtain cipher where c: "cbind (mem_read (bytes_of_words feats) 0 (4 * unat n)) (\<lambda>bs.
      cbind (mem_write (replicate 64 0) 0 bs) (\<lambda>c. xor_crypt c (n * 4))) = Inr cipher"
    and p: "qai_xor_crypt (bytes_of_words (take (unat n) feats @ replicate (16 - unat n) 0)) (n * 4) = Inr cipher"
    using protected_cipher [OF assms(1-3)] by blast
  have enc: "cbind (mem_read (bytes_of_words feats) 0 (4 * unat n)) (\<lambda>bs.
      cbind (mem_write (replicate 64 0) 0 bs) (\<lambda>c. cbind (xor_crypt c (n * 4)) f)) = f cipher"
    for f :: "u8 list \<Rightarrow> 'x res"
    using arg_cong [OF c, of "\<lambda>m. cbind m f"] by (simp add: cbind_assoc)
  show ?thesis
    using assms(5) True
    by (simp add: tee_infer_def Let_def enc session_protected [OF assms(1-4) p] memref_of_def dec_enc_qai_output)
qed

section \<open>Properties of the client\<close>

text \<open>Claim C13: whenever the application's kernel of the chosen model is defined on the features, a
  client's call returns success with exactly that kernel's answer, whether the features travel
  in the clear or encrypted, and the inference in the normal world gives the same answer.\<close>

theorem client_agrees_with_application:
  assumes "length feats = 16" "0 < n" "n \<le> QAI_MAX_FEATURES"
    and "infer_switch model \<lparr>qi_num_features = n, qi_features = feats\<rparr> = Inr (Some out)"
    and "in_i64 (t1 - t0)"
  shows "tee_infer (qai_session F envs frames) model protected_mode
      \<lparr>qi_num_features = n, qi_features = feats\<rparr> t0 t1 (k, st) = Inr (0, out, t1 - t0, (Suc k, st)) \<and>
    ree_infer model feats n = Inr out"
proof -
  have "unat n \<le> length feats" using assms(1,3) by (simp add: word_le_nat_alt)
  then show ?thesis using tee_infer_value [OF assms] ree_infer_agrees assms(4) by blast
qed

theorem client_agrees_with_application_witness:
  "tee_infer (qai_session int_fp (\<lambda>k. some_env) (\<lambda>k. some_frame)) 1 True
      \<lparr>qi_num_features = 3, qi_features = replicate 16 100\<rparr> 50 90 (7, used_store) =
    Inr (0, \<lparr>qo_prediction = 1, qo_confidence = 91, qo_score = 91, qo_model_id = 1\<rparr>, 40, (8, used_store)) \<and>
   ree_infer 1 (replicate 16 100) 3 =
    Inr \<lparr>qo_prediction = 1, qo_confidence = 91, qo_score = 91, qo_model_id = 1\<rparr>"
proof -
  have "infer_switch 1 \<lparr>qi_num_features = 3, qi_features = replicate 16 100\<rparr> =
    Inr (Some \<lparr>qo_prediction = 1, qo_confidence = 91, qo_score = 91, qo_model_id = 1\<rparr>)"
    by code_simp
  from client_agrees_with_application [OF _ _ _ this, of 90 50 int_fp "\<lambda>k. some_env" "\<lambda>k. some_frame" True 7 used_store]
  show ?thesis by (simp add: in_i64_def)
qed

text \<open>What the three models answer for the features the program sends.\<close>

definition demo_answer :: "u32 \<Rightarrow> qai_output" where
  "demo_answer model =
     classified (if model = QAI_MODEL_BASELINE then 28 else if model = QAI_MODEL_TINYML then 22 else 5) model"

lemma demo_switch:
  assumes "model \<le> QAI_MODEL_QAI"
  shows "infer_switch model demo_input = Inr (Some (demo_answer model))"
proof -
  have "unat model \<le> 2" using assms by (simp add: word_le_nat_alt)
  then have "unat model = unat (0 :: u32) \<or> unat model = unat (1 :: u32) \<or> unat model = unat (2 :: u32)"
    by auto
  then have "model = 0 \<or> model = 1 \<or> model = 2" by (simp only: word_unat_eq_iff)
  moreover have "infer_switch 0 demo_input = Inr (Some (demo_answer 0))" by code_simp
  moreover have "infer_switch 1 demo_input = Inr (Some (demo_answer 1))" by code_simp
  moreover have "infer_switch 2 demo_input = Inr (Some (demo_answer 2))" by code_simp
  ultimately show ?thesis by auto
qed

lemma demo_infer:
  assumes "model \<le> QAI_MODEL_QAI"
  shows "ree_infer model (qi_features demo_input) (qi_num_features demo_input) = Inr (demo_answer model)"
    and "in_i64 (t1 - t0) \<Longrightarrow> tee_infer (qai_session F envs frames) model prot demo_input t0 t1 (k, st) =
      Inr (0, demo_answer model, t1 - t0, (Suc k, st))"
proof -
  have d: "demo_input = \<lparr>qi_num_features = 4, qi_features = qi_features demo_input\<rparr>"
    "qi_num_features demo_input = 4" "length (qi_features demo_input) = 16"
    by (simp_all add: demo_input_def)
  have sw: "infer_switch model \<lparr>qi_num_features = 4, qi_features = qi_features demo_input\<rparr> =
      Inr (Some (demo_answer model))"
    using demo_switch [OF assms] d(1) by simp
  show "ree_infer model (qi_features demo_input) (qi_num_features demo_input) = Inr (demo_answer model)"
    unfolding d(2) by (rule ree_infer_agrees [OF _ sw]) (simp add: d(3))
  show "tee_infer (qai_session F envs frames) model prot demo_input t0 t1 (k, st) =
      Inr (0, demo_answer model, t1 - t0, (Suc k, st))" if "in_i64 (t1 - t0)"
    by (subst d(1)) (rule tee_infer_value [OF d(3) _ _ sw that], simp_all)
qed

definition known_model :: "(int + host_opts) res \<Rightarrow> bool" where
  "known_model m \<longleftrightarrow> (\<forall>opts. m = Inr (Inr opts) \<longrightarrow> op_model opts \<le> QAI_MODEL_QAI)"

lemma known_model_intros:
  "(c \<Longrightarrow> known_model x) \<Longrightarrow> (\<not> c \<Longrightarrow> known_model y) \<Longrightarrow> known_model (if c then x else y)"
  "(\<And>k. m = Inr k \<Longrightarrow> known_model (f k)) \<Longrightarrow> known_model (cbind (m :: int res) f)"
  "known_model (Inr (Inl status))"
  by (auto simp: known_model_def cmonad)

lemma known_model_parse_args: "op_model opts \<le> QAI_MODEL_QAI \<Longrightarrow> known_model (parse_args args opts)"
proof (induction args opts rule: parse_args.induct)
  case (1 opts)
  then show ?case by (simp add: known_model_def)
next
  case (2 a rest opts)
  show ?case
    unfolding parse_args.simps
    by (intro known_model_intros; rule "2.IH", assumption+) (use 2(11) in simp_all)
qed

lemma parse_args_model:
  "parse_args args default_opts = Inr (Inr opts) \<Longrightarrow> op_model opts \<le> QAI_MODEL_QAI"
  using known_model_parse_args [of default_opts args] by (simp add: known_model_def default_opts_def)

definition span_sum :: "(nat \<Rightarrow> int) \<Rightarrow> nat \<Rightarrow> nat \<Rightarrow> int" where
  "span_sum clock off n = (\<Sum>i\<leftarrow>[0..<n]. clock (4 * i + off + 1) - clock (4 * i + off))"

lemma span_sum_simps [simp]:
  "span_sum clock off 0 = 0"
  "span_sum clock off (Suc n) = span_sum clock off n + (clock (4 * n + off + 1) - clock (4 * n + off))"
  by (simp_all add: span_sum_def)

text \<open>Readings of a monotonic clock in a 64-bit integer: no sum of spans overflows.\<close>

definition clock_ok :: "(nat \<Rightarrow> int) \<Rightarrow> bool" where
  "clock_ok clock \<longleftrightarrow> (\<forall>i. 0 \<le> clock i \<and> clock i \<le> clock (Suc i) \<and> clock i < 2 ^ 63)"

lemma clock_mono: "clock_ok clock \<Longrightarrow> i \<le> j \<Longrightarrow> clock i \<le> clock j"
  by (rule lift_Suc_mono_le) (simp_all add: clock_ok_def)

lemma clock_span:
  assumes "clock_ok clock" "i \<le> j"
  shows "in_i64 (clock j - clock i)"
proof -
  have "0 \<le> clock i" "clock j < 2 ^ 63" using assms(1) by (simp_all add: clock_ok_def)
  then show ?thesis using clock_mono [OF assms] by (simp add: in_i64_def)
qed

lemma span_sum_bound:
  assumes "clock_ok clock"
  shows "0 \<le> span_sum clock off n" "span_sum clock off n \<le> clock (4 * n + off) - clock off"
proof -
  show "0 \<le> span_sum clock off n"
    by (induction n) (use clock_mono [OF assms] in simp_all)
  show "span_sum clock off n \<le> clock (4 * n + off) - clock off"
  proof (induction n)
    case (Suc n)
    have "clock (4 * n + off + 1) \<le> clock (4 * Suc n + off)" by (rule clock_mono [OF assms]) simp
    then show ?case using Suc by simp
  qed simp
qed

lemma span_sum_fits: "clock_ok clock \<Longrightarrow> in_i64 (span_sum clock off n)"
  using span_sum_bound [of clock off n] clock_span [of clock off "4 * n + off"] by (simp add: in_i64_def)

lemma bench_loop:
  assumes model: "op_model opts \<le> QAI_MODEL_QAI" and c: "clock_ok clock"
  shows "cfor [0..<n] (bench_round (qai_session F envs frames) clock opts) (0, 0, 0, tmp, (k, st)) =
    Inr (0, span_sum clock 0 n, span_sum clock 2 n, (if n = 0 then tmp else demo_answer (op_model opts)), (k + n, st))"
proof (induction n)
  case (Suc n)
  have s: "in_i64 (span_sum clock 0 n + (clock (Suc (4 * n)) - clock (4 * n)))"
    "in_i64 (span_sum clock 2 n + (clock (4 * n + 3) - clock (4 * n + 2)))"
    using span_sum_fits [OF c, of 0 "Suc n"] span_sum_fits [OF c, of 2 "Suc n"] by (simp_all add: numeral_3_eq_3)
  have d: "in_i64 (clock (Suc (4 * n)) - clock (4 * n))" "in_i64 (clock (4 * n + 3) - clock (4 * n + 2))"
    by (rule clock_span [OF c]; simp)+
  show ?case
    using Suc s d
    by (simp add: cfor_append upt_Suc_append bench_round_def demo_infer [OF model] numeral_3_eq_3 del: upt_Suc)
qed simp

text \<open>Claim C30: with arguments that parse, the benchmark option, a non-negative count and neither the information nor the
  kernel option, which take precedence, the program, over a session of the application and with a
  monotonic clock whose readings fit 64 bits, ends with status 0 after
  exactly that many invocations, reports the truncated averages of the measured spans and the
  model's answer for its features, and has closed the session and the context; with a count of
  zero it divides by zero instead.\<close>

theorem bench_program:
  assumes "parse_args args default_opts = Inr (Inr opts)"
    and "op_bench opts" "\<not> op_info opts" "\<not> op_kernel opts"
    and "op_bench_n opts = int n" "clock_ok clock"
  shows "host_main (qai_session F envs frames) TEE_SUCCESS TEE_SUCCESS clock tmp args (k, st) =
    (if n = 0 then Inl Div_by_zero
     else Inr (0, [R_average (span_sum clock 0 n sdiv int n) (span_sum clock 2 n sdiv int n)
                    (demo_answer (op_model opts))],
            \<lparr>th_ctx = False, th_sess = False\<rparr>, (k + n, st)))"
proof -
  have "op_model opts \<le> QAI_MODEL_QAI"
    using assms(1) by (rule parse_args_model)
  note loop = bench_loop [OF this assms(6), of n F envs frames tmp k st]
  have avg: "in_i64 (span_sum clock off n sdiv int n)" if "0 < n" for off
  proof -
    have "\<bar>span_sum clock off n sdiv int n\<bar> * 1 \<le> \<bar>span_sum clock off n sdiv int n\<bar> * int n"
      using that by (intro mult_left_mono) simp_all
    also have "\<dots> \<le> \<bar>span_sum clock off n\<bar>" using that by (intro abs_sdiv_mult_le) simp
    finally show ?thesis
      using span_sum_fits [OF assms(6), of off n] span_sum_bound(1) [OF assms(6), of off n] by (simp add: in_i64_def abs_le_iff)
  qed
  show ?thesis
    using assms(1-5) avg [of 0] avg [of 2]
    by (auto simp: host_main_def Let_def tee_open_def run_bench_def loop i64_div_def)
qed

theorem bench_program_witness:
  "host_main (qai_session int_fp (\<lambda>k. some_env) (\<lambda>k. some_frame)) TEE_SUCCESS TEE_SUCCESS
      (\<lambda>i. int (min i 100)) (demo_answer 0) [''--tinyml'', ''--protected'', ''--bench'', ''2''] (0, used_store) =
    Inr (0, [R_average 1 1 \<lparr>qo_prediction = 1, qo_confidence = 22, qo_score = 22, qo_model_id = 1\<rparr>],
      \<lparr>th_ctx = False, th_sess = False\<rparr>, (2, used_store))"
proof -
  have p: "parse_args [''--tinyml'', ''--protected'', ''--bench'', ''2''] default_opts =
      Inr (Inr (default_opts\<lparr>op_model := 1, op_protected := True, op_bench := True, op_bench_n := 2\<rparr>))"
    by code_simp
  have c: "clock_ok (\<lambda>i. int (min i 100))" by (auto simp: clock_ok_def min_def)
  have "span_sum (\<lambda>i. int (min i 100)) 0 2 = 2" "span_sum (\<lambda>i. int (min i 100)) 2 2 = 2"
    by code_simp+
  then show ?thesis
    using bench_program [OF p _ _ _ _ c, of 2 int_fp "\<lambda>k. some_env" "\<lambda>k. some_frame"
        "demo_answer 0" 0 used_store]
    by (simp add: default_opts_def demo_answer_def classified_def)
qed

lemma single_program:
  assumes "parse_args args default_opts = Inr (Inr opts)"
    and "\<not> op_bench opts" "\<not> op_info opts" "\<not> op_kernel opts"
    and "in_i64 (clock 1 - clock 0)" "in_i64 (clock 3 - clock 2)"
  shows "host_main (qai_session F envs frames) TEE_SUCCESS TEE_SUCCESS clock tmp args (k, st) =
    Inr (0, (if op_ree opts then [R_ree (demo_answer (op_model opts)) (clock 1 - clock 0)] else []) @
          [R_result (demo_answer (op_model opts)) (clock 3 - clock 2) (op_protected opts)],
        \<lparr>th_ctx = False, th_sess = False\<rparr>, (Suc k, st))"
  using assms
  by (simp add: host_main_def Let_def tee_open_def run_single_def demo_infer [OF parse_args_model [OF assms(1)]])

text \<open>Whatever the other side answers, a run that ends leaves neither a session nor a context open.\<close>

lemma host_main_closes:
  assumes "host_main TEEC_InvokeCommand init_res open_res clock tmp args s = Inr (status, shown, h, s')"
  shows "\<not> th_ctx h \<and> \<not> th_sess h"
proof (cases "parse_args args default_opts")
  case (Inr parsed)
  then show ?thesis
    using assms
    by (cases parsed) (auto simp: host_main_def Let_def tee_open_def cbind_Inr_iff simp del: if_split split: if_split_asm)
qed (use assms in \<open>simp add: host_main_def\<close>)

end
