(* ===== verification/Qai_Batch.thy ===== *)
theory Qai_Batch
  imports Qai_Client
begin

text \<open>
  The two batch clients of \<open>host/\<close>: \<open>hai_infer_client.c\<close> classifies the rows of a file and
  \<open>hai_kernel.c\<close> computes a kernel matrix, both in chunks of at most 32 rows that reuse one input
  and one output buffer. What they rely on is stated as two locales over the invocation, which
  are interpreted on a session of the application.
\<close>

abbreviation (input) CHUNK :: u32 where "CHUNK \<equiv> 32"

section \<open>Classifying rows\<close>

lemma chunk_step:
  fixes n pos :: u32
  assumes "pos < n"
  defines "m \<equiv> (if n - pos > CHUNK then CHUNK else n - pos)"
  shows "unat m = min 32 (unat n - unat pos)" "0 < unat m" "unat (pos + m) = unat pos + unat m"
    "pos + m \<le> n"
proof -
  have d: "unat (n - pos) = unat n - unat pos" using assms(1) by (simp add: unat_sub)
  have lt: "unat pos < unat n" "unat n < 2 ^ 32"
    using assms(1) unsigned_less [of n] by (simp_all add: word_less_nat_alt)
  show c: "unat m = min 32 (unat n - unat pos)"
    by (simp add: m_def word_less_nat_alt d)
  then show "0 < unat m" using lt by simp
  have "unat pos + unat m < 2 ^ 32" "unat pos + unat m \<le> unat n" using c lt by simp_all
  then show p: "unat (pos + m) = unat pos + unat m"
    by (simp add: unat_word_ariths(1))
  with \<open>unat pos + unat m \<le> unat n\<close> show "pos + m \<le> n" by (simp add: word_le_nat_alt)
qed

text \<open>
  The loop over the chunks. The input reference covers the header and the rows of the chunk, the
  output reference the header and one byte per row; what the application leaves in the output
  reference is what the buffer holds afterwards. The row index \<open>done * QAI_HAI_FEAT\<close> is computed
  in \<open>uint32_t\<close>.
\<close>

function hai_chunks ::
  "'s teec_invoke \<Rightarrow> u32 \<Rightarrow> u32 \<Rightarrow> u32 list \<Rightarrow> u32 \<Rightarrow> u32 \<Rightarrow> u64 \<Rightarrow> u8 list \<Rightarrow> u8 list \<Rightarrow> u8 list \<Rightarrow> 's \<Rightarrow>
   (int \<times> u64 \<times> u8 list \<times> 's) res" where
  "hai_chunks TEEC_InvokeCommand model reps rows n pos tee_ms inbuf outbuf pred s =
     (if pos < n then
        let m = (if n - pos > CHUNK then CHUNK else n - pos);
            isize = sizeof_qai_hai_infer_in + unat m * QAI_HAI_FEAT * 4;
            osize = sizeof_qai_hai_infer_out + unat m in
        cbind (mem_write inbuf 0 (enc_qai_hai_infer_in \<lparr>hi_model = model, hi_n = m, hi_reps = reps\<rparr>)) (\<lambda>inbuf.
        cbind (mem_read (bytes_of_words rows) (4 * unat (pos * 16)) (unat m * QAI_HAI_FEAT * 4)) (\<lambda>bs.
        cbind (mem_write inbuf sizeof_qai_hai_infer_in bs) (\<lambda>inbuf.
        cbind (mem_read inbuf 0 isize) (\<lambda>ib.
        cbind (mem_read outbuf 0 osize) (\<lambda>ob.
        cbind (TEEC_InvokeCommand TA_QAI_CMD_HAI_INFER types_in_out (plain_params ib ob) s) (\<lambda>(res, params, s).
        cbind (memref_of params 1) (\<lambda>(ob, sz).
        cbind (mem_write outbuf 0 ob) (\<lambda>outbuf.
        if res \<noteq> TEE_SUCCESS then Inr (1, tee_ms, pred, s)
        else
          cbind (mem_read outbuf sizeof_qai_hai_infer_out (unat m)) (\<lambda>ps.
          cbind (mem_write pred (unat pos) ps) (\<lambda>pred.
          hai_chunks TEEC_InvokeCommand model reps rows n (pos + m) (tee_ms + ucast (u32_at outbuf 0))
            inbuf outbuf pred s))))))))))
      else Inr (0, tee_ms, pred, s))"
  by pat_completeness auto

termination
proof (relation "measure (\<lambda>(_, _, _, _, n, pos, _). unat n - unat pos)")
  fix n pos m :: u32
  assume "pos < n" "m = (if n - pos > CHUNK then CHUNK else n - pos)"
  then have "unat pos < unat n" "unat (pos + m) = unat pos + unat m" "0 < unat m"
    using chunk_step [of pos n] by (simp_all add: word_less_nat_alt)
  then have "unat n - unat (pos + m) < unat n - unat pos" by simp
  then show "((TEEC, model, reps, rows, n, pos + m, t), (TEEC, model, reps, rows, n, pos, t'))
      \<in> measure (\<lambda>(_, _, _, _, n, pos, _). unat n - unat pos)" for TEEC model reps rows t t'
    by simp
qed simp

declare hai_chunks.simps [simp del]

text \<open>
  The program after the parsing of its numbers: \<open>features\<close> is what the feature file holds, if it
  can be opened. The result is the exit status and the bytes written to the output file.
\<close>

definition hai_main ::
  "'s teec_invoke \<Rightarrow> u32 \<Rightarrow> u32 \<Rightarrow> bool \<Rightarrow> u8 list option \<Rightarrow> u8 list \<Rightarrow> u8 list \<Rightarrow> u32 \<Rightarrow> u32 \<Rightarrow> u32 \<Rightarrow> 's \<Rightarrow>
   (int \<times> u8 list option \<times> 's) res" where
  "hai_main TEEC_InvokeCommand init_res open_res alloc_ok features inbuf outbuf model n reps s =
     (if reps = 0 then Inr (2, None, s)
      else if \<not> alloc_ok then Inr (1, None, s)
      else case features of
        None \<Rightarrow> Inr (1, None, s)
      | Some bytes \<Rightarrow>
          if length bytes div 4 < unat n * QAI_HAI_FEAT then Inr (1, None, s)
          else if fst (tee_open init_res open_res \<lparr>th_ctx = False, th_sess = False\<rparr>) \<noteq> 0 then Inr (1, None, s)
          else
            let rows = take (unat n * QAI_HAI_FEAT) (words_of_bytes bytes) in
            cbind (hai_chunks TEEC_InvokeCommand model reps rows n 0 0 inbuf outbuf (replicate (unat n) 0) s)
              (\<lambda>(status, tee_ms, pred, s).
            if status \<noteq> 0 then Inr (status, None, s) else Inr (0, Some pred, s)))"

lemma map_upt_append: "a \<le> b \<Longrightarrow> b \<le> c \<Longrightarrow> map f [a..<b] @ map f [b..<c] = map f [a..<c]"
  by (metis le_add_diff_inverse map_append upt_add_eq_append)

lemma mem_read_prefix: "length x = k \<Longrightarrow> mem_read (x @ t) 0 k = Inr x"
  by (simp add: mem_read_def)

lemma mem_read_words:
  "a + k \<le> length ws \<Longrightarrow> mem_read (bytes_of_words ws) (4 * a) (k * 4) = Inr (bytes_of_words (take k (drop a ws)))"
  using take_bytes_of_words [of k "drop a ws"] drop_bytes_of_words [of a ws]
  by (simp add: mem_read_ok mult.commute)

text \<open>One turn of the loop, when the application answers with a header and one byte per row.\<close>

lemma hai_chunks_answered:
  assumes "pos < n" "m = (if n - pos > CHUNK then CHUNK else n - pos)" "unat m \<le> 32"
    and off: "unat (pos * 16) = unat pos * 16"
    and fit: "(unat pos + unat m) * 16 \<le> length rows" "unat pos + unat m \<le> length pred"
    and bufs: "length inbuf = 2060" "length outbuf = 40"
    and reply: "length hdr = 8" "length ds = unat m"
      "TEEC TA_QAI_CMD_HAI_INFER types_in_out (plain_params (hai_request model m reps
         (take (unat m * 16) (drop (unat pos * 16) rows))) (take (8 + unat m) outbuf)) s =
       Inr (TEE_SUCCESS, [p, P_memref (hdr @ ds) sz, P_none, P_none], s')"
  shows "\<exists>ms ib ob. length ib = 2060 \<and> length ob = 40 \<and>
    hai_chunks TEEC model reps rows n pos tee_ms inbuf outbuf pred s =
    hai_chunks TEEC model reps rows n (pos + m) ms ib ob
      (take (unat pos) pred @ ds @ drop (unat pos + unat m) pred) s'"
proof -
  let ?chunk = "take (unat m * 16) (drop (unat pos * 16) rows)"
  let ?h = "enc_qai_hai_infer_in \<lparr>hi_model = model, hi_n = m, hi_reps = reps\<rparr>"
  let ?in = "hai_request model m reps ?chunk @ drop (12 + unat m * 64) inbuf"
  let ?out = "hdr @ ds @ drop (8 + unat m) outbuf"
  have len: "length ?chunk = unat m * 16" using fit(1) by simp
  have bs: "mem_read (bytes_of_words rows) (4 * unat (pos * 16)) (64 * unat m) = Inr (bytes_of_words ?chunk)"
    using mem_read_words [of "unat pos * 16" "unat m * 16" rows] fit(1) by (simp add: off mult.commute add_mult_distrib)
  have w: "mem_write inbuf 0 ?h = Inr (?h @ drop 12 inbuf)"
    "mem_write (?h @ drop 12 inbuf) 12 (bytes_of_words ?chunk) = Inr ?in"
    "mem_write outbuf 0 (hdr @ ds) = Inr ?out"
    "mem_write pred (unat pos) ds = Inr (take (unat pos) pred @ ds @ drop (unat pos + unat m) pred)"
    using bufs assms(3) len fit(2) reply(1,2) by (simp_all add: mem_write_ok hai_request_def algebra_simps)
  have r: "mem_read ?in 0 (12 + 64 * unat m) = Inr (hai_request model m reps ?chunk)"
    "mem_read outbuf 0 (8 + unat m) = Inr (take (8 + unat m) outbuf)"
    "mem_read ?out 8 (unat m) = Inr ds"
    using bufs assms(3) len reply(1,2) by (simp_all add: mem_read_ok)
  have "hai_chunks TEEC model reps rows n pos tee_ms inbuf outbuf pred s =
    hai_chunks TEEC model reps rows n (pos + m) (tee_ms + ucast (u32_at ?out 0)) ?in ?out
      (take (unat pos) pred @ ds @ drop (unat pos + unat m) pred) s'"
    using assms(1) reply(3)
    by (subst hai_chunks.simps) (simp add: Let_def assms(2) [symmetric] w bs r memref_of_def)
  moreover have "length ?in = 2060" "length ?out = 40" using bufs assms(3) len reply(1,2) by simp_all
  ultimately show ?thesis by blast
qed

lemma tee_open_ok: "tee_open TEE_SUCCESS TEE_SUCCESS h = (0, \<lparr>th_ctx = True, th_sess = True\<rparr>)"
  by (simp add: tee_open_def)

section \<open>What the row client relies on\<close>

locale row_service =
  fixes invoke :: "'s teec_invoke" and ready :: "'s \<Rightarrow> bool" and calls :: "'s \<Rightarrow> nat"
    and accepts :: "u32 \<Rightarrow> u32 list \<Rightarrow> bool" and decide :: "u32 \<Rightarrow> u32 list \<Rightarrow> u8"
  assumes rows_reply: "ready s \<Longrightarrow> 0 < n \<Longrightarrow> n \<le> QAI_HAI_MAX_ROWS \<Longrightarrow> length rows = unat n * 16 \<Longrightarrow>
      \<forall>i<unat n. accepts model (hai_row rows i) \<Longrightarrow> length ob = 8 + unat n \<Longrightarrow>
      \<exists>ms s' p. ready s' \<and> calls s' = Suc (calls s) \<and>
        invoke TA_QAI_CMD_HAI_INFER types_in_out (plain_params (hai_request model n reps rows) ob) s =
        Inr (TEE_SUCCESS, [p, P_memref (enc_qai_hai_infer_out \<lparr>ho_tee_elapsed_ms = ms, ho_n = n\<rparr> @
          map (\<lambda>i. decide model (hai_row rows i)) [0..<unat n]) (of_nat (8 + unat n)), P_none, P_none], s')"
begin

text \<open>The decisions of a chunk are stored behind those of the earlier ones.\<close>

lemma chunk_turn:
  fixes pos n :: u32
  assumes "ready s" "pos < n" "unat n < 2 ^ 28" "length rows = unat n * 16"
    and acc: "\<forall>i<unat n. accepts model (hai_row rows i)"
    and bufs: "length inbuf = 2060" "length outbuf = 40" "length pred = unat n"
  defines "m \<equiv> (if n - pos > CHUNK then CHUNK else n - pos)"
  shows "\<exists>s' ms inbuf' outbuf'. ready s' \<and> calls s' = Suc (calls s) \<and>
    length inbuf' = 2060 \<and> length outbuf' = 40 \<and>
    hai_chunks invoke model reps rows n pos tee_ms inbuf outbuf pred s =
    hai_chunks invoke model reps rows n (pos + m) ms inbuf' outbuf'
      (take (unat pos) pred @ map (\<lambda>i. decide model (hai_row rows i)) [unat pos..<unat pos + unat m] @
       drop (unat pos + unat m) pred) s'"
proof -
  note step = chunk_step [OF assms(2), folded m_def]
  have lt: "unat pos < unat n" using assms(2) by (simp add: word_less_nat_alt)
  have m: "unat m \<le> 32" "unat pos + unat m \<le> unat n" "0 < m" "m \<le> 32"
    using step(1,2) lt by (simp_all add: word_less_nat_alt word_le_nat_alt)
  have off: "unat (pos * 16) = unat pos * 16"
    using lt assms(3) by (simp add: unat_word_ariths(2))
  have fit: "(unat pos + unat m) * 16 \<le> length rows" "unat pos + unat m \<le> length pred"
    using m(2) assms(4) bufs(3) by simp_all
  let ?chunk = "take (unat m * 16) (drop (unat pos * 16) rows)"
  have row: "hai_row ?chunk i = hai_row rows (unat pos + i)" if "i < unat m" for i
  proof -
    have "16 \<le> unat m * 16 - i * 16" using that by simp
    then show ?thesis by (simp add: hai_row_def drop_take algebra_simps)
  qed
  have ds: "map (\<lambda>i. decide model (hai_row ?chunk i)) [0..<unat m] =
      map (\<lambda>i. decide model (hai_row rows i)) [unat pos..<unat pos + unat m]"
    by (rule nth_equalityI) (simp_all add: row)
  have "length ?chunk = unat m * 16" "\<forall>i<unat m. accepts model (hai_row ?chunk i)"
    "length (take (8 + unat m) outbuf) = 8 + unat m"
    using fit acc row m bufs(2) by simp_all
  from rows_reply [OF assms(1) m(3,4) this, of reps]
  obtain ms s' p where s': "ready s'" "calls s' = Suc (calls s)"
    and inv: "invoke TA_QAI_CMD_HAI_INFER types_in_out (plain_params (hai_request model m reps ?chunk)
        (take (8 + unat m) outbuf)) s =
      Inr (TEE_SUCCESS, [p, P_memref (enc_qai_hai_infer_out \<lparr>ho_tee_elapsed_ms = ms, ho_n = m\<rparr> @
        map (\<lambda>i. decide model (hai_row rows i)) [unat pos..<unat pos + unat m]) (of_nat (8 + unat m)),
        P_none, P_none], s')"
    unfolding ds by blast
  from hai_chunks_answered [where TEEC = invoke, OF assms(2) m_def [THEN meta_eq_to_obj_eq] m(1) off fit bufs(1,2) _ _ inv, of tee_ms] s'
  show ?thesis by fastforce
qed

lemma all_chunks:
  assumes "ready s" "pos \<le> n" "unat n < 2 ^ 28" "length rows = unat n * 16"
    and "\<forall>i<unat n. accepts model (hai_row rows i)"
    and "length inbuf = 2060" "length outbuf = 40" "length pred = unat n"
  shows "\<exists>ms s'. hai_chunks invoke model reps rows n pos tee_ms inbuf outbuf pred s =
      Inr (0, ms, take (unat pos) pred @ map (\<lambda>i. decide model (hai_row rows i)) [unat pos..<unat n], s') \<and>
    ready s' \<and> calls s' = calls s + (unat n - unat pos + 31) div 32"
  using assms
proof (induction "unat n - unat pos" arbitrary: pos tee_ms inbuf outbuf pred s rule: less_induct)
  case less
  show ?case
  proof (cases "pos < n")
    case False
    then have "pos = n" using less.prems(2) by simp
    then show ?thesis using less.prems(1,8) by (subst hai_chunks.simps) simp
  next
    case True
    let ?m = "if n - pos > CHUNK then CHUNK else n - pos"
    note step = chunk_step [OF True]
    have lt: "unat pos < unat n" using True by (simp add: word_less_nat_alt)
    then have le: "unat pos + unat ?m \<le> unat n" using step(1) by simp
    let ?pred = "take (unat pos) pred @ map (\<lambda>i. decide model (hai_row rows i)) [unat pos..<unat pos + unat ?m] @
       drop (unat pos + unat ?m) pred"
    obtain s1 ms inb outb where 1: "ready s1" "calls s1 = Suc (calls s)" "length inb = 2060" "length outb = 40"
      and turn: "hai_chunks invoke model reps rows n pos tee_ms inbuf outbuf pred s =
        hai_chunks invoke model reps rows n (pos + ?m) ms inb outb ?pred s1"
      using chunk_turn [OF less.prems(1) True less.prems(3-8), of reps tee_ms] by blast
    have small: "unat n - unat (pos + ?m) < unat n - unat pos" using step lt by simp
    have len: "length ?pred = unat n" using le less.prems(8) by simp
    obtain ms' s2 where rest: "hai_chunks invoke model reps rows n (pos + ?m) ms inb outb ?pred s1 =
        Inr (0, ms', take (unat (pos + ?m)) ?pred @
          map (\<lambda>i. decide model (hai_row rows i)) [unat (pos + ?m)..<unat n], s2)"
      and 2: "ready s2" "calls s2 = calls s1 + (unat n - unat (pos + ?m) + 31) div 32"
      using less.hyps [OF small 1(1) step(4) less.prems(3-5) 1(3,4) len, of ms] by blast
    have "take (unat (pos + ?m)) ?pred @ map (\<lambda>i. decide model (hai_row rows i)) [unat (pos + ?m)..<unat n] =
        take (unat pos) pred @ map (\<lambda>i. decide model (hai_row rows i)) [unat pos..<unat n]"
      using le less.prems(8) lt unfolding step(3)
      by (simp add: map_upt_append split del: if_split)
    moreover have "calls s2 = calls s + (unat n - unat pos + 31) div 32"
      using 1(2) 2(2) lt unfolding step(3,1) by (auto simp: min_def)
    ultimately show ?thesis using turn rest 2(1) by metis
  qed
qed

lemma whole_file:
  assumes "ready s" "reps \<noteq> 0" "unat n < 2 ^ 28" "unat n * 16 \<le> length bytes div 4"
    and "rows = take (unat n * 16) (words_of_bytes bytes)" "\<forall>i<unat n. accepts model (hai_row rows i)"
    and "length inbuf = 2060" "length outbuf = 40"
  shows "\<exists>s'. hai_main invoke TEE_SUCCESS TEE_SUCCESS True (Some bytes) inbuf outbuf model n reps s =
      Inr (0, Some (map (\<lambda>i. decide model (hai_row rows i)) [0..<unat n]), s') \<and>
    ready s' \<and> calls s' = calls s + (unat n + 31) div 32"
proof -
  have "length rows = unat n * 16" using assms(4,5) by (simp add: length_words_of_bytes)
  with all_chunks [OF assms(1) _ assms(3) _ assms(6-8), of 0 "replicate (unat n) 0" reps 0] obtain ms s' where
    "hai_chunks invoke model reps rows n 0 0 inbuf outbuf (replicate (unat n) 0) s =
      Inr (0, ms, map (\<lambda>i. decide model (hai_row rows i)) [0..<unat n], s')"
    "ready s'" "calls s' = calls s + (unat n + 31) div 32" by auto
  then show ?thesis
    using assms(2,4) unfolding assms(5) by (simp add: hai_main_def tee_open_ok Let_def)
qed

end

definition env_ok :: "ta_env \<Rightarrow> bool" where
  "env_ok env \<longleftrightarrow> tt_millis (te_t0 env) < 1000 \<and> tt_millis (te_t1 env) < 1000 \<and> length (te_pred env) = 32"

definition hai_accepts :: "u32 \<Rightarrow> u32 list \<Rightarrow> bool" where
  "hai_accepts model x \<longleftrightarrow>
     (model = QAI_HAI_MODEL_TINYML \<or> model = QAI_HAI_MODEL_PAIRWISE_FAKE) \<and> hai_in_range model x"

lemma session_hai:
  assumes "\<forall>j. env_ok (envs j)" "0 < n" "n \<le> QAI_HAI_MAX_ROWS" "length rows = unat n * 16"
    "\<forall>i<unat n. hai_accepts model (hai_row rows i)" "length ob = 8 + unat n"
  shows "\<exists>ms p. qai_session F envs frames TA_QAI_CMD_HAI_INFER types_in_out
      (plain_params (hai_request model n reps rows) ob) (k, st) =
    Inr (TEE_SUCCESS, [p, P_memref (enc_qai_hai_infer_out \<lparr>ho_tee_elapsed_ms = ms, ho_n = n\<rparr> @
      map (\<lambda>i. decision (hai_exact model (hai_row rows i))) [0..<unat n]) (of_nat (8 + unat n)), P_none, P_none],
      (Suc k, st))"
proof -
  have n: "0 < unat n" "unat n \<le> 32" using assms(2,3) by (simp_all add: word_less_nat_alt word_le_nat_alt)
  have model: "model = QAI_HAI_MODEL_TINYML \<or> model = QAI_HAI_MODEL_PAIRWISE_FAKE"
    and range: "\<forall>i<unat n. hai_in_range model (hai_row rows i)"
    using assms(5) n(1) by (auto simp: hai_accepts_def)
  have "env_ok (envs k)" using assms(1) by blast
  then have env: "tt_millis (te_t0 (envs k)) < 1000" "tt_millis (te_t1 (envs k)) < 1000" "length (te_pred (envs k)) = 32"
    by (simp_all add: env_ok_def)
  have out: "8 + unat n \<le> length ob" "length ob < 2 ^ 64" using assms(6) n by simp_all
  show ?thesis
    using hai_command_value [OF assms(2,3) model assms(4) range out env, of reps] assms(6)
    by (auto simp: qai_session_def TA_InvokeCommandEntryPoint_def with_state_def plain_params_def hai_reply_def
        simp del: of_nat_add of_int_diff)
qed

interpretation hai: row_service "qai_session F envs frames"
  "\<lambda>s. (\<forall>j. env_ok (envs j)) \<and> snd s = st" fst
  hai_accepts "\<lambda>model x. decision (hai_exact model x)" for F envs frames st
proof (unfold_locales, goal_cases)
  case (1 s n rows model ob reps)
  then obtain k where s: "s = (k, st)" and env: "\<forall>j. env_ok (envs j)" by (cases s) auto
  show ?case using session_hai [OF env 1(2-6), of F frames reps k st] env unfolding s by fastforce
qed

text \<open>Claim C11: over a session of the application the row client classifies a whole feature file. For
  one of the two models, any number of rows below \<open>2 ^ 28\<close> that the file has, in which for the
  pairwise model no feature exceeds \<open>2 ^ 24\<close> in absolute value, and a repetition count that is not zero, it ends with
  status 0 after one call per started chunk of 32 and
  writes for every row, in order, the decision of that row's exact score, however the rows fall
  into chunks and whatever the reused buffers held.\<close>

theorem row_client_classifies_file:
  assumes "reps \<noteq> 0" "unat n < 2 ^ 28" "unat n * 16 \<le> length bytes div 4"
    and "rows = take (unat n * 16) (words_of_bytes bytes)"
    and "\<forall>i<unat n. hai_accepts model (hai_row rows i)"
    and "\<forall>j. env_ok (envs j)" "length inbuf = 2060" "length outbuf = 40"
  shows "hai_main (qai_session F envs frames) TEE_SUCCESS TEE_SUCCESS True (Some bytes) inbuf outbuf model n reps (k, st) =
    Inr (0, Some (map (\<lambda>i. decision (hai_exact model (hai_row rows i))) [0..<unat n]),
      (k + (unat n + 31) div 32, st))"
proof -
  obtain s' where "hai_main (qai_session F envs frames) TEE_SUCCESS TEE_SUCCESS True (Some bytes) inbuf outbuf model n reps (k, st) =
      Inr (0, Some (map (\<lambda>i. decision (hai_exact model (hai_row rows i))) [0..<unat n]), s')"
    "snd s' = st" "fst s' = k + (unat n + 31) div 32"
    using hai.whole_file [of envs "(k, st)" st, OF _ assms(1-5,7,8)] assms(6) by auto
  then show ?thesis by (cases s') simp
qed

theorem row_client_classifies_file_witness:
  "hai_main (qai_session int_fp (\<lambda>k. some_env) (\<lambda>k. some_frame)) TEE_SUCCESS TEE_SUCCESS True
      (Some (bytes_of_words (replicate 640 1000))) (replicate 2060 0) (replicate 40 0) 0 40 1 (5, used_store) =
    Inr (0, Some (replicate 40 1), (7, used_store))"
proof -
  have row: "hai_row (replicate 640 1000) i = replicate 16 1000" if "i < 40" for i
    using that by (simp add: hai_row_def)
  have "hai_exact 0 (replicate 16 1000) = 4295000" by code_simp
  then have "map (\<lambda>i. decision (hai_exact 0 (hai_row (replicate 640 1000) i))) [0..<40] = replicate 40 1"
    by (intro nth_equalityI) (simp_all add: row decision_def)
  then show ?thesis
    using row_client_classifies_file [of 1 40 "bytes_of_words (replicate 640 1000)" "replicate 640 1000" 0
        "\<lambda>k. some_env" "replicate 2060 0" "replicate 40 0" int_fp "\<lambda>k. some_frame" 5 used_store]
    by (simp add: hai_accepts_def hai_in_range_def env_ok_def some_env_def)
qed

section \<open>A kernel matrix\<close>

text \<open>
  The variables that change in the loops: the exit status of a failed call, the accumulated time,
  the number of calls, the matrix, and the two buffers. The program stops at a failed call, which
  a non-zero status stands for.
\<close>

record kernel_vars =
  kv_status :: int
  kv_tee_ms :: u64
  kv_calls :: u64
  kv_out :: "u32 list"
  kv_inbuf :: "u8 list"
  kv_outbuf :: "u8 list"

text \<open>
  One call, for query \<open>q\<close> and the references from \<open>r0\<close>. The element offsets \<open>r0 * feat\<close> and
  \<open>q * feat\<close> are \<open>uint32_t\<close>, the sizes and the position in the matrix \<open>size_t\<close>.
\<close>

definition kernel_call ::
  "'s teec_invoke \<Rightarrow> u32 \<Rightarrow> u32 \<Rightarrow> u32 \<Rightarrow> u32 list \<Rightarrow> u32 list \<Rightarrow> u32 \<Rightarrow> nat \<Rightarrow> nat \<Rightarrow> kernel_vars \<times> 's \<Rightarrow>
   (kernel_vars \<times> 's) res" where
  "kernel_call TEEC_InvokeCommand cmd n_qubits nfeat ref query n_ref q r0 = (\<lambda>(v, s).
     if kv_status v \<noteq> 0 then Inr (v, s)
     else
       let n = (if n_ref - of_nat r0 > CHUNK then CHUNK else n_ref - of_nat r0);
           isize = sizeof_qai_kernel_block_in + unat ((n + 1) * nfeat) * 4;
           osize = sizeof_qai_kernel_block_out + unat n * 4 in
       cbind (mem_write (kv_inbuf v) 0
         (enc_qai_kernel_block_in \<lparr>kb_n_ref = n, kb_n_query = 1, kb_n_qubits = n_qubits\<rparr>)) (\<lambda>inbuf.
       cbind (mem_read (bytes_of_words ref) (4 * unat (of_nat r0 * nfeat)) (unat n * unat nfeat * 4)) (\<lambda>rs.
       cbind (mem_write inbuf sizeof_qai_kernel_block_in rs) (\<lambda>inbuf.
       cbind (mem_read (bytes_of_words query) (4 * unat (of_nat q * nfeat)) (unat nfeat * 4)) (\<lambda>qs.
       cbind (mem_write inbuf (sizeof_qai_kernel_block_in + unat (n * nfeat) * 4) qs) (\<lambda>inbuf.
       cbind (mem_read inbuf 0 isize) (\<lambda>ib.
       cbind (mem_read (kv_outbuf v) 0 osize) (\<lambda>ob.
       cbind (TEEC_InvokeCommand cmd types_in_out (plain_params ib ob) s) (\<lambda>(res, params, s).
       cbind (memref_of params 1) (\<lambda>(ob, sz).
       cbind (mem_write (kv_outbuf v) 0 ob) (\<lambda>outbuf.
       if res \<noteq> TEE_SUCCESS then Inr (v\<lparr>kv_status := 1\<rparr>, s)
       else
         cbind (mem_read outbuf sizeof_qai_kernel_block_out (unat n * 4)) (\<lambda>dst.
         cbind (mem_write (kv_out v) (q * unat n_ref + r0) (words_of_bytes dst)) (\<lambda>out.
         Inr (v\<lparr>kv_tee_ms := kv_tee_ms v + ucast (u32_at outbuf 0), kv_calls := kv_calls v + 1,
               kv_out := out, kv_inbuf := inbuf, kv_outbuf := outbuf\<rparr>, s))))))))))))))"

text \<open>
  The two loops. The dimensions have been checked to be at most 100000 before, so \<open>r0 += CHUNK\<close>
  does not wrap and visits the multiples of 32 below the number of references.
\<close>

definition kernel_query ::
  "'s teec_invoke \<Rightarrow> u32 \<Rightarrow> u32 \<Rightarrow> u32 \<Rightarrow> u32 list \<Rightarrow> u32 list \<Rightarrow> u32 \<Rightarrow> nat \<Rightarrow> kernel_vars \<times> 's \<Rightarrow>
   (kernel_vars \<times> 's) res" where
  "kernel_query TEEC_InvokeCommand cmd n_qubits nfeat ref query n_ref q =
     cfor [0..<(unat n_ref + 31) div 32]
       (\<lambda>c. kernel_call TEEC_InvokeCommand cmd n_qubits nfeat ref query n_ref q (32 * c))"

text \<open>The first argument selects the command, the number of qubits and the width of a vector.\<close>

definition kernel_variant :: "string \<Rightarrow> u32 \<times> u32 \<times> u32" where
  "kernel_variant opt =
     (if opt = ''--qmoc'' then (TA_QAI_CMD_QMOC_BLOCK, 8, 16)
      else if opt = ''--qoc16'' then (TA_QAI_CMD_QOC_BLOCK, 16, 32)
      else if opt = ''--qmoc16'' then (TA_QAI_CMD_QMOC_BLOCK, 16, 32)
      else (TA_QAI_CMD_QOC_BLOCK, 8, 16))"

definition read_matrix :: "u8 list option \<Rightarrow> u32 \<Rightarrow> u32 \<Rightarrow> u32 list option" where
  "read_matrix content rows nfeat =
     (case content of None \<Rightarrow> None
      | Some bytes \<Rightarrow>
          if length bytes div 4 < unat rows * unat nfeat then None
          else Some (take (unat rows * unat nfeat) (words_of_bytes bytes)))"

definition kernel_main ::
  "'s teec_invoke \<Rightarrow> u32 \<Rightarrow> u32 \<Rightarrow> bool \<Rightarrow> string \<Rightarrow> u32 \<Rightarrow> u32 \<Rightarrow> u8 list option \<Rightarrow> u8 list option \<Rightarrow>
   u8 list \<Rightarrow> u8 list \<Rightarrow> 's \<Rightarrow> (int \<times> u32 list option \<times> 's) res" where
  "kernel_main TEEC_InvokeCommand init_res open_res alloc_ok opt n_ref n_query ref_file query_file inbuf outbuf s =
     (case kernel_variant opt of (cmd, n_qubits, nfeat) \<Rightarrow>
      if n_ref = 0 \<or> n_query = 0 \<or> n_ref > 100000 \<or> n_query > 100000 then Inr (1, None, s)
      else if \<not> alloc_ok then Inr (1, None, s)
      else case (read_matrix ref_file n_ref nfeat, read_matrix query_file n_query nfeat) of
        (Some ref, Some query) \<Rightarrow>
          if fst (tee_open init_res open_res \<lparr>th_ctx = False, th_sess = False\<rparr>) \<noteq> 0 then Inr (1, None, s)
          else
            cbind (cfor [0..<unat n_query]
                (kernel_query TEEC_InvokeCommand cmd n_qubits nfeat ref query n_ref)
                (\<lparr>kv_status = 0, kv_tee_ms = 0, kv_calls = 0, kv_out = replicate (unat n_query * unat n_ref) 0,
                  kv_inbuf = inbuf, kv_outbuf = outbuf\<rparr>, s)) (\<lambda>(v, s).
            if kv_status v \<noteq> 0 then Inr (kv_status v, None, s) else Inr (0, Some (kv_out v), s))
      | _ \<Rightarrow> Inr (1, None, s))"

definition matrix_entry ::
  "(u32 list \<Rightarrow> u32 list \<Rightarrow> u32) \<Rightarrow> nat \<Rightarrow> u32 list \<Rightarrow> u32 list \<Rightarrow> nat \<Rightarrow> nat \<Rightarrow> u32" where
  "matrix_entry k nf ref query nr p =
     k (take nf (drop (p div nr * nf) query)) (take nf (drop (p mod nr * nf) ref))"

definition kernel_inv :: "(nat \<Rightarrow> u32) \<Rightarrow> u32 list \<Rightarrow> nat \<Rightarrow> nat \<Rightarrow> kernel_vars \<Rightarrow> bool" where
  "kernel_inv f u nf p v \<longleftrightarrow> kv_status v = 0 \<and> p \<le> length u \<and> kv_out v = map f [0..<p] @ drop p u \<and>
     length (kv_inbuf v) = 12 + 33 * nf * 4 \<and> length (kv_outbuf v) = 136"

text \<open>A header and two arrays, written one behind the other.\<close>

lemma write_request:
  assumes "length h = 12" "12 + length a + length b \<le> length buf"
  shows "mem_write buf 0 h = Inr (h @ drop 12 buf)"
    "mem_write (h @ drop 12 buf) 12 a = Inr (h @ a @ drop (12 + length a) buf)"
    "k = 12 + length a \<Longrightarrow> mem_write (h @ a @ drop (12 + length a) buf) k b =
       Inr ((h @ a @ b) @ drop (12 + length a + length b) buf)"
  using assms by (simp_all add: mem_write_ok algebra_simps)

lemma small_product:
  fixes x y :: u32
  assumes "unat x = a" "unat y = b" "a \<le> 100000" "b \<le> 32"
  shows "unat (x * y) = a * b"
proof -
  have "a * b \<le> 100000 * 32" using assms(3,4) by (intro mult_le_mono)
  then show ?thesis using assms(1,2) by (simp add: unat_word_ariths(2))
qed

text \<open>One call, when the application answers with a header and one entry per reference.\<close>

lemma kernel_call_answered:
  assumes status: "kv_status v = 0"
    and n: "n = (if n_ref - of_nat r0 > CHUNK then CHUNK else n_ref - of_nat r0)" "unat n = m" "m \<le> 32"
    and off: "unat (of_nat r0 * nfeat) = r0 * nf" "unat (of_nat q * nfeat) = q * nf"
      "unat (n * nfeat) = m * nf" "unat ((n + 1) * nfeat) = (m + 1) * nf" "unat nfeat = nf"
    and fit: "r0 * nf + m * nf \<le> length ref" "q * nf + nf \<le> length query"
      "q * unat n_ref + r0 + m \<le> length (kv_out v)"
    and bufs: "length (kv_inbuf v) = 12 + 33 * nf * 4" "length (kv_outbuf v) = 136"
    and reply: "length hdr = 8" "length es = m"
      "TEEC cmd types_in_out (plain_params (kernel_request n 1 n_qubits (take (m * nf) (drop (r0 * nf) ref))
         (take nf (drop (q * nf) query))) (take (8 + m * 4) (kv_outbuf v))) s =
       Inr (TEE_SUCCESS, [p, P_memref (hdr @ bytes_of_words es) sz, P_none, P_none], s')"
  shows "\<exists>ms ib. length ib = 12 + 33 * nf * 4 \<and> kernel_call TEEC cmd n_qubits nfeat ref query n_ref q r0 (v, s) =
    Inr (v\<lparr>kv_tee_ms := ms, kv_calls := kv_calls v + 1,
      kv_out := take (q * unat n_ref + r0) (kv_out v) @ es @ drop (q * unat n_ref + r0 + m) (kv_out v),
      kv_inbuf := ib, kv_outbuf := hdr @ bytes_of_words es @ drop (8 + m * 4) (kv_outbuf v)\<rparr>, s')"
proof -
  let ?refs = "take (m * nf) (drop (r0 * nf) ref)" and ?qv = "take nf (drop (q * nf) query)"
  let ?h = "enc_qai_kernel_block_in \<lparr>kb_n_ref = n, kb_n_query = 1, kb_n_qubits = n_qubits\<rparr>"
  let ?req = "kernel_request n 1 n_qubits ?refs ?qv"
  have cap: "m * nf + nf \<le> 33 * nf" using n(3) mult_le_mono1 [of "Suc m" 33 nf] by simp
  have len: "length ?refs = m * nf" "length ?qv = nf" using fit by simp_all
  have rd: "mem_read (bytes_of_words ref) (4 * unat (of_nat r0 * nfeat)) (unat n * unat nfeat * 4) = Inr (bytes_of_words ?refs)"
    "mem_read (bytes_of_words query) (4 * unat (of_nat q * nfeat)) (unat nfeat * 4) = Inr (bytes_of_words ?qv)"
    unfolding off n(2) by (rule mem_read_words; fact fit)+
  let ?b1 = "?h @ drop 12 (kv_inbuf v)" and ?A = "bytes_of_words ?refs" and ?B = "bytes_of_words ?qv"
  let ?b2 = "?h @ ?A @ drop (12 + length ?A) (kv_inbuf v)"
  let ?b3 = "(?h @ ?A @ ?B) @ drop (12 + length ?A + length ?B) (kv_inbuf v)"
  have req: "?req = ?h @ ?A @ ?B" by (simp add: kernel_request_def)
  have lab: "length ?A = 4 * (m * nf)" "length ?B = 4 * nf" by (simp_all only: length_bytes_of_words len)
  have room: "12 + length ?A + length ?B \<le> length (kv_inbuf v)" using cap bufs(1) unfolding lab by linarith
  from write_request [OF _ room, of ?h]
  have wr: "mem_write (kv_inbuf v) 0 ?h = Inr ?b1" "mem_write ?b1 12 ?A = Inr ?b2"
    "mem_write ?b2 (12 + unat (n * nfeat) * 4) ?B = Inr ?b3"
    by (simp_all only: length_enc lab off mult.commute [of 4])
  have "length (?h @ ?A @ ?B) = 12 + (m + 1) * nf * 4" by (simp only: length_append lab length_enc) simp
  then have io: "mem_read ?b3 0 (12 + unat ((n + 1) * nfeat) * 4) = Inr ?req"
    "mem_read (kv_outbuf v) 0 (8 + unat n * 4) = Inr (take (8 + m * 4) (kv_outbuf v))"
    using bufs(2) n(2,3) unfolding req off by (simp_all only: mem_read_prefix mem_read_ok) simp_all
  let ?ob = "hdr @ bytes_of_words es @ drop (8 + m * 4) (kv_outbuf v)"
  have res: "mem_write (kv_outbuf v) 0 (hdr @ bytes_of_words es) = Inr ?ob"
    "mem_read ?ob 8 (unat n * 4) = Inr (bytes_of_words es)"
    "mem_write (kv_out v) (q * unat n_ref + r0) es =
      Inr (take (q * unat n_ref + r0) (kv_out v) @ es @ drop (q * unat n_ref + r0 + m) (kv_out v))"
    using bufs(2) reply(1,2) n(2,3) fit(3) by (simp_all add: mem_read_ok mem_write_ok mult.commute)
  have "length ?b3 = 12 + 33 * nf * 4" 
    using room bufs(1) unfolding length_append length_drop length_enc by linarith
  moreover have "kernel_call TEEC cmd n_qubits nfeat ref query n_ref q r0 (v, s) =
    Inr (v\<lparr>kv_tee_ms := kv_tee_ms v + ucast (u32_at ?ob 0), kv_calls := kv_calls v + 1,
      kv_out := take (q * unat n_ref + r0) (kv_out v) @ es @ drop (q * unat n_ref + r0 + m) (kv_out v),
      kv_inbuf := ?b3, kv_outbuf := ?ob\<rparr>, s')"
    unfolding kernel_call_def Let_def n(1) [symmetric]
    by (simp only: prod.case status rd wr io cbind_simps reply(3) res memref_of_def words_of_bytes_of_words_exact)
       (simp add: rd wr io reply res)
  ultimately show ?thesis by blast
qed

lemma chunk_entries:
  assumes "r0 + m \<le> nr" "nr * nf = length ref"
  shows "map (\<lambda>i. k (take nf (drop (q * nf) query)) (take nf (drop (i * nf) (take (m * nf) (drop (r0 * nf) ref))))) [0..<m] =
    map (matrix_entry k nf ref query nr) [q * nr + r0..<q * nr + r0 + m]"
proof (rule nth_equalityI)
  fix i
  assume "i < length (map (\<lambda>i. k (take nf (drop (q * nf) query))
      (take nf (drop (i * nf) (take (m * nf) (drop (r0 * nf) ref))))) [0..<m])"
  then have i: "i < m" by simp
  then have p: "(q * nr + r0 + i) div nr = q" "(q * nr + r0 + i) mod nr = r0 + i"
    using assms(1) by (simp_all add: add.assoc)
  have "i * nf + nf \<le> m * nf" using mult_le_mono1 [of "Suc i" m nf] i by simp
  then have "take nf (drop (i * nf) (take (m * nf) (drop (r0 * nf) ref))) = take nf (drop ((r0 + i) * nf) ref)"
    by (simp add: drop_take min_def algebra_simps)
  with i p show "map (\<lambda>i. k (take nf (drop (q * nf) query))
      (take nf (drop (i * nf) (take (m * nf) (drop (r0 * nf) ref))))) [0..<m] ! i =
    map (matrix_entry k nf ref query nr) [q * nr + r0..<q * nr + r0 + m] ! i"
    by (simp add: matrix_entry_def)
qed simp

text \<open>The numbers of a call: none of the \<open>uint32_t\<close> products wraps within the accepted dimensions.\<close>

lemma call_numbers:
  fixes n_ref n nfeat :: u32
  assumes "n = (if n_ref - of_nat r0 > CHUNK then CHUNK else n_ref - of_nat r0)" "unat n_ref = nr"
    and "m = min 32 (nr - r0)" "unat nfeat = nf" "nf \<le> 32" "nr \<le> 100000" "nqu \<le> 100000" "q < nqu" "r0 < nr"
  shows "unat n = m" "m \<le> 32" "r0 + m \<le> nr" "0 < n" "n \<le> 32"
    "unat (of_nat r0 * nfeat) = r0 * nf" "unat (of_nat q * nfeat) = q * nf"
    "unat (n * nfeat) = m * nf" "unat ((n + 1) * nfeat) = (m + 1) * nf"
    "r0 * nf + m * nf \<le> nr * nf" "q * nf + nf \<le> nqu * nf"
proof -
  have r0: "unat (of_nat r0 :: u32) = r0" "unat (of_nat q :: u32) = q"
    by (rule unat_of_nat_32; use assms(6-9) in simp)+
  then have "of_nat r0 < n_ref" using assms(2,9) by (simp add: word_less_nat_alt)
  from chunk_step(1,2) [OF this] show m: "unat n = m" "m \<le> 32" "r0 + m \<le> nr" "0 < n" "n \<le> 32"
    using assms(2,9) by (simp_all add: assms(1,3) r0 word_less_nat_alt word_le_nat_alt)
  have n1: "unat (n + 1) = m + 1" using m by (simp add: unat_word_ariths(1))
  show "unat (of_nat r0 * nfeat) = r0 * nf" "unat (of_nat q * nfeat) = q * nf"
    "unat (n * nfeat) = m * nf" "unat ((n + 1) * nfeat) = (m + 1) * nf"
    by (rule small_product; use r0 m n1 assms(4-9) in simp)+
  show "r0 * nf + m * nf \<le> nr * nf" "q * nf + nf \<le> nqu * nf"
    using mult_le_mono1 [OF m(3), of nf] mult_le_mono1 [of "Suc q" nqu nf] assms(8)
    by (simp_all add: add_mult_distrib add.commute)
qed

section \<open>What the matrix client relies on\<close>

text \<open>
  For one command and one width: a request of up to 32 references and one query is answered with
  one entry per reference, a function of the two vectors alone.
\<close>

locale matrix_service =
  fixes invoke :: "'s teec_invoke" and ready :: "'s \<Rightarrow> bool" and calls :: "'s \<Rightarrow> nat"
    and cmd n_qubits nfeat :: u32 and kernel_entry :: "u32 list \<Rightarrow> u32 list \<Rightarrow> u32"
  assumes matrix_reply: "ready s \<Longrightarrow> 0 < n \<Longrightarrow> n \<le> QAI_KERNEL_MAX_PAIRS \<Longrightarrow>
      length ref = unat n * unat nfeat \<Longrightarrow> length qv = unat nfeat \<Longrightarrow> length ob = 8 + unat n * 4 \<Longrightarrow>
      \<exists>ms s' p. ready s' \<and> calls s' = Suc (calls s) \<and>
        invoke cmd types_in_out (plain_params (kernel_request n 1 n_qubits ref qv) ob) s =
        Inr (TEE_SUCCESS, [p, P_memref (enc_qai_kernel_block_out \<lparr>ko_tee_elapsed_ms = ms, ko_n_out = n\<rparr> @
          bytes_of_words (map (\<lambda>i. kernel_entry qv (take (unat nfeat) (drop (i * unat nfeat) ref))) [0..<unat n]))
          (of_nat (8 + unat n * 4)), P_none, P_none], s')"
    and width: "0 < nfeat" "nfeat \<le> 32"
begin

lemma call_turn:
  fixes n_ref :: u32 and v :: kernel_vars
  defines "nr \<equiv> unat n_ref" and "nf \<equiv> unat nfeat"
  assumes "ready s" "nr \<le> 100000" "nqu \<le> 100000" "q < nqu" "r0 < nr"
    and len: "length ref = nr * nf" "length query = nqu * nf" "length u = nqu * nr"
    and inv: "kernel_inv (matrix_entry kernel_entry nf ref query nr) u nf (q * nr + r0) v"
  shows "\<exists>v' s'. kernel_call invoke cmd n_qubits nfeat ref query n_ref q r0 (v, s) = Inr (v', s') \<and>
    ready s' \<and> calls s' = Suc (calls s) \<and>
    kernel_inv (matrix_entry kernel_entry nf ref query nr) u nf (q * nr + r0 + min 32 (nr - r0)) v'"
proof -
  let ?f = "matrix_entry kernel_entry nf ref query nr"
  define n where "n = (if n_ref - of_nat r0 > CHUNK then CHUNK else n_ref - of_nat r0)"
  define m where "m = min 32 (nr - r0)"
  have nf: "0 < nf" "nf \<le> 32" "unat nfeat = nf"
    using width by (simp_all add: nf_def word_less_nat_alt word_le_nat_alt)
  note call = call_numbers [OF n_def nr_def [THEN meta_eq_to_obj_eq, symmetric] m_def nf(3,2) assms(4-7)]
  note m = call(1-3) and n = call(4,5) and off = call(6-9) and fit = call(10,11) [folded len(1,2)]
  let ?refs = "take (m * nf) (drop (r0 * nf) ref)" and ?qv = "take nf (drop (q * nf) query)"
  let ?es = "map (\<lambda>i. kernel_entry ?qv (take nf (drop (i * nf) ?refs))) [0..<m]"
  have v: "kv_status v = 0" "q * nr + r0 \<le> length u" "kv_out v = map ?f [0..<q * nr + r0] @ drop (q * nr + r0) u"
    "length (kv_inbuf v) = 12 + 33 * nf * 4" "length (kv_outbuf v) = 136"
    using inv by (simp_all add: kernel_inv_def)
  have "Suc q * nr \<le> nqu * nr" using assms(6) by (intro mult_le_mono1) simp
  then have pos: "q * nr + r0 + m \<le> length u" using m(3) len(3) by simp
  have "length ?refs = unat n * unat nfeat" "length ?qv = unat nfeat"
    "length (take (8 + m * 4) (kv_outbuf v)) = 8 + unat n * 4"
    using fit m v(5) by (simp_all add: nf_def)
  from matrix_reply [OF assms(3) n(1,2) this] obtain ms s' p where s': "ready s'" "calls s' = Suc (calls s)"
    and reply: "invoke cmd types_in_out (plain_params (kernel_request n 1 n_qubits ?refs ?qv)
        (take (8 + m * 4) (kv_outbuf v))) s =
      Inr (TEE_SUCCESS, [p, P_memref (enc_qai_kernel_block_out \<lparr>ko_tee_elapsed_ms = ms, ko_n_out = n\<rparr> @
        bytes_of_words ?es) (of_nat (8 + unat n * 4)), P_none, P_none], s')"
    unfolding nf_def [symmetric] m(1) by blast
  have out: "q * unat n_ref + r0 + m \<le> length (kv_out v)" using pos v(3) by (simp add: nr_def)
  obtain tm ib where ib: "length ib = 12 + 33 * nf * 4"
    and call: "kernel_call invoke cmd n_qubits nfeat ref query n_ref q r0 (v, s) =
      Inr (v\<lparr>kv_tee_ms := tm, kv_calls := kv_calls v + 1,
        kv_out := take (q * nr + r0) (kv_out v) @ ?es @ drop (q * nr + r0 + m) (kv_out v),
        kv_inbuf := ib, kv_outbuf := enc_qai_kernel_block_out \<lparr>ko_tee_elapsed_ms = ms, ko_n_out = n\<rparr> @
          bytes_of_words ?es @ drop (8 + m * 4) (kv_outbuf v)\<rparr>, s')"
    using kernel_call_answered [where TEEC = invoke, OF v(1) n_def m(1,2) off nf(3) fit out v(4,5) _ _ reply]
    unfolding nr_def [symmetric] by auto
  have "take (q * nr + r0) (kv_out v) @ ?es @ drop (q * nr + r0 + m) (kv_out v) =
      map ?f [0..<q * nr + r0 + m] @ drop (q * nr + r0 + m) u"
    unfolding chunk_entries [OF m(3) len(1) [symmetric]] v(3)
    using v(2) by (simp add: map_upt_append [symmetric, of 0 "q * nr + r0" "q * nr + r0 + m"]) (simp add: add.commute)
  with call s' ib show ?thesis
    using v(1,5) pos m(2) unfolding m_def [symmetric] by (simp add: kernel_inv_def)
qed

lemma query_turn:
  fixes n_ref :: u32 and v :: kernel_vars
  defines "nr \<equiv> unat n_ref" and "nf \<equiv> unat nfeat"
  assumes "ready s" "nr \<le> 100000" "nqu \<le> 100000" "q < nqu"
    and len: "length ref = nr * nf" "length query = nqu * nf" "length u = nqu * nr"
    and inv: "kernel_inv (matrix_entry kernel_entry nf ref query nr) u nf (q * nr) v"
  shows "\<exists>v' s'. kernel_query invoke cmd n_qubits nfeat ref query n_ref q (v, s) = Inr (v', s') \<and>
    ready s' \<and> calls s' = calls s + (nr + 31) div 32 \<and>
    kernel_inv (matrix_entry kernel_entry nf ref query nr) u nf (Suc q * nr) v'"
proof -
  let ?inv = "kernel_inv (matrix_entry kernel_entry nf ref query nr) u nf"
  let ?P = "\<lambda>c (v', s'). ready s' \<and> calls s' = calls s + c \<and> ?inv (q * nr + min (32 * c) nr) v'"
  have "\<exists>t. kernel_query invoke cmd n_qubits nfeat ref query n_ref q (v, s) = Inr t \<and> ?P ((nr + 31) div 32) t"
    unfolding kernel_query_def nr_def [symmetric]
  proof (rule cfor_invariant)
    fix c t
    assume c: "c < (nr + 31) div 32" and P: "?P c t"
    obtain v1 s1 where t: "t = (v1, s1)" by (cases t)
    from c have r0: "32 * c < nr" by linarith
    then have "ready s1" "calls s1 = calls s + c" "?inv (q * nr + 32 * c) v1" using P by (simp_all add: t)
    with call_turn [OF _ assms(4-6) [unfolded nr_def] r0 [unfolded nr_def], of s1 ref query u v1] len
    obtain v2 s2 where call: "kernel_call invoke cmd n_qubits nfeat ref query n_ref q (32 * c) t = Inr (v2, s2)"
      "ready s2" "calls s2 = calls s + Suc c" "?inv (q * nr + 32 * c + min 32 (nr - 32 * c)) v2"
      unfolding t nr_def [symmetric] nf_def [symmetric] by auto
    moreover have "q * nr + 32 * c + min 32 (nr - 32 * c) = q * nr + min (32 * Suc c) nr" using r0 by simp
    ultimately show "\<exists>t'. kernel_call invoke cmd n_qubits nfeat ref query n_ref q (32 * c) t = Inr t' \<and> ?P (Suc c) t'"
      by auto
  qed (use assms in simp_all)
  moreover have "nr \<le> 32 * ((nr + 31) div 32)" by presburger
  then have "q * nr + min (32 * ((nr + 31) div 32)) nr = Suc q * nr" by simp
  ultimately show ?thesis by (auto simp: add.commute)
qed

lemma whole_matrix:
  fixes n_ref n_query :: u32
  defines "nr \<equiv> unat n_ref" and "nf \<equiv> unat nfeat" and "nqu \<equiv> unat n_query"
  assumes "ready s" "nr \<le> 100000" "nqu \<le> 100000"
    and len: "length ref = nr * nf" "length query = nqu * nf" "length u = nqu * nr"
    and inv: "kernel_inv (matrix_entry kernel_entry nf ref query nr) u nf 0 v"
  shows "\<exists>v' s'. cfor [0..<nqu] (kernel_query invoke cmd n_qubits nfeat ref query n_ref) (v, s) = Inr (v', s') \<and>
    ready s' \<and> calls s' = calls s + nqu * ((nr + 31) div 32) \<and> kv_status v' = 0 \<and>
    kv_out v' = map (matrix_entry kernel_entry nf ref query nr) [0..<nqu * nr]"
proof -
  let ?inv = "kernel_inv (matrix_entry kernel_entry nf ref query nr) u nf"
  let ?P = "\<lambda>q (v', s'). ready s' \<and> calls s' = calls s + q * ((nr + 31) div 32) \<and> ?inv (q * nr) v'"
  have "\<exists>t. cfor [0..<nqu] (kernel_query invoke cmd n_qubits nfeat ref query n_ref) (v, s) = Inr t \<and> ?P nqu t"
  proof (rule cfor_invariant)
    fix q t
    assume q: "q < nqu" and P: "?P q t"
    obtain v1 s1 where t: "t = (v1, s1)" by (cases t)
    from P query_turn [OF _ assms(5,6) [unfolded nr_def] q, of s1 ref query u v1] len
    show "\<exists>t'. kernel_query invoke cmd n_qubits nfeat ref query n_ref q t = Inr t' \<and> ?P (Suc q) t'"
      unfolding t nr_def [symmetric] nf_def [symmetric] by auto
  qed (use assms in simp_all)
  then show ?thesis using len(3) by (auto simp: kernel_inv_def)
qed

lemma whole_program:
  assumes "ready s" "kernel_variant opt = (cmd, n_qubits, nfeat)"
    and "0 < n_ref" "n_ref \<le> 100000" "0 < n_query" "n_query \<le> 100000"
    and "read_matrix ref_file n_ref nfeat = Some ref" "read_matrix query_file n_query nfeat = Some query"
    and "length inbuf = 12 + 33 * unat nfeat * 4" "length outbuf = 136"
  shows "\<exists>s'. kernel_main invoke TEE_SUCCESS TEE_SUCCESS True opt n_ref n_query ref_file query_file inbuf outbuf s =
      Inr (0, Some (map (matrix_entry kernel_entry (unat nfeat) ref query (unat n_ref)) [0..<unat n_query * unat n_ref]), s') \<and>
    ready s' \<and> calls s' = calls s + unat n_query * ((unat n_ref + 31) div 32)"
proof -
  let ?u = "replicate (unat n_query * unat n_ref) (0 :: u32)"
  let ?v = "\<lparr>kv_status = 0, kv_tee_ms = 0, kv_calls = 0, kv_out = ?u, kv_inbuf = inbuf, kv_outbuf = outbuf\<rparr>"
  have dims: "unat n_ref \<le> 100000" "unat n_query \<le> 100000" using assms(4,6) by (simp_all add: word_le_nat_alt)
  have len: "length ref = unat n_ref * unat nfeat" "length query = unat n_query * unat nfeat"
    using assms(7,8) by (auto simp: read_matrix_def length_words_of_bytes split: option.splits if_splits)
  have "kernel_inv f ?u (unat nfeat) 0 ?v" for f using assms(9,10) by (simp add: kernel_inv_def)
  then obtain v' s' where "cfor [0..<unat n_query] (kernel_query invoke cmd n_qubits nfeat ref query n_ref) (?v, s) = Inr (v', s')"
    "ready s'" "calls s' = calls s + unat n_query * ((unat n_ref + 31) div 32)" "kv_status v' = 0"
    "kv_out v' = map (matrix_entry kernel_entry (unat nfeat) ref query (unat n_ref)) [0..<unat n_query * unat n_ref]"
    using whole_matrix [OF assms(1) dims len, of ?u ?v] by auto
  then show ?thesis using assms(3-8) by (auto simp: kernel_main_def assms(2) tee_open_ok)
qed

end

definition variant_reps :: "u32 \<Rightarrow> nat" where
  "variant_reps cmd = (if cmd = TA_QAI_CMD_QOC_BLOCK then 3 else 1)"

definition pair_kernel :: "'d fp \<Rightarrow> string \<Rightarrow> u32 list \<Rightarrow> u32 list \<Rightarrow> u32" where
  "pair_kernel F opt qv rv =
     (case kernel_variant opt of (cmd, n_qubits, nfeat) \<Rightarrow>
      fp_to_f32 F (fidelity_ref F (unat n_qubits) (map (fp_of_f32 F) qv) (map (fp_of_f32 F) rv) (variant_reps cmd)))"

lemma kernel_variant_cases:
  "kernel_variant opt \<in> {(6, 8, 16), (8, 8, 16), (6, 16, 32), (8, 16, 32)}"
  by (simp add: kernel_variant_def)

lemma session_matrix:
  assumes v: "kernel_variant opt = (cmd, n_qubits, nfeat)"
    and "\<forall>j. env_ok (envs j)" "kstore st" "0 < n" "n \<le> QAI_KERNEL_MAX_PAIRS"
    and "length ref = unat n * unat nfeat" "length qv = unat nfeat" "length ob = 8 + unat n * 4"
  shows "\<exists>ms st' p. kstore st' \<and> qai_session F envs frames cmd types_in_out
      (plain_params (kernel_request n 1 n_qubits ref qv) ob) (k, st) =
    Inr (TEE_SUCCESS, [p, P_memref (enc_qai_kernel_block_out \<lparr>ko_tee_elapsed_ms = ms, ko_n_out = n\<rparr> @
      bytes_of_words (map (\<lambda>i. pair_kernel F opt qv (take (unat nfeat) (drop (i * unat nfeat) ref))) [0..<unat n]))
      (of_nat (8 + unat n * 4)), P_none, P_none], (Suc k, st'))"
proof -
  have n: "0 < unat n" "unat n \<le> 32" using assms(4,5) by (simp_all add: word_less_nat_alt word_le_nat_alt)
  have c: "cmd = 6 \<or> cmd = 8" and nq: "n_qubits = 8 \<or> n_qubits = 16" and nf: "unat nfeat = 2 * unat n_qubits"
    using kernel_variant_cases [of opt] unfolding v by auto
  have env: "tt_millis (te_t0 (envs k)) < 1000" "tt_millis (te_t1 (envs k)) < 1000"
    using assms(2) by (simp_all add: env_ok_def)
  let ?reps = "if cmd = 6 then 3 else 1 :: u32"
  have es: "map (block_entry F (unat n_qubits) ref (unat n) qv (unat ?reps)) [0..<unat n] =
      map (\<lambda>i. pair_kernel F opt qv (take (unat nfeat) (drop (i * unat nfeat) ref))) [0..<unat n]"
    using assms(7)
    by (intro map_cong refl) (auto simp: block_entry_def pair_kernel_def v feat_def nf variant_reps_def mult.commute)
  have "\<exists>st'. cmd_kernel_block_reps F (envs k) types_in_out (plain_params (kernel_request n 1 n_qubits ref qv) ob) ?reps st =
    Inr (TEE_SUCCESS, (plain_params (kernel_request n 1 n_qubits ref qv) ob)[1 := P_memref
      (enc_qai_kernel_block_out \<lparr>ko_tee_elapsed_ms = word_of_int (total_ms (te_t1 (envs k)) - total_ms (te_t0 (envs k))),
         ko_n_out = n * 1\<rparr> @ bytes_of_words (map (block_entry F (unat n_qubits) ref (unat n) qv (unat ?reps))
           [0..<unat (1 :: u32) * unat n]) @ drop (8 + 4 * (unat (1 :: u32) * unat n)) ob)
      (of_nat (8 + 4 * (unat (1 :: u32) * unat n)))], st') \<and> kstore st'"
    by (rule kernel_block_value) (use assms n nq nf env in auto)
  then obtain ms st' where cmd: "cmd_kernel_block_reps F (envs k) types_in_out
      (plain_params (kernel_request n 1 n_qubits ref qv) ob) ?reps st =
    Inr (TEE_SUCCESS, (plain_params (kernel_request n 1 n_qubits ref qv) ob)[1 := P_memref
      (enc_qai_kernel_block_out \<lparr>ko_tee_elapsed_ms = ms, ko_n_out = n\<rparr> @
        bytes_of_words (map (\<lambda>i. pair_kernel F opt qv (take (unat nfeat) (drop (i * unat nfeat) ref))) [0..<unat n]))
      (of_nat (8 + unat n * 4))], st')" and "kstore st'"
    unfolding es [symmetric] using assms(8) by (auto simp: mult.commute)
  then show ?thesis
    using c by (auto simp: qai_session_def TA_InvokeCommandEntryPoint_def cmd_kernel_block_def cmd_qmoc_block_def
        plain_params_def)
qed

interpretation matrix: matrix_service "qai_session F envs frames"
  "\<lambda>s. (\<forall>j. env_ok (envs j)) \<and> kstore (snd s)" fst
  "fst (kernel_variant opt)" "fst (snd (kernel_variant opt))" "snd (snd (kernel_variant opt))"
  "pair_kernel F opt" for F envs frames opt
proof (unfold_locales, goal_cases)
  case (1 s n ref qv ob)
  obtain k st where s: "s = (k, st)" by (cases s)
  obtain cmd nq nf where v: "kernel_variant opt = (cmd, nq, nf)" by (cases "kernel_variant opt") auto
  have "\<forall>j. env_ok (envs j)" "kstore st" using 1(1) by (simp_all add: s)
  then show ?case
    using session_matrix [OF v _ _ 1(2,3), of envs st ref qv ob F frames k] 1(4-6) unfolding s v by fastforce
qed (use kernel_variant_cases [of opt] in auto)

text \<open>Claim C12: over a session of the application the matrix client computes the whole kernel matrix: for
  every variant and all dimensions it accepts it ends with status 0 after one call per query and
  started chunk of 32 references, and the entry of query \<open>q\<close> and reference \<open>r\<close> of its output is the
  kernel of those two vectors, however the references fall into chunks and whatever the reused
  buffers and earlier requests left behind.\<close>

theorem matrix_client_computes_kernel:
  assumes "kernel_variant opt = (cmd, n_qubits, nfeat)"
    and "0 < n_ref" "n_ref \<le> 100000" "0 < n_query" "n_query \<le> 100000"
    and "read_matrix ref_file n_ref nfeat = Some ref" "read_matrix query_file n_query nfeat = Some query"
    and "\<forall>j. env_ok (envs j)" "kstore st"
    and "length inbuf = 12 + 33 * unat nfeat * 4" "length outbuf = 136"
  shows "\<exists>st'. kernel_main (qai_session F envs frames) TEE_SUCCESS TEE_SUCCESS True opt n_ref n_query
      ref_file query_file inbuf outbuf (k, st) =
    Inr (0, Some (map (matrix_entry (pair_kernel F opt) (unat nfeat) ref query (unat n_ref))
        [0..<unat n_query * unat n_ref]),
      (k + unat n_query * ((unat n_ref + 31) div 32), st')) \<and> kstore st'"
proof -
  have "kernel_variant opt = (fst (kernel_variant opt), fst (snd (kernel_variant opt)), snd (snd (kernel_variant opt)))" by simp
  from matrix.whole_program [of envs "(k, st)", OF _ this assms(2-5), of ref_file ref query_file query inbuf outbuf F frames]
  show ?thesis using assms(6-11) by (simp add: assms(1))
qed

theorem matrix_client_computes_kernel_witness:
  "\<exists>st'. kernel_main (qai_session int_fp (\<lambda>k. some_env) (\<lambda>k. some_frame)) TEE_SUCCESS TEE_SUCCESS True ''--qmoc'' 33 2
      (Some (bytes_of_words (replicate 528 1))) (Some (bytes_of_words (replicate 32 2)))
      (replicate 2124 0) (replicate 136 0) (0, used_store) =
    Inr (0, Some (map (matrix_entry (pair_kernel int_fp ''--qmoc'') 16 (replicate 528 1) (replicate 32 2) 33) [0..<66]),
      (4, st')) \<and> kstore st'"
proof -
  have v: "kernel_variant ''--qmoc'' = (8, 8, 16)" by (simp add: kernel_variant_def)
  have r: "read_matrix (Some (bytes_of_words (replicate 528 1))) 33 16 = Some (replicate 528 1)"
    "read_matrix (Some (bytes_of_words (replicate 32 2))) 2 16 = Some (replicate 32 2)"
    by (simp_all add: read_matrix_def)
  show ?thesis
    using matrix_client_computes_kernel [OF v _ _ _ _ r _ kstore_used, of "\<lambda>k. some_env" "replicate 2124 0"
        "replicate 136 0" int_fp "\<lambda>k. some_frame" 0]
    by (simp add: env_ok_def some_env_def)
qed

end
