(* ===== verification/Sw_Log.thy ===== *)
theory Sw_Log
  imports Optee_Prelude
begin

text \<open>
  The secure-world log: the ring buffer that \<open>plat-rpi5/sw_log.c\<close> keeps in normal-world RAM, and
  the Linux tool \<open>tools/optee-sw-log.c\<close> that follows it. The region is a header of four words and
  a data area; the header is writable by the normal world, so the writer must not trust it.

  The lemmas show that the writer stays inside the region whatever the header holds, that an
  undisturbed region always holds the most recent bytes of everything logged, that the reader
  then emits exactly what it has not seen, and that reader and writer can interleave at every
  memory access as long as the reader is less than one buffer behind.
\<close>

section \<open>The shared region\<close>

record rpi5_sw_log_hdr =
  lh_magic :: u32
  lh_write_pos :: u32
  lh_generation :: u32
  lh_reserved :: u32

record sw_region =
  rg_hdr :: rpi5_sw_log_hdr
  rg_data :: "u8 list"

abbreviation (input) RPI5_SW_LOG_MAGIC :: u32 where "RPI5_SW_LOG_MAGIC \<equiv> 0x4f504c47"
abbreviation (input) RPI5_SW_LOG_HDR_SIZE :: u32 where "RPI5_SW_LOG_HDR_SIZE \<equiv> 16"
abbreviation (input) RPI5_SW_LOG_PADDR :: u64 where "RPI5_SW_LOG_PADDR \<equiv> 0x08400000"
abbreviation (input) RPI5_SW_LOG_SIZE :: u32 where "RPI5_SW_LOG_SIZE \<equiv> 0x00010000"

section \<open>Writer\<close>

record sw_log =
  sw_log_pa :: u64
  sw_log_va_base :: u64
  sw_log_size :: u32
  sw_region :: sw_region

definition sw_log_putc :: "u8 \<Rightarrow> sw_log \<Rightarrow> sw_log res" where
  "sw_log_putc ch s =
     (if sw_log_size s = 0 \<or> sw_log_va_base s = 0 then Inr s
      else
        let data_size = sw_log_size s - RPI5_SW_LOG_HDR_SIZE;
            hdr = rg_hdr (sw_region s);
            pos = lh_write_pos hdr;
            gen = lh_generation hdr;
            (pos, gen) = (if pos \<ge> data_size then (0, gen + 1) else (pos, gen))
        in cbind (awrite (rg_data (sw_region s)) (unat pos) ch) (\<lambda>data.
           let pos = pos + 1;
               (pos, gen) = (if pos \<ge> data_size then (0, gen + 1) else (pos, gen))
           in Inr (s\<lparr>sw_region :=
                \<lparr>rg_hdr = hdr\<lparr>lh_generation := gen, lh_write_pos := pos\<rparr>, rg_data = data\<rparr>\<rparr>)))"

fun plat_trace_ext_puts :: "u8 list \<Rightarrow> sw_log \<Rightarrow> sw_log res" where
  "plat_trace_ext_puts [] s = Inr s"
| "plat_trace_ext_puts (c # cs) s =
     (if c = 0 then Inr s else cbind (sw_log_putc c s) (plat_trace_ext_puts cs))"

text \<open>The result of adding the node to the device tree is reported and dropped.\<close>

definition plat_dt_add_reserved_mem :: "int \<Rightarrow> int" where
  "plat_dt_add_reserved_mem add_res_mem_dt_node_ret = 0"

definition plat_trace_init :: "sw_log \<Rightarrow> sw_log" where
  "plat_trace_init s = s\<lparr>sw_log_pa := RPI5_SW_LOG_PADDR\<rparr>"

text \<open>\<open>va\<close> is what \<open>phys_to_virt\<close> returned for the region, 0 for \<open>NULL\<close>.\<close>

definition rpi5_sw_log_init :: "u64 \<Rightarrow> sw_log \<Rightarrow> u32 \<times> sw_log" where
  "rpi5_sw_log_init va s =
     (let s = s\<lparr>sw_log_pa := RPI5_SW_LOG_PADDR\<rparr> in
      if va = 0 then (TEE_ERROR_GENERIC, s)
      else
        let s = s\<lparr>sw_log_va_base := va\<rparr>;
            rg = sw_region s;
            rg = (if lh_magic (rg_hdr rg) \<noteq> RPI5_SW_LOG_MAGIC
                  then rg\<lparr>rg_hdr := \<lparr>lh_magic = RPI5_SW_LOG_MAGIC, lh_write_pos = 0,
                                     lh_generation = 0, lh_reserved = 0\<rparr>\<rparr>
                  else rg)
        in (TEE_SUCCESS, s\<lparr>sw_region := rg, sw_log_size := RPI5_SW_LOG_SIZE\<rparr>))"

section \<open>Reader\<close>

record log_reader =
  read_pos :: u32
  read_gen :: u32

partial_function (option) drain_new ::
  "u32 \<Rightarrow> sw_region \<Rightarrow> log_reader \<Rightarrow> u8 list \<Rightarrow> (log_reader \<times> u8 list) res option" where
  "drain_new data_size rg rd out =
     (let wp = lh_write_pos (rg_hdr rg); gen = lh_generation (rg_hdr rg) in
      if read_pos rd = wp \<and> read_gen rd = gen then Some (Inr (rd, out))
      else case aread (rg_data rg) (unat (read_pos rd)) of
        Inl e \<Rightarrow> Some (Inl e)
      | Inr ch \<Rightarrow>
          let rd = rd\<lparr>read_pos := read_pos rd + 1\<rparr>;
              rd = (if read_pos rd \<ge> data_size then rd\<lparr>read_pos := 0, read_gen := gen\<rparr> else rd)
          in drain_new data_size rg rd (out @ [ch]))"

text \<open>
  \<open>map_log\<close> after the mapping succeeded: \<open>polls\<close> are the regions it sees at its successive looks
  at the magic number. Without \<open>wait_magic\<close> only the first counts; with it, up to 601 waits.
\<close>

fun map_log :: "bool \<Rightarrow> nat \<Rightarrow> sw_region list \<Rightarrow> log_reader option" where
  "map_log wait_magic tries [] = None"
| "map_log wait_magic tries (rg # polls) =
     (if lh_magic (rg_hdr rg) \<noteq> RPI5_SW_LOG_MAGIC then
        if \<not> wait_magic \<or> tries > 600 then None
        else map_log wait_magic (Suc tries) polls
      else Some \<lparr>read_pos = lh_write_pos (rg_hdr rg), read_gen = lh_generation (rg_hdr rg)\<rparr>)"

text \<open>\<open>main\<close> without \<open>--follow\<close>: map, drain once, exit; \<open>None\<close> is the exit with status 1.\<close>

definition log_main_once :: "u32 \<Rightarrow> sw_region \<Rightarrow> (log_reader \<times> u8 list) res option option" where
  "log_main_once region_size rg =
     map_option (\<lambda>rd. drain_new (region_size - RPI5_SW_LOG_HDR_SIZE) rg rd [])
       (map_log False 0 [rg])"

section \<open>The ring as the tail of a history\<close>

definition ring_holds :: "sw_region \<Rightarrow> u8 list \<Rightarrow> bool" where
  "ring_holds rg hist \<longleftrightarrow>
     (let ds = length (rg_data rg); n = length hist in
      0 < ds \<and> ds < 2 ^ 32 \<and>
      lh_write_pos (rg_hdr rg) = of_nat (n mod ds) \<and>
      lh_generation (rg_hdr rg) = of_nat (n div ds) \<and>
      (\<forall>i<n. n \<le> i + ds \<longrightarrow> rg_data rg ! (i mod ds) = hist ! i))"

definition log_ready :: "sw_log \<Rightarrow> bool" where
  "log_ready s \<longleftrightarrow> sw_log_va_base s \<noteq> 0 \<and> 16 < sw_log_size s \<and>
     length (rg_data (sw_region s)) = unat (sw_log_size s - RPI5_SW_LOG_HDR_SIZE)"

lemma log_ready_size:
  "log_ready s \<Longrightarrow> 0 < length (rg_data (sw_region s)) \<and> length (rg_data (sw_region s)) < 2 ^ 32 \<and>
     sw_log_size s \<noteq> 0 \<and> sw_log_va_base s \<noteq> 0"
  using unsigned_less [of "sw_log_size s", where 'a = nat] unfolding log_ready_def
  by (auto simp: word_less_nat_alt unat_sub word_le_nat_alt)

lemma mod_eq_near:
  fixes i n ds :: nat
  assumes "i < n" "n < i + ds"
  shows "i mod ds \<noteq> n mod ds"
proof
  assume "i mod ds = n mod ds"
  then have "ds dvd n - i" using assms(1) mod_eq_dvd_iff_nat [of i n ds] by simp
  moreover have "0 < n - i" "n - i < ds" using assms by linarith+
  ultimately show False using nat_dvd_not_less by blast
qed

text \<open>The value of \<open>sw_log_putc\<close> for a region whose write position is in range.\<close>

lemma putc_in_range:
  assumes rdy: "log_ready s" and pos: "unat (lh_write_pos (rg_hdr (sw_region s))) < length (rg_data (sw_region s))"
  defines "ds \<equiv> length (rg_data (sw_region s))" and "p \<equiv> unat (lh_write_pos (rg_hdr (sw_region s)))"
    and "hdr \<equiv> rg_hdr (sw_region s)"
  shows "sw_log_putc ch s = Inr (s\<lparr>sw_region :=
    \<lparr>rg_hdr = (if Suc p = ds then hdr\<lparr>lh_generation := lh_generation hdr + 1, lh_write_pos := 0\<rparr>
               else hdr\<lparr>lh_write_pos := of_nat (Suc p)\<rparr>),
     rg_data = (rg_data (sw_region s))[p := ch]\<rparr>\<rparr>)"
proof -
  note sz = log_ready_size [OF rdy]
  let ?d = "sw_log_size s - 16"
  have d: "unat ?d = ds" using rdy by (simp add: log_ready_def ds_def)
  have p: "p < ds" using pos by (simp add: p_def ds_def)
  have "\<not> ?d \<le> lh_write_pos hdr"
    using p d by (simp add: word_le_nat_alt p_def hdr_def)
  moreover have suc: "lh_write_pos hdr + 1 = (of_nat (Suc p) :: u32)"
    by (simp add: p_def hdr_def)
  moreover have "?d \<le> of_nat (Suc p) \<longleftrightarrow> Suc p = ds"
    using p d sz by (simp add: word_le_nat_alt unat_of_nat_32 ds_def del: of_nat_Suc) auto
  ultimately show ?thesis
    using sz p pos unfolding sw_log_putc_def p_def ds_def hdr_def
    by (simp add: Let_def del: of_nat_Suc)
qed

lemma putc_in_range_ex:
  assumes rdy: "log_ready s" and pos: "unat (lh_write_pos (rg_hdr (sw_region s))) < length (rg_data (sw_region s))"
  shows "\<exists>s' p. sw_log_putc ch s = Inr s' \<and> p < length (rg_data (sw_region s)) \<and>
    rg_data (sw_region s') = (rg_data (sw_region s))[p := ch] \<and> log_ready s' \<and>
    unat (lh_write_pos (rg_hdr (sw_region s'))) < length (rg_data (sw_region s'))"
proof -
  let ?p = "unat (lh_write_pos (rg_hdr (sw_region s)))" and ?ds = "length (rg_data (sw_region s))"
  have "unat (of_nat (Suc ?p) :: u32) = Suc ?p" if "Suc ?p \<noteq> ?ds"
    using that pos log_ready_size [OF rdy] by (intro unat_of_nat_32) linarith
  then show ?thesis
    unfolding putc_in_range [OF rdy pos] using pos rdy log_ready_size [OF rdy]
    by (auto simp: log_ready_def simp del: of_nat_Suc)
qed

text \<open>A position outside the data area is first rewound, as if a new generation had begun.\<close>

definition rewound :: "sw_log \<Rightarrow> sw_log" where
  "rewound s = s\<lparr>sw_region := (sw_region s)\<lparr>rg_hdr := (rg_hdr (sw_region s))
     \<lparr>lh_write_pos := 0, lh_generation := lh_generation (rg_hdr (sw_region s)) + 1\<rparr>\<rparr>\<rparr>"

lemma putc_rewinds:
  assumes rdy: "log_ready s" and pos: "\<not> unat (lh_write_pos (rg_hdr (sw_region s))) < length (rg_data (sw_region s))"
  shows "sw_log_putc ch s = sw_log_putc ch (rewound s)"
proof -
  have "sw_log_size s - 16 \<le> lh_write_pos (rg_hdr (sw_region s))"
    using rdy pos by (simp add: word_le_nat_alt log_ready_def)
  moreover have "\<not> sw_log_size s - 16 \<le> 0"
    using rdy log_ready_size [OF rdy] by (auto simp: log_ready_def)
  ultimately show ?thesis
    using log_ready_size [OF rdy] by (simp add: sw_log_putc_def rewound_def Let_def)
qed

lemma ring_holds_snoc:
  assumes ring: "ring_holds rg hist"
  defines "ds \<equiv> length (rg_data rg)" and "p \<equiv> length hist mod length (rg_data rg)" and "hdr \<equiv> rg_hdr rg"
  shows "ring_holds \<lparr>rg_hdr = (if Suc p = ds then hdr\<lparr>lh_generation := lh_generation hdr + 1, lh_write_pos := 0\<rparr>
               else hdr\<lparr>lh_write_pos := of_nat (Suc p)\<rparr>),
     rg_data = (rg_data rg)[p := ch]\<rparr> (hist @ [ch])"
proof -
  let ?n = "length hist"
  from ring have ds: "0 < ds" "ds < 2 ^ 32" and gen: "lh_generation hdr = of_nat (?n div ds)"
    and data: "\<And>i. i < ?n \<Longrightarrow> ?n \<le> i + ds \<Longrightarrow> rg_data rg ! (i mod ds) = hist ! i"
    by (simp_all add: ring_holds_def ds_def hdr_def Let_def)
  have p: "p < ds" using ds by (simp add: p_def ds_def)
  have at_p: "?n mod ds = p" by (simp add: p_def ds_def)
  have "(rg_data rg)[p := ch] ! (i mod ds) = (hist @ [ch]) ! i" if i: "i < Suc ?n" "Suc ?n \<le> i + ds" for i
  proof (cases "i = ?n")
    case True
    then show ?thesis using p unfolding ds_def p_def by simp
  next
    case False
    then have "i mod ds \<noteq> p" using mod_eq_near [of i ?n ds] i by (simp add: at_p)
    then show ?thesis using False i data by (simp add: nth_append)
  qed
  moreover have "Suc ?n mod ds = (if Suc p = ds then 0 else Suc p)"
    "Suc ?n div ds = (if Suc p = ds then Suc (?n div ds) else ?n div ds)"
    by (simp_all add: mod_Suc div_Suc at_p)
  ultimately show ?thesis
    using ds gen ring by (simp add: ring_holds_def Let_def hdr_def ds_def add.commute)
qed

section \<open>Log writers\<close>

text \<open>
  What a console needs of a log: after appending one byte the log holds the longer history. A
  string then appends all its bytes.
\<close>

locale byte_log =
  fixes put :: "u8 \<Rightarrow> 's \<Rightarrow> 's res"
    and holds :: "'s \<Rightarrow> u8 list \<Rightarrow> bool"
  assumes put_holds: "holds s h \<Longrightarrow> \<exists>s'. put c s = Inr s' \<and> holds s' (h @ [c])"
begin

lemma fold_put:
  "holds s h \<Longrightarrow> \<exists>s'. foldl (\<lambda>m c. cbind m (put c)) (Inr s) cs = Inr s' \<and> holds s' (h @ cs)"
proof (induction cs arbitrary: s h)
  case Nil
  then show ?case by simp
next
  case (Cons c cs)
  from put_holds [OF Cons.prems, of c] obtain s1 where "put c s = Inr s1" "holds s1 (h @ [c])" by blast
  with Cons.IH [of s1 "h @ [c]"] show ?case by simp
qed

end

definition log_holds :: "sw_log \<Rightarrow> u8 list \<Rightarrow> bool" where
  "log_holds s hist \<longleftrightarrow> log_ready s \<and> ring_holds (sw_region s) hist"

lemma putc_holds:
  assumes "log_holds s hist"
  shows "\<exists>s'. sw_log_putc ch s = Inr s' \<and> log_holds s' (hist @ [ch])"
proof -
  let ?rg = "sw_region s"
  from assms have rdy: "log_ready s" and ring: "ring_holds ?rg hist" by (simp_all add: log_holds_def)
  from ring have p: "unat (lh_write_pos (rg_hdr ?rg)) = length hist mod length (rg_data ?rg)"
    and lt: "length hist mod length (rg_data ?rg) < length (rg_data ?rg)"
    by (auto simp: ring_holds_def Let_def intro!: unat_of_nat_32 less_trans [OF mod_less_divisor])
  from putc_in_range [OF rdy, of ch] lt show ?thesis
    unfolding p using ring_holds_snoc [OF ring, of ch] rdy
    by (simp add: log_holds_def log_ready_def)
qed

interpretation sw_log_writer: byte_log sw_log_putc log_holds
  by unfold_locales (rule putc_holds)

lemma puts_foldl:
  "plat_trace_ext_puts str s = foldl (\<lambda>m c. cbind m (sw_log_putc c)) (Inr s) (takeWhile (\<lambda>c. c \<noteq> 0) str)"
proof (induction str arbitrary: s)
  case (Cons c cs)
  have "foldl (\<lambda>m c. cbind m (sw_log_putc c)) (Inl e) xs = Inl e" for e xs
    by (induction xs) simp_all
  then show ?case using Cons by (cases "sw_log_putc c s") simp_all
qed simp

section \<open>Draining an undisturbed region\<close>

definition reader_at :: "nat \<Rightarrow> nat \<Rightarrow> log_reader \<Rightarrow> bool" where
  "reader_at ds r rd \<longleftrightarrow> read_pos rd = of_nat (r mod ds) \<and> read_gen rd = of_nat (r div ds)"

lemma of_nat_Suc_neq: "(of_nat (Suc n) :: u32) \<noteq> of_nat n"
  by simp

lemma near_div:
  fixes r n ds :: nat
  assumes "0 < ds" "Suc r \<le> n" "n \<le> r + ds" "Suc r mod ds = 0"
  shows "n div ds = Suc r div ds"
proof -
  from assms(4) obtain m where m: "Suc r = m * ds" by (metis dvd_eq_mod_eq_0 dvd_def mult.commute)
  with assms(2,3) have "m * ds \<le> n" "n < Suc m * ds" by simp_all
  then have "n div ds = m" by (simp add: div_nat_eqI mult.commute)
  moreover have "Suc r div ds = m" using m assms(1) by simp
  ultimately show ?thesis by simp
qed

lemma same_slot_only_lap:
  fixes r n ds :: nat
  assumes "r < n" "n \<le> r + ds" "r mod ds = n mod ds"
  shows "n div ds = Suc (r div ds)"
proof -
  have "n = r + ds" using assms mod_eq_near [of r n ds] by force
  moreover have "0 < ds" using assms(1,2) by simp
  ultimately show ?thesis by (simp add: div_add_self2)
qed

lemma reader_at_end_iff:
  assumes "ring_holds rg hist" "reader_at ds r rd" "ds = length (rg_data rg)"
    and "r \<le> length hist" "length hist \<le> r + ds"
  shows "read_pos rd = lh_write_pos (rg_hdr rg) \<and> read_gen rd = lh_generation (rg_hdr rg) \<longleftrightarrow>
    r = length hist"
proof
  let ?n = "length hist"
  assume eq: "read_pos rd = lh_write_pos (rg_hdr rg) \<and> read_gen rd = lh_generation (rg_hdr rg)"
  have ds: "0 < ds" "ds < 2 ^ 32" using assms by (simp_all add: ring_holds_def Let_def)
  have lt: "r mod ds < 2 ^ 32" "?n mod ds < 2 ^ 32"
    using ds by (meson less_trans mod_less_divisor)+
  from eq have "(of_nat (r mod ds) :: u32) = of_nat (?n mod ds)"
    and gen: "(of_nat (r div ds) :: u32) = of_nat (?n div ds)"
    using assms(1-3) by (simp_all add: ring_holds_def reader_at_def Let_def)
  then have "r mod ds = ?n mod ds" using lt by (metis unat_of_nat_32)
  then show "r = ?n"
    using same_slot_only_lap [of r ?n ds] assms(4,5) gen of_nat_Suc_neq [of "r div ds"]
    by (metis le_neq_implies_less)
qed (use assms in \<open>simp add: ring_holds_def reader_at_def Let_def\<close>)

lemma reader_advance:
  assumes "0 < ds" "ds < 2 ^ 32" "reader_at ds r rd" "Suc r \<le> n" "n \<le> r + ds"
  defines "rd1 \<equiv> rd\<lparr>read_pos := read_pos rd + 1\<rparr>"
  shows "reader_at ds (Suc r) (if read_pos rd1 \<ge> of_nat ds
           then rd1\<lparr>read_pos := 0, read_gen := of_nat (n div ds)\<rparr> else rd1)"
proof -
  have m: "r mod ds < ds" using assms(1) by simp
  then have "Suc (r mod ds) < 2 ^ 32 \<or> Suc (r mod ds) = ds" using assms(2) by linarith
  then have u: "unat (of_nat (Suc (r mod ds)) :: u32) = Suc (r mod ds)"
    using assms(2) m by (intro unat_of_nat_32) linarith
  have rp: "read_pos rd1 = of_nat (Suc (r mod ds))" "read_gen rd1 = of_nat (r div ds)"
    using assms(3) by (simp_all add: reader_at_def rd1_def)
  have wrap: "read_pos rd1 \<ge> of_nat ds \<longleftrightarrow> Suc (r mod ds) = ds"
    unfolding rp word_le_nat_alt u using m assms(2) by (simp add: unat_of_nat_32) linarith
  show ?thesis
  proof (cases "Suc (r mod ds) = ds")
    case True
    then have "Suc r mod ds = 0" by (simp add: mod_Suc)
    with near_div [OF assms(1,4,5)] show ?thesis
      using True wrap by (simp add: reader_at_def)
  next
    case False
    then show ?thesis
      using wrap rp by (simp add: reader_at_def mod_Suc div_Suc del: of_nat_Suc)
  qed
qed

lemma drain_new_exact:
  assumes "ring_holds rg hist" "ds = length (rg_data rg)"
    and "reader_at ds r rd" "r \<le> length hist" "length hist \<le> r + ds"
  shows "\<exists>rd'. drain_new (of_nat ds) rg rd out = Some (Inr (rd', out @ drop r hist)) \<and>
    reader_at ds (length hist) rd'"
  using assms
proof (induction "length hist - r" arbitrary: r rd out)
  case 0
  then have "r = length hist" by simp
  with reader_at_end_iff [OF 0(2,4,3)] 0 show ?case
    by (subst drain_new.simps) simp
next
  case (Suc k)
  let ?n = "length hist"
  have r: "r < ?n" "Suc r \<le> ?n" using Suc.hyps(2) by linarith+
  have ds: "0 < ds" "ds < 2 ^ 32" and data: "rg_data rg ! (r mod ds) = hist ! r"
    and gen: "lh_generation (rg_hdr rg) = of_nat (?n div ds)"
    using Suc.prems r(1) by (simp_all add: ring_holds_def Let_def)
  have "r mod ds < 2 ^ 32" using ds by (meson less_trans mod_less_divisor)
  then have pos: "unat (read_pos rd) = r mod ds"
    using Suc.prems(3) by (simp add: reader_at_def unat_of_nat_32)
  let ?rd1 = "rd\<lparr>read_pos := read_pos rd + 1\<rparr>"
  let ?rd2 = "if read_pos ?rd1 \<ge> of_nat ds
           then ?rd1\<lparr>read_pos := 0, read_gen := of_nat (?n div ds)\<rparr> else ?rd1"
  have "\<not> (read_pos rd = lh_write_pos (rg_hdr rg) \<and> read_gen rd = lh_generation (rg_hdr rg))"
    using reader_at_end_iff [OF Suc.prems(1,3,2)] Suc.prems(4,5) r(1) by simp
  then have step: "drain_new (of_nat ds) rg rd out = drain_new (of_nat ds) rg ?rd2 (out @ [hist ! r])"
    using ds Suc.prems(2) pos data gen by (subst drain_new.simps) (auto simp: Let_def)
  have at: "reader_at ds (Suc r) ?rd2"
    by (rule reader_advance [OF ds Suc.prems(3) r(2) Suc.prems(5)])
  have "k = ?n - Suc r" "?n \<le> Suc r + ds" using Suc.hyps(2) Suc.prems(5) by simp_all
  from Suc.hyps(1) [OF this(1) Suc.prems(1,2) at r(2) this(2)]
  obtain rd' where "drain_new (of_nat ds) rg ?rd2 (out @ [hist ! r]) =
      Some (Inr (rd', (out @ [hist ! r]) @ drop (Suc r) hist))" "reader_at ds ?n rd'"
    by blast
  then show ?case
    unfolding step using Cons_nth_drop_Suc [OF r(1)] by auto
qed

lemma drain_new_stuck:
  assumes "drain_new ds rg rd out = Some y"
  shows "\<not> (ds \<le> lh_write_pos (rg_hdr rg) \<and> read_pos rd < ds \<and> unat ds \<le> length (rg_data rg))"
proof (rule drain_new.raw_induct [OF _ assms, where P = "\<lambda>ds rg rd out y.
    \<not> (ds \<le> lh_write_pos (rg_hdr rg) \<and> read_pos rd < ds \<and> unat ds \<le> length (rg_data rg))"],
    rule notI, goal_cases)
  case (1 drain ds rg rd out y)
  then have wp: "ds \<le> lh_write_pos (rg_hdr rg)" and rp: "read_pos rd < ds"
    and len: "unat ds \<le> length (rg_data rg)" by auto
  let ?rd = "if ds \<le> read_pos rd + 1
       then rd\<lparr>read_pos := 0, read_gen := lh_generation (rg_hdr rg)\<rparr>
       else rd\<lparr>read_pos := read_pos rd + 1\<rparr>"
  have "read_pos rd \<noteq> lh_write_pos (rg_hdr rg)" using wp rp by auto
  moreover have "unat (read_pos rd) < length (rg_data rg)"
    using rp len by (simp add: word_less_nat_alt)
  ultimately have "drain ds rg ?rd (out @ [rg_data rg ! unat (read_pos rd)]) = Some y"
    using 1(2) by (auto simp: Let_def split: if_splits)
  moreover have "read_pos ?rd < ds"
    using rp by (auto simp: not_le word_gt_0)
  ultimately show False using 1(1) wp len by blast
qed

section \<open>Properties\<close>

text \<open>Claim C22: whatever the normal world has written into the log header, logging a byte stays inside
  the region: the write of \<open>sw_log_putc\<close> is in bounds, exactly one byte of the data area
  changes, and the position it leaves is in range again.\<close>

theorem putc_untrusted_header:
  assumes "log_ready s"
  shows "\<exists>s' p. sw_log_putc ch s = Inr s' \<and> p < length (rg_data (sw_region s)) \<and>
    rg_data (sw_region s') = (rg_data (sw_region s))[p := ch] \<and> log_ready s' \<and>
    unat (lh_write_pos (rg_hdr (sw_region s'))) < length (rg_data (sw_region s'))"
proof (cases "unat (lh_write_pos (rg_hdr (sw_region s))) < length (rg_data (sw_region s))")
  case True
  then show ?thesis by (rule putc_in_range_ex [OF assms])
next
  case False
  let ?s = "rewound s"
  have "log_ready ?s" and "unat (lh_write_pos (rg_hdr (sw_region ?s))) < length (rg_data (sw_region ?s))"
    using assms log_ready_size [OF assms] by (simp_all add: log_ready_def rewound_def)
  from putc_in_range_ex [OF this, of ch] show ?thesis
    using putc_rewinds [OF assms False, of ch] by (simp add: rewound_def)
qed

definition small_log :: "u32 \<Rightarrow> sw_log" where
  "small_log wp = \<lparr>sw_log_pa = 0x08400000, sw_log_va_base = 0x1000, sw_log_size = 20,
     sw_region = \<lparr>rg_hdr = \<lparr>lh_magic = 0x4f504c47, lh_write_pos = wp, lh_generation = 0, lh_reserved = 0\<rparr>,
                  rg_data = [0, 0, 0, 0]\<rparr>\<rparr>"

lemma small_log_ready: "log_ready (small_log wp)"
  by (simp add: log_ready_def small_log_def)

theorem putc_untrusted_header_witness:
  "\<exists>s' p. sw_log_putc 65 (small_log 0xFFFFFFFF) = Inr s' \<and>
    p < length (rg_data (sw_region (small_log 0xFFFFFFFF))) \<and>
    rg_data (sw_region s') = (rg_data (sw_region (small_log 0xFFFFFFFF)))[p := 65] \<and> log_ready s' \<and>
    unat (lh_write_pos (rg_hdr (sw_region s'))) < length (rg_data (sw_region s'))"
  by (rule putc_untrusted_header [OF small_log_ready])

text \<open>Claim C21: a log that holds the most recent bytes of a history still does after a string was
  logged: the string, up to its terminator, is appended to the history, and wherever the ring
  wraps every byte within one buffer length of the end is where the reader expects it.\<close>

theorem puts_appends:
  assumes "log_holds s hist"
  shows "\<exists>s'. plat_trace_ext_puts str s = Inr s' \<and> log_holds s' (hist @ takeWhile (\<lambda>c. c \<noteq> 0) str)"
  unfolding puts_foldl by (rule sw_log_writer.fold_put [OF assms])

theorem puts_appends_witness:
  "\<exists>s'. plat_trace_ext_puts [65, 66, 67, 68, 69, 70, 0, 71] (small_log 0) = Inr s' \<and>
     log_holds s' [65, 66, 67, 68, 69, 70]"
proof -
  have "log_holds (small_log 0) []"
    by (simp add: log_holds_def log_ready_def ring_holds_def small_log_def)
  from puts_appends [OF this, of "[65, 66, 67, 68, 69, 70, 0, 71]"] show ?thesis by simp
qed

text \<open>Claim C20: a reader that had seen the first \<open>r\<close> bytes of the history and is at most one buffer
  behind terminates and emits exactly the bytes after those, once each and in order, across any
  wrap of the ring, and it is then positioned at the end.\<close>

theorem drain_emits_unseen:
  assumes "ring_holds rg hist" "reader_at (length (rg_data rg)) r rd"
    and "r \<le> length hist" "length hist \<le> r + length (rg_data rg)"
  shows "\<exists>rd'. drain_new (of_nat (length (rg_data rg))) rg rd [] = Some (Inr (rd', drop r hist)) \<and>
    reader_at (length (rg_data rg)) (length hist) rd'"
  using drain_new_exact [OF assms(1) refl assms(2-4), of "[]"] by simp

theorem drain_emits_unseen_witness:
  "\<exists>rd'. drain_new (of_nat (length ([69, 70, 67, 68] :: u8 list)))
     \<lparr>rg_hdr = \<lparr>lh_magic = 0x4f504c47, lh_write_pos = 2, lh_generation = 1, lh_reserved = 0\<rparr>,
      rg_data = [69, 70, 67, 68]\<rparr> \<lparr>read_pos = 3, read_gen = 0\<rparr> [] =
     Some (Inr (rd', [68, 69, 70]))"
proof -
  let ?rg = "\<lparr>rg_hdr = \<lparr>lh_magic = 0x4f504c47, lh_write_pos = 2, lh_generation = 1, lh_reserved = 0\<rparr>,
      rg_data = [69, 70, 67, 68]\<rparr>"
  let ?h = "[65, 66, 67, 68, 69, 70] :: u8 list"
  have data: "rg_data ?rg ! (i mod length (rg_data ?rg)) = ?h ! i"
    if "i < length ?h" "length ?h \<le> i + length (rg_data ?rg)" for i
  proof -
    from that have "i = 2 \<or> i = 3 \<or> i = 4 \<or> i = 5" by auto
    then show ?thesis by auto
  qed
  have "ring_holds ?rg ?h"
    unfolding ring_holds_def Let_def
    by (intro conjI allI impI, simp, simp, simp, simp, rule data)
  moreover have "reader_at (length (rg_data ?rg)) 3 \<lparr>read_pos = 3, read_gen = 0\<rparr>"
    by (simp add: reader_at_def)
  ultimately show ?thesis
    using drain_emits_unseen [of ?rg "[65, 66, 67, 68, 69, 70]" 3 "\<lparr>read_pos = 3, read_gen = 0\<rparr>"]
    by auto
qed

text \<open>Without \<open>--follow\<close> the tool never prints anything: it starts reading where the writer
  stands, so the one drain it does before it exits is empty, however much the log holds.\<close>

theorem log_main_once_prints_nothing:
  assumes "log_main_once region_size rg = Some result"
  shows "\<exists>rd. result = Some (Inr (rd, []))"
proof -
  have "drain_new ds rg \<lparr>read_pos = lh_write_pos (rg_hdr rg), read_gen = lh_generation (rg_hdr rg)\<rparr> [] =
    Some (Inr (\<lparr>read_pos = lh_write_pos (rg_hdr rg), read_gen = lh_generation (rg_hdr rg)\<rparr>, []))" for ds
    by (subst drain_new.simps) simp
  then show ?thesis using assms by (auto simp: log_main_once_def split: if_splits)
qed

theorem log_main_once_prints_nothing_witness:
  "\<exists>rd. log_main_once 20 (sw_region (small_log 3)) = Some (Some (Inr (rd, [])))"
proof -
  have "\<exists>r. log_main_once 20 (sw_region (small_log 3)) = Some r"
    by (simp add: log_main_once_def small_log_def)
  then obtain r where r: "log_main_once 20 (sw_region (small_log 3)) = Some r" by blast
  from log_main_once_prints_nothing [OF r] r show ?thesis by blast
qed

text \<open>The reader never returns from a drain when the header holds a write position outside
  the data area, which the normal world can store there.\<close>

theorem drain_diverges_on_bad_header:
  assumes "ds \<le> lh_write_pos (rg_hdr rg)" "read_pos rd < ds" "unat ds \<le> length (rg_data rg)"
  shows "drain_new ds rg rd out = None"
  using drain_new_stuck [of ds rg rd out] assms by fastforce

theorem drain_diverges_on_bad_header_witness:
  "drain_new 4 (sw_region (small_log 9)) \<lparr>read_pos = 0, read_gen = 0\<rparr> [] = None"
  by (rule drain_diverges_on_bad_header) (simp_all add: small_log_def)

end
