(* ===== verification/Sw_Log_Race.thy ===== *)
theory Sw_Log_Race
  imports Sw_Log
begin

text \<open>
  Writer and reader of the log running concurrently, one memory access at a time. The writer
  (\<open>sw_log_putc\<close>) stores the byte, then the generation, then the position; the reader
  (\<open>drain_new\<close>) loads the position, then the generation, compares, and loads a byte. The two
  share no lock: the spin lock of the secure world only excludes other writers.

  A run in which the reader never loads the position between the two header stores emits a
  prefix of what was logged. Without that restriction it does not: the header then shows the
  old position with the new generation.
\<close>

section \<open>Steps\<close>

datatype writer_pc =
    W_idle
  | W_gen u32 u32
  | W_pos u32

datatype reader_pc =
    R_wp
  | R_gen u32
  | R_emit u32

record duo =
  hd_wp :: u32
  hd_gen :: u32
  hd_data :: "u8 list"
  wr_pc :: writer_pc
  rd_pc :: reader_pc
  rd_pos :: u32
  rd_gen :: u32
  logged :: "u8 list"
  emitted :: "u8 list"

text \<open>
  \<open>logged\<close> records the bytes the writer has stored and \<open>emitted\<close> what the reader printed. The
  writer starts a byte only while less than one buffer is unread. With \<open>torn\<close> the reader may
  load the position between the stores of generation and position.
\<close>

inductive duo_step :: "u32 \<Rightarrow> bool \<Rightarrow> duo \<Rightarrow> duo \<Rightarrow> bool" for ds :: u32 and torn :: bool where
  store_byte: "wr_pc s = W_idle \<Longrightarrow> length (logged s) < length (emitted s) + unat ds \<Longrightarrow>
    (pos, gen) = (if hd_wp s \<ge> ds then (0, hd_gen s + 1) else (hd_wp s, hd_gen s)) \<Longrightarrow>
    (pos', gen') = (if pos + 1 \<ge> ds then (0, gen + 1) else (pos + 1, gen)) \<Longrightarrow>
    duo_step ds torn s (s\<lparr>hd_data := (hd_data s)[unat pos := c], wr_pc := W_gen gen' pos',
                          logged := logged s @ [c]\<rparr>)"
| store_gen: "wr_pc s = W_gen gen pos \<Longrightarrow> duo_step ds torn s (s\<lparr>hd_gen := gen, wr_pc := W_pos pos\<rparr>)"
| store_pos: "wr_pc s = W_pos pos \<Longrightarrow> duo_step ds torn s (s\<lparr>hd_wp := pos, wr_pc := W_idle\<rparr>)"
| load_wp: "rd_pc s = R_wp \<Longrightarrow> torn \<or> (\<forall>p. wr_pc s \<noteq> W_pos p) \<Longrightarrow>
    duo_step ds torn s (s\<lparr>rd_pc := R_gen (hd_wp s)\<rparr>)"
| load_gen: "rd_pc s = R_gen wp \<Longrightarrow>
    duo_step ds torn s
      (s\<lparr>rd_pc := (if rd_pos s = wp \<and> rd_gen s = hd_gen s then R_wp else R_emit (hd_gen s))\<rparr>)"
| load_byte: "rd_pc s = R_emit gen \<Longrightarrow>
    (pos, g) = (if rd_pos s + 1 \<ge> ds then (0, gen) else (rd_pos s + 1, rd_gen s)) \<Longrightarrow>
    duo_step ds torn s (s\<lparr>emitted := emitted s @ [hd_data s ! unat (rd_pos s)],
                          rd_pos := pos, rd_gen := g, rd_pc := R_wp\<rparr>)"

definition duo_start :: "u8 list \<Rightarrow> duo" where
  "duo_start junk = \<lparr>hd_wp = 0, hd_gen = 0, hd_data = junk, wr_pc = W_idle, rd_pc = R_wp,
     rd_pos = 0, rd_gen = 0, logged = [], emitted = []\<rparr>"

section \<open>Invariant\<close>

text \<open>Bytes the header position accounts for, and bytes the header generation accounts for.\<close>

definition committed :: "duo \<Rightarrow> nat" where
  "committed s = (case wr_pc s of W_idle \<Rightarrow> length (logged s) | _ \<Rightarrow> length (logged s) - 1)"

definition announced :: "duo \<Rightarrow> nat" where
  "announced s = (case wr_pc s of W_gen _ _ \<Rightarrow> length (logged s) - 1 | _ \<Rightarrow> length (logged s))"

definition writer_inv :: "nat \<Rightarrow> duo \<Rightarrow> bool" where
  "writer_inv ds s \<longleftrightarrow>
     (let n = length (logged s) in
      (case wr_pc s of
         W_idle \<Rightarrow> True
       | W_gen g p \<Rightarrow> 0 < n \<and> g = of_nat (n div ds) \<and> p = of_nat (n mod ds)
       | W_pos p \<Rightarrow> 0 < n \<and> p = of_nat (n mod ds)) \<and>
      hd_wp s = of_nat (committed s mod ds) \<and> hd_gen s = of_nat (announced s div ds) \<and>
      length (hd_data s) = ds \<and>
      (\<forall>i<n. n \<le> i + ds \<longrightarrow> hd_data s ! (i mod ds) = logged s ! i))"

definition reader_inv :: "nat \<Rightarrow> duo \<Rightarrow> bool" where
  "reader_inv ds s \<longleftrightarrow>
     (let r = length (emitted s) in
      r \<le> announced s \<and> length (logged s) \<le> r + ds \<and>
      rd_pos s = of_nat (r mod ds) \<and> rd_gen s = of_nat (r div ds) \<and>
      (case rd_pc s of
         R_wp \<Rightarrow> True
       | R_gen wp \<Rightarrow> \<exists>c. r \<le> c \<and> c \<le> committed s \<and> wp = of_nat (c mod ds)
       | R_emit g \<Rightarrow> \<exists>x. r < x \<and> x \<le> announced s \<and> g = of_nat (x div ds)))"

definition duo_inv :: "nat \<Rightarrow> duo \<Rightarrow> bool" where
  "duo_inv ds s \<longleftrightarrow> writer_inv ds s \<and> reader_inv ds s \<and> emitted s = take (length (emitted s)) (logged s)"

lemma announced_le: "announced s \<le> length (logged s)"
  by (simp add: announced_def split: writer_pc.split)

lemma committed_le_announced: "committed s \<le> announced s"
  by (simp add: announced_def committed_def split: writer_pc.split)

lemma slot_word:
  assumes "0 < ds" "ds < 2 ^ 32"
  shows "unat (of_nat (m mod ds) :: u32) = m mod ds"
  using assms by (intro unat_of_nat_32) (meson less_trans mod_less_divisor)

lemma slot_wrap_iff:
  assumes "0 < ds" "ds < 2 ^ 32"
  shows "(of_nat ds :: u32) \<le> of_nat (m mod ds) + 1 \<longleftrightarrow> Suc (m mod ds) = ds"
proof -
  have m: "m mod ds < ds" using assms(1) by simp
  then have "unat (of_nat (Suc (m mod ds)) :: u32) = Suc (m mod ds)"
    using assms(2) by (intro unat_of_nat_32) linarith
  moreover have "(of_nat (m mod ds) + 1 :: u32) = of_nat (Suc (m mod ds))" by simp
  ultimately show ?thesis
    using m assms(2) by (simp only: word_le_nat_alt unat_of_nat_32) linarith
qed

lemma next_slot:
  assumes "0 < ds" "ds < 2 ^ 32"
  shows "(if (of_nat ds :: u32) \<le> of_nat (n mod ds) + 1 then (0, of_nat (n div ds) + 1 :: u32)
          else (of_nat (n mod ds) + 1, of_nat (n div ds))) =
         (of_nat (Suc n mod ds), of_nat (Suc n div ds))"
  using slot_wrap_iff [OF assms, of n] by (simp add: mod_Suc div_Suc) (simp add: add.commute)

lemma store_byte_inv:
  assumes ds: "0 < ds" "ds < 2 ^ 32" and inv: "duo_inv ds s" and pc: "wr_pc s = W_idle"
    and room: "length (logged s) < length (emitted s) + ds"
  shows "duo_inv ds (s\<lparr>hd_data := (hd_data s)[length (logged s) mod ds := c],
     wr_pc := W_gen (of_nat (Suc (length (logged s)) div ds)) (of_nat (Suc (length (logged s)) mod ds)),
     logged := logged s @ [c]\<rparr>)"
proof -
  let ?n = "length (logged s)"
  have w: "writer_inv ds s" and r: "reader_inv ds s" and e: "emitted s = take (length (emitted s)) (logged s)"
    using inv by (simp_all add: duo_inv_def)
  have len: "length (hd_data s) = ds"
    and data: "\<And>i. i < ?n \<Longrightarrow> ?n \<le> i + ds \<Longrightarrow> hd_data s ! (i mod ds) = logged s ! i"
    using w by (simp_all add: writer_inv_def Let_def)
  have "(hd_data s)[?n mod ds := c] ! (i mod ds) = (logged s @ [c]) ! i"
    if "i < Suc ?n" "Suc ?n \<le> i + ds" for i
  proof (cases "i = ?n")
    case False
    then have "i mod ds \<noteq> ?n mod ds" using mod_eq_near [of i ?n ds] that by simp
    then show ?thesis using False that data by (simp add: nth_append)
  qed (use ds len in simp)
  then have "writer_inv ds (s\<lparr>hd_data := (hd_data s)[?n mod ds := c],
     wr_pc := W_gen (of_nat (Suc ?n div ds)) (of_nat (Suc ?n mod ds)), logged := logged s @ [c]\<rparr>)"
    using w pc len by (simp add: writer_inv_def Let_def committed_def announced_def)
  moreover have "reader_inv ds (s\<lparr>hd_data := (hd_data s)[?n mod ds := c],
     wr_pc := W_gen (of_nat (Suc ?n div ds)) (of_nat (Suc ?n mod ds)), logged := logged s @ [c]\<rparr>)"
    using r pc room by (auto simp: reader_inv_def Let_def committed_def announced_def split: reader_pc.splits)
  moreover have "length (emitted s) \<le> ?n"
    using r pc by (simp add: reader_inv_def announced_def Let_def)
  ultimately show ?thesis using e by (simp add: duo_inv_def)
qed

lemma reader_pc_mono:
  assumes "reader_inv ds s" "committed s \<le> committed s'" "announced s \<le> announced s'"
    and "emitted s' = emitted s" "logged s' = logged s" "rd_pos s' = rd_pos s" "rd_gen s' = rd_gen s"
    "rd_pc s' = rd_pc s"
  shows "reader_inv ds s'"
  using assms unfolding reader_inv_def Let_def
  by (auto split: reader_pc.splits dest: le_trans intro: le_trans)

lemma store_header_inv:
  assumes "duo_inv ds s"
  shows "wr_pc s = W_gen gen pos \<Longrightarrow> duo_inv ds (s\<lparr>hd_gen := gen, wr_pc := W_pos pos\<rparr>)"
    and "wr_pc s = W_pos pos \<Longrightarrow> duo_inv ds (s\<lparr>hd_wp := pos, wr_pc := W_idle\<rparr>)"
proof -
  have w: "writer_inv ds s" and r: "reader_inv ds s" and e: "emitted s = take (length (emitted s)) (logged s)"
    using assms by (simp_all add: duo_inv_def)
  {
    assume pc: "wr_pc s = W_gen gen pos"
    let ?s = "s\<lparr>hd_gen := gen, wr_pc := W_pos pos\<rparr>"
    have "reader_inv ds ?s"
      by (rule reader_pc_mono [OF r]) (use pc in \<open>simp_all add: committed_def announced_def\<close>)
    moreover have "writer_inv ds ?s"
      using w pc by (simp add: writer_inv_def Let_def committed_def announced_def)
    ultimately show "duo_inv ds ?s" using e by (simp add: duo_inv_def)
  next
    assume pc: "wr_pc s = W_pos pos"
    let ?s = "s\<lparr>hd_wp := pos, wr_pc := W_idle\<rparr>"
    have "reader_inv ds ?s"
      by (rule reader_pc_mono [OF r]) (use pc in \<open>simp_all add: committed_def announced_def\<close>)
    moreover have "writer_inv ds ?s"
      using w pc by (simp add: writer_inv_def Let_def committed_def announced_def)
    ultimately show "duo_inv ds ?s" using e by (simp add: duo_inv_def)
  }
qed

lemma counts_reader [simp]:
  "committed (s\<lparr>rd_pc := pc\<rparr>) = committed s" "announced (s\<lparr>rd_pc := pc\<rparr>) = announced s"
  "committed (s\<lparr>rd_pos := p\<rparr>) = committed s" "announced (s\<lparr>rd_pos := p\<rparr>) = announced s"
  "committed (s\<lparr>rd_gen := g\<rparr>) = committed s" "announced (s\<lparr>rd_gen := g\<rparr>) = announced s"
  "committed (s\<lparr>emitted := e\<rparr>) = committed s" "announced (s\<lparr>emitted := e\<rparr>) = announced s"
  by (cases "wr_pc s"; simp add: committed_def announced_def)+

lemma load_wp_inv:
  assumes "duo_inv ds s" and "\<forall>p. wr_pc s \<noteq> W_pos p"
  shows "duo_inv ds (s\<lparr>rd_pc := R_gen (hd_wp s)\<rparr>)"
proof -
  have "announced s = committed s"
    using assms(2) by (simp add: announced_def committed_def split: writer_pc.split)
  then show ?thesis
    using assms(1) by (auto simp: duo_inv_def writer_inv_def reader_inv_def Let_def)
qed

lemma load_gen_inv:
  assumes inv: "duo_inv ds s" and pc: "rd_pc s = R_gen wp"
  shows "duo_inv ds (s\<lparr>rd_pc := (if rd_pos s = wp \<and> rd_gen s = hd_gen s then R_wp else R_emit (hd_gen s))\<rparr>)"
proof -
  let ?r = "length (emitted s)"
  from inv pc obtain c where c: "?r \<le> c" "c \<le> committed s" "wp = of_nat (c mod ds)"
    and pos: "rd_pos s = of_nat (?r mod ds)" and gen: "rd_gen s = of_nat (?r div ds)"
    and hd: "hd_gen s = of_nat (announced s div ds)"
    by (auto simp: duo_inv_def writer_inv_def reader_inv_def Let_def)
  have "?r < announced s" if "\<not> (rd_pos s = wp \<and> rd_gen s = hd_gen s)"
  proof (cases "?r = c")
    case True
    with that pos c gen hd have "announced s \<noteq> ?r" by auto
    then show ?thesis using c committed_le_announced [of s] by linarith
  next
    case False
    then show ?thesis using c committed_le_announced [of s] by linarith
  qed
  then show ?thesis
    using inv hd by (auto simp: duo_inv_def writer_inv_def reader_inv_def Let_def)
qed

lemma load_byte_inv:
  assumes ds: "0 < ds" "ds < 2 ^ 32" and inv: "duo_inv ds s" and pc: "rd_pc s = R_emit gen"
    and step: "(pos, g) = (if rd_pos s + 1 \<ge> of_nat ds then (0, gen) else (rd_pos s + 1, rd_gen s))"
  shows "duo_inv ds (s\<lparr>emitted := emitted s @ [hd_data s ! unat (rd_pos s)],
                          rd_pos := pos, rd_gen := g, rd_pc := R_wp\<rparr>)"
proof -
  let ?r = "length (emitted s)"
  from inv pc obtain x where x: "?r < x" "x \<le> announced s" "gen = of_nat (x div ds)"
    and le: "length (logged s) \<le> ?r + ds"
    and rp: "rd_pos s = of_nat (?r mod ds)" and rg: "rd_gen s = of_nat (?r div ds)"
    and w: "writer_inv ds s" and e: "emitted s = take ?r (logged s)"
    by (auto simp: duo_inv_def reader_inv_def Let_def)
  have r: "?r < length (logged s)" using x announced_le [of s] by linarith
  have "hd_data s ! (?r mod ds) = logged s ! ?r"
    using w r le by (simp add: writer_inv_def Let_def)
  moreover have "unat (rd_pos s) = ?r mod ds" unfolding rp by (rule slot_word [OF ds])
  ultimately have byte: "emitted s @ [hd_data s ! unat (rd_pos s)] = take (Suc ?r) (logged s)"
    using e r by (simp add: take_Suc_conv_app_nth)
  have next_pos: "pos = of_nat (Suc ?r mod ds)" "g = of_nat (Suc ?r div ds)"
  proof -
    have "x div ds = Suc ?r div ds" if "Suc (?r mod ds) = ds"
      using that near_div [OF ds(1), of ?r x] x le announced_le [of s] by (simp add: mod_Suc)
    then show "pos = of_nat (Suc ?r mod ds)" "g = of_nat (Suc ?r div ds)"
      using step slot_wrap_iff [OF ds, of ?r] rp rg x(3)
      by (auto simp: mod_Suc div_Suc split: if_splits)
  qed
  have "writer_inv ds (s\<lparr>emitted := take (Suc ?r) (logged s), rd_pos := pos, rd_gen := g, rd_pc := R_wp\<rparr>)"
    using w by (auto simp: writer_inv_def Let_def split: writer_pc.splits)
  moreover have "reader_inv ds (s\<lparr>emitted := take (Suc ?r) (logged s), rd_pos := pos, rd_gen := g, rd_pc := R_wp\<rparr>)"
    using x le r next_pos by (simp add: reader_inv_def Let_def min_absorb2 Suc_leI)
  ultimately show ?thesis using byte r by (simp add: duo_inv_def min_absorb2 Suc_leI)
qed

lemma duo_step_inv:
  assumes step: "duo_step (of_nat ds) False s s'" and inv: "duo_inv ds s" and ds: "0 < ds" "ds < 2 ^ 32"
  shows "duo_inv ds s'"
  using step
proof cases
  case (store_byte pos gen pos' gen' c)
  let ?n = "length (logged s)"
  have hd: "hd_wp s = of_nat (?n mod ds)" "hd_gen s = of_nat (?n div ds)"
    using inv store_byte(2) by (simp_all add: duo_inv_def writer_inv_def Let_def committed_def announced_def)
  have u: "unat (of_nat (?n mod ds) :: u32) = ?n mod ds" "unat (of_nat ds :: u32) = ds"
    using slot_word [OF ds] unat_of_nat_32 [OF ds(2)] by simp_all
  have "\<not> hd_wp s \<ge> of_nat ds" using ds(1) by (simp add: hd word_le_nat_alt u not_le)
  with store_byte(4) hd have p: "pos = of_nat (?n mod ds)" "gen = of_nat (?n div ds)" by auto
  have "(pos', gen') = (of_nat (Suc ?n mod ds), of_nat (Suc ?n div ds))"
    unfolding store_byte(5) p by (rule next_slot [OF ds])
  then show ?thesis
    using store_byte_inv [OF ds inv store_byte(2), of c] store_byte(1,3) u p by auto
next
  case (store_gen gen pos)
  then show ?thesis using store_header_inv [OF inv] by simp
next
  case (store_pos pos)
  then show ?thesis using store_header_inv [OF inv] by simp
next
  case load_wp
  then show ?thesis using load_wp_inv [OF inv] by simp
next
  case (load_gen wp)
  then show ?thesis using load_gen_inv [OF inv] by simp
next
  case (load_byte gen pos g)
  then show ?thesis using load_byte_inv [OF ds inv] by simp
qed

lemma duo_start_inv: "0 < ds \<Longrightarrow> length junk = ds \<Longrightarrow> duo_inv ds (duo_start junk)"
  by (simp add: duo_inv_def writer_inv_def reader_inv_def duo_start_def committed_def announced_def)

section \<open>Running a schedule\<close>

datatype duo_act =
    Store_byte u8
  | Store_gen
  | Store_pos
  | Load_wp
  | Load_gen
  | Load_byte

fun duo_do :: "u32 \<Rightarrow> bool \<Rightarrow> duo_act \<Rightarrow> duo \<Rightarrow> duo option" where
  "duo_do ds torn (Store_byte c) s =
     (if wr_pc s = W_idle \<and> length (logged s) < length (emitted s) + unat ds then
        let (pos, gen) = (if hd_wp s \<ge> ds then (0, hd_gen s + 1) else (hd_wp s, hd_gen s));
            (pos', gen') = (if pos + 1 \<ge> ds then (0, gen + 1) else (pos + 1, gen))
        in Some (s\<lparr>hd_data := (hd_data s)[unat pos := c], wr_pc := W_gen gen' pos', logged := logged s @ [c]\<rparr>)
      else None)"
| "duo_do ds torn Store_gen s =
     (case wr_pc s of W_gen gen pos \<Rightarrow> Some (s\<lparr>hd_gen := gen, wr_pc := W_pos pos\<rparr>) | _ \<Rightarrow> None)"
| "duo_do ds torn Store_pos s =
     (case wr_pc s of W_pos pos \<Rightarrow> Some (s\<lparr>hd_wp := pos, wr_pc := W_idle\<rparr>) | _ \<Rightarrow> None)"
| "duo_do ds torn Load_wp s =
     (if rd_pc s = R_wp \<and> (torn \<or> (case wr_pc s of W_pos _ \<Rightarrow> False | _ \<Rightarrow> True))
      then Some (s\<lparr>rd_pc := R_gen (hd_wp s)\<rparr>) else None)"
| "duo_do ds torn Load_gen s =
     (case rd_pc s of
        R_gen wp \<Rightarrow> Some (s\<lparr>rd_pc := (if rd_pos s = wp \<and> rd_gen s = hd_gen s then R_wp
                                       else R_emit (hd_gen s))\<rparr>)
      | _ \<Rightarrow> None)"
| "duo_do ds torn Load_byte s =
     (case rd_pc s of
        R_emit gen \<Rightarrow>
          let (pos, g) = (if rd_pos s + 1 \<ge> ds then (0, gen) else (rd_pos s + 1, rd_gen s))
          in Some (s\<lparr>emitted := emitted s @ [hd_data s ! unat (rd_pos s)],
                     rd_pos := pos, rd_gen := g, rd_pc := R_wp\<rparr>)
      | _ \<Rightarrow> None)"

fun duo_run :: "u32 \<Rightarrow> bool \<Rightarrow> duo_act list \<Rightarrow> duo \<Rightarrow> duo option" where
  "duo_run ds torn [] s = Some s"
| "duo_run ds torn (a # as) s =
     (case duo_do ds torn a s of None \<Rightarrow> None | Some s' \<Rightarrow> duo_run ds torn as s')"

lemma duo_do_step:
  assumes "duo_do ds torn a s = Some s'"
  shows "duo_step ds torn s s'"
proof (cases a)
  case (Store_byte c)
  obtain pos gen where p: "(pos, gen) = (if hd_wp s \<ge> ds then (0, hd_gen s + 1) else (hd_wp s, hd_gen s))"
    by (metis surj_pair)
  obtain pos' gen' where p': "(pos', gen') = (if pos + 1 \<ge> ds then (0, gen + 1) else (pos + 1, gen))"
    by (metis surj_pair)
  from assms Store_byte have g: "wr_pc s = W_idle" "length (logged s) < length (emitted s) + unat ds"
    by (auto split: if_splits)
  with assms Store_byte
  have "s' = s\<lparr>hd_data := (hd_data s)[unat pos := c], wr_pc := W_gen gen' pos', logged := logged s @ [c]\<rparr>"
    by (simp only: duo_do.simps p [symmetric] p' [symmetric] Let_def prod.case) simp
  then show ?thesis using duo_step.store_byte [OF g p p'] by simp
next
  case Load_gen
  then obtain wp where "rd_pc s = R_gen wp" using assms by (auto split: reader_pc.splits)
  then show ?thesis using duo_step.load_gen [of s wp ds torn] assms Load_gen by simp
next
  case Load_byte
  then obtain gen where g: "rd_pc s = R_emit gen" using assms by (auto split: reader_pc.splits)
  obtain pos gen' where p: "(pos, gen') = (if rd_pos s + 1 \<ge> ds then (0, gen) else (rd_pos s + 1, rd_gen s))"
    by (metis surj_pair)
  from assms Load_byte g have "s' = s\<lparr>emitted := emitted s @ [hd_data s ! unat (rd_pos s)],
      rd_pos := pos, rd_gen := gen', rd_pc := R_wp\<rparr>"
    by (simp only: duo_do.simps reader_pc.case p [symmetric] Let_def prod.case) simp
  then show ?thesis using duo_step.load_byte [OF g p] by simp
qed (use assms in \<open>auto split: if_splits writer_pc.splits intro!: duo_step.intros\<close>)

lemma duo_run_steps: "duo_run ds torn as s = Some s' \<Longrightarrow> (duo_step ds torn)\<^sup>*\<^sup>* s s'"
proof (induction as arbitrary: s)
  case (Cons a as)
  then obtain t where "duo_do ds torn a s = Some t" "duo_run ds torn as t = Some s'"
    by (auto split: option.splits)
  with Cons.IH show ?case by (meson converse_rtranclp_into_rtranclp duo_do_step)
qed simp

definition one_byte :: "duo_act list" where
  "one_byte = [Store_byte 65, Store_gen, Store_pos, Load_wp, Load_gen, Load_byte]"

section \<open>Properties\<close>

text \<open>Claim C8: in every interleaving of single memory accesses in which the writer stays within one
  buffer of the reader and the reader never loads the position between the two stores to the
  header, what the reader has printed is a prefix of what was logged: no byte is lost, repeated
  or stale, across any number of wraps of the ring.\<close>

theorem interleaved_reader_prefix:
  assumes "(duo_step (of_nat ds) False)\<^sup>*\<^sup>* (duo_start junk) s"
    and "length junk = ds" "0 < ds" "ds < 2 ^ 32"
  shows "\<exists>rest. logged s = emitted s @ rest \<and> length rest \<le> ds"
proof -
  have "duo_inv ds s"
    using assms(1)
    by (induction rule: rtranclp_induct)
       (use assms(2-4) duo_start_inv duo_step_inv in blast)+
  then have "emitted s = take (length (emitted s)) (logged s)"
    "length (logged s) \<le> length (emitted s) + ds"
    by (simp_all add: duo_inv_def reader_inv_def Let_def)
  then show ?thesis
    by (intro exI [of _ "drop (length (emitted s)) (logged s)"]) (metis append_take_drop_id length_drop le_diff_conv add.commute)
qed

theorem interleaved_reader_prefix_witness:
  "\<exists>s. (duo_step (of_nat 2) False)\<^sup>*\<^sup>* (duo_start [0, 0]) s \<and> emitted s = [65] \<and>
     (\<exists>rest. logged s = emitted s @ rest \<and> length rest \<le> 2)"
proof -
  have "map_option emitted (duo_run (of_nat 2) False one_byte (duo_start [0, 0])) = Some [65]"
    by code_simp
  then obtain s where s: "duo_run (of_nat 2) False one_byte (duo_start [0, 0]) = Some s" "emitted s = [65]"
    by auto
  have "(duo_step (of_nat 2) False)\<^sup>*\<^sup>* (duo_start [0, 0]) s" by (rule duo_run_steps [OF s(1)])
  with interleaved_reader_prefix [OF this] s(2) show ?thesis by auto
qed

text \<open>The order of the two header stores leaves a window in which a reader that follows
  closely goes wrong: with a buffer of two bytes there is a run in which two bytes were logged
  and the reader has already printed three, the third a stale repetition of the first.\<close>

theorem torn_header_repeats_bytes:
  "\<exists>s. (duo_step 2 True)\<^sup>*\<^sup>* (duo_start [0, 0]) s \<and> logged s = [65, 66] \<and> emitted s = [65, 66, 65]"
proof -
  let ?as = "one_byte @ [Store_byte 66, Store_gen, Load_wp, Load_gen, Load_byte, Load_wp, Load_gen, Load_byte]"
  have "map_option (\<lambda>s. (logged s, emitted s)) (duo_run 2 True ?as (duo_start [0, 0])) =
      Some ([65, 66], [65, 66, 65])" by code_simp
  then obtain s where "duo_run 2 True ?as (duo_start [0, 0]) = Some s"
    "logged s = [65, 66]" "emitted s = [65, 66, 65]" by auto
  then show ?thesis using duo_run_steps by blast
qed

end
