(* ===== verification/Handle_Db.thy ===== *)
theory Handle_Db
  imports Optee_Prelude
begin

text \<open>
  The handle database of \<open>core/kernel/handle.c\<close>: a growing array of pointers whose indices are
  handed out as integer handles. A pointer is an element of \<open>'p\<close>, \<open>None\<close> is \<open>NULL\<close>, and a
  database argument is itself an option because every function accepts \<open>NULL\<close>.

  The locale \<open>handle_table\<close> states what clients rely on, a partial map from handles to pointers;
  the database is shown to be one.
\<close>

section \<open>Operations\<close>

record 'p handle_db =
  ptrs :: "'p option list"
  max_ptrs :: nat

abbreviation (input) HANDLE_DB_INITIAL_MAX_PTRS :: nat where "HANDLE_DB_INITIAL_MAX_PTRS \<equiv> 4"

text \<open>The pointers passed to the destructor, in order, and the emptied database.\<close>

definition handle_db_destroy :: "bool \<Rightarrow> 'p handle_db option \<Rightarrow> ('p list \<times> 'p handle_db option)" where
  "handle_db_destroy has_destructor db = (case db of
     None \<Rightarrow> ([], None)
   | Some db \<Rightarrow>
       (if has_destructor then List.map_filter id (take (max_ptrs db) (ptrs db)) else [],
        Some \<lparr>ptrs = [], max_ptrs = 0\<rparr>))"

definition handle_db_is_empty :: "'p handle_db option \<Rightarrow> bool" where
  "handle_db_is_empty db = (case db of
     None \<Rightarrow> True
   | Some db \<Rightarrow> list_all (\<lambda>n. ptrs db ! n = None) [0..<max_ptrs db])"

fun first_empty :: "'p option list \<Rightarrow> nat \<Rightarrow> nat option" where
  "first_empty [] n = None"
| "first_empty (p # ps) n = (if p = None then Some n else first_empty ps (Suc n))"

text \<open>\<open>realloc_ok\<close> is whether \<open>realloc\<close> found memory; the index is returned as an \<open>int\<close>.\<close>

definition handle_get :: "bool \<Rightarrow> 'p option \<Rightarrow> 'p handle_db option \<Rightarrow> int \<times> 'p handle_db option" where
  "handle_get realloc_ok ptr db = (case (db, ptr) of
     (Some db, Some p) \<Rightarrow>
       (case first_empty (take (max_ptrs db) (ptrs db)) 0 of
          Some n \<Rightarrow> (to_i32 (int n), Some (db\<lparr>ptrs := (ptrs db)[n := Some p]\<rparr>))
        | None \<Rightarrow>
            let new_max_ptrs = (if max_ptrs db \<noteq> 0 then max_ptrs db * 2 else HANDLE_DB_INITIAL_MAX_PTRS) in
            if \<not> realloc_ok then (- 1, Some db)
            else
              let grown = take (max_ptrs db) (ptrs db) @ replicate (new_max_ptrs - max_ptrs db) None;
                  n = max_ptrs db
              in (to_i32 (int n), Some \<lparr>ptrs = grown[n := Some p], max_ptrs = new_max_ptrs\<rparr>))
   | _ \<Rightarrow> (- 1, db))"

definition handle_put :: "int \<Rightarrow> 'p handle_db option \<Rightarrow> 'p option \<times> 'p handle_db option" where
  "handle_put handle db = (case db of
     None \<Rightarrow> (None, None)
   | Some db \<Rightarrow>
       if handle < 0 \<or> nat handle \<ge> max_ptrs db then (None, Some db)
       else (ptrs db ! nat handle, Some (db\<lparr>ptrs := (ptrs db)[nat handle := None]\<rparr>)))"

definition handle_lookup :: "int \<Rightarrow> 'p handle_db option \<Rightarrow> 'p option" where
  "handle_lookup handle db = (case db of
     None \<Rightarrow> None
   | Some db \<Rightarrow> if handle < 0 \<or> nat handle \<ge> max_ptrs db then None else ptrs db ! nat handle)"

section \<open>Contract\<close>

text \<open>
  What a client of handles relies on. \<open>ok\<close> is the provider's invariant, \<open>full\<close> the states in
  which no further handle can be represented.
\<close>

locale handle_table =
  fixes ok :: "'db \<Rightarrow> bool"
    and full :: "'db \<Rightarrow> bool"
    and lookup :: "int \<Rightarrow> 'db \<Rightarrow> 'p option"
    and get :: "bool \<Rightarrow> 'p option \<Rightarrow> 'db \<Rightarrow> int \<times> 'db"
    and put :: "int \<Rightarrow> 'db \<Rightarrow> 'p option \<times> 'db"
  assumes get_some: "ok db \<Longrightarrow> \<not> full db \<Longrightarrow> get mem (Some p) db = (h, db') \<Longrightarrow> 0 \<le> h \<Longrightarrow>
      ok db' \<and> lookup h db = None \<and> (\<forall>k. lookup k db' = (if k = h then Some p else lookup k db))"
    and get_fails: "ok db \<Longrightarrow> \<not> full db \<Longrightarrow> get mem (Some p) db = (h, db') \<Longrightarrow> h < 0 \<Longrightarrow>
      db' = db \<and> \<not> mem"
    and put_spec: "ok db \<Longrightarrow> put h db = (r, db') \<Longrightarrow>
      ok db' \<and> r = lookup h db \<and> (\<forall>k. lookup k db' = (if k = h then None else lookup k db))"
begin

text \<open>A handle stands for its pointer until it is put, whatever happens to other handles.\<close>

lemma get_put:
  assumes "ok db" "\<not> full db" "get mem (Some p) db = (h, db1)" "0 \<le> h" "put h db1 = (r, db2)"
  shows "r = Some p \<and> (\<forall>k. lookup k db2 = lookup k db)"
  using get_some [OF assms(1-4)] put_spec [OF _ assms(5)] by auto

text \<open>A second put of the same handle finds nothing: a pointer cannot be closed twice.\<close>

lemma put_twice:
  assumes "ok db" "put h db = (r, db1)" "put h db1 = (r', db2)"
  shows "r' = None \<and> (\<forall>k. lookup k db2 = lookup k db1)"
  using put_spec [OF assms(1,2)] put_spec [OF _ assms(3)] by auto

text \<open>Handles of two live pointers differ.\<close>

lemma get_get_distinct:
  assumes "ok db" "\<not> full db" "get m1 (Some p) db = (h1, db1)" "0 \<le> h1"
    and "\<not> full db1" "get m2 (Some q) db1 = (h2, db2)" "0 \<le> h2"
  shows "h1 \<noteq> h2 \<and> lookup h1 db2 = Some p \<and> lookup h2 db2 = Some q"
  using get_some [OF assms(1-4)] get_some [OF _ assms(5-7)] by auto

end

section \<open>The database is a handle table\<close>

definition db_ok :: "'p handle_db option \<Rightarrow> bool" where
  "db_ok db = (case db of None \<Rightarrow> False | Some db \<Rightarrow> length (ptrs db) = max_ptrs db)"

definition db_full :: "'p handle_db option \<Rightarrow> bool" where
  "db_full db = (case db of None \<Rightarrow> True | Some db \<Rightarrow> 2 ^ 31 \<le> max_ptrs db)"

lemma first_empty_Some:
  "first_empty ps n = Some k \<Longrightarrow> n \<le> k \<and> k < n + length ps \<and> ps ! (k - n) = None"
proof (induction ps arbitrary: n)
  case (Cons p ps)
  show ?case
  proof (cases "p = None")
    case False
    with Cons.prems Cons.IH [of "Suc n"] show ?thesis
      by (auto simp: nth_Cons' Suc_diff_le)
  qed (use Cons.prems in auto)
qed simp

lemma to_i32_index: "n < 2 ^ 31 \<Longrightarrow> to_i32 (int n) = int n"
  by (rule to_i32_id) (simp add: in_i32_def)

lemma handle_get_some:
  assumes ok: "db_ok db" and small: "\<not> db_full db" and g: "handle_get mem (Some p) db = (h, db')" and h: "0 \<le> h"
  shows "db_ok db' \<and> handle_lookup h db = None \<and>
    (\<forall>k. handle_lookup k db' = (if k = h then Some p else handle_lookup k db))"
proof -
  obtain d where d: "db = Some d" and len: "length (ptrs d) = max_ptrs d" and lt: "max_ptrs d < 2 ^ 31"
    using ok small by (auto simp: db_ok_def db_full_def split: option.splits)
  show ?thesis
  proof (cases "first_empty (ptrs d) 0")
    case None
    let ?m = "if max_ptrs d \<noteq> 0 then max_ptrs d * 2 else 4"
    let ?ps = "(ptrs d @ replicate (?m - max_ptrs d) None)[max_ptrs d := Some p]"
    have "h = int (max_ptrs d)" "db' = Some \<lparr>ptrs = ?ps, max_ptrs = ?m\<rparr>"
      using g h None len to_i32_index [OF lt] by (auto simp: handle_get_def d Let_def split: if_splits)
    then show ?thesis
      using len by (auto simp: db_ok_def handle_lookup_def d nth_list_update nth_append nat_eq_iff)
  next
    case (Some n)
    from first_empty_Some [OF this] len have n: "n < max_ptrs d" "ptrs d ! n = None" by auto
    then have "to_i32 (int n) = int n" using lt by (intro to_i32_index) linarith
    then have "h = int n" "db' = Some (d\<lparr>ptrs := (ptrs d)[n := Some p]\<rparr>)"
      using g Some len by (auto simp: handle_get_def d)
    then show ?thesis
      using len n by (auto simp: db_ok_def handle_lookup_def d nth_list_update nat_eq_iff)
  qed
qed

lemma handle_get_fails:
  assumes ok: "db_ok db" and small: "\<not> db_full db" and g: "handle_get mem (Some p) db = (h, db')" and h: "h < 0"
  shows "db' = db \<and> \<not> mem"
proof -
  obtain d where d: "db = Some d" and len: "length (ptrs d) = max_ptrs d" and lt: "max_ptrs d < 2 ^ 31"
    using ok small by (auto simp: db_ok_def db_full_def split: option.splits)
  have "to_i32 (int n) = int n" if "n \<le> max_ptrs d" for n
    using that lt by (intro to_i32_index) linarith
  then show ?thesis
    using g h len first_empty_Some [of "ptrs d" 0]
    by (auto simp: handle_get_def d Let_def split: option.splits if_splits)
qed

lemma handle_put_spec:
  assumes "db_ok db" "handle_put h db = (r, db')"
  shows "db_ok db' \<and> r = handle_lookup h db \<and>
    (\<forall>k. handle_lookup k db' = (if k = h then None else handle_lookup k db))"
  using assms
  by (auto simp: db_ok_def handle_put_def handle_lookup_def nth_list_update nat_eq_iff
      split: option.splits if_splits)

interpretation hdb: handle_table db_ok db_full handle_lookup handle_get handle_put
  by unfold_locales (rule handle_get_some handle_get_fails handle_put_spec; assumption)+

section \<open>Properties\<close>

text \<open>Claim C27: a pointer stored under a handle comes back from \<open>handle_put\<close>, and afterwards every
  handle stands for what it stood for before the pointer was stored, whether or not the array
  grew in between.\<close>

theorem handle_get_put_roundtrip:
  assumes "db_ok db" "\<not> db_full db" "handle_get mem (Some p) db = (h, db1)" "0 \<le> h"
    and "handle_put h db1 = (r, db2)"
  shows "r = Some p \<and> (\<forall>k. handle_lookup k db2 = handle_lookup k db)"
  by (rule hdb.get_put [OF assms])

theorem handle_get_put_roundtrip_witness:
  "handle_get True (Some (7 :: nat)) (Some \<lparr>ptrs = [Some 1, Some 2], max_ptrs = 2\<rparr>) =
     (2, Some \<lparr>ptrs = [Some 1, Some 2, Some 7, None], max_ptrs = 4\<rparr>) \<and>
   (\<forall>k. handle_lookup k (Some \<lparr>ptrs = [Some 1, Some 2, None, None], max_ptrs = 4\<rparr>) =
        handle_lookup k (Some \<lparr>ptrs = [Some (1 :: nat), Some 2], max_ptrs = 2\<rparr>))"
proof -
  let ?db = "Some \<lparr>ptrs = [Some (1 :: nat), Some 2], max_ptrs = 2\<rparr>"
  let ?db1 = "Some \<lparr>ptrs = [Some (1 :: nat), Some 2, Some 7, None], max_ptrs = 4\<rparr>"
  let ?db2 = "Some \<lparr>ptrs = [Some (1 :: nat), Some 2, None, None], max_ptrs = 4\<rparr>"
  have g: "handle_get True (Some 7) ?db = (2, ?db1)" by code_simp
  have p: "handle_put 2 ?db1 = (Some 7, ?db2)" by code_simp
  have "db_ok ?db" "\<not> db_full ?db" by (simp_all add: db_ok_def db_full_def)
  from handle_get_put_roundtrip [OF this g _ p] g show ?thesis by simp
qed

end
