(* ===== verification/Ldelf_Bins.thy ===== *)
theory Ldelf_Bins
  imports Handle_Db
begin

text \<open>
  The system calls of \<open>core/kernel/ldelf_syscalls.c\<close> with which the loader opens, reads and closes
  the binaries it maps: a client of the handle database. The results of what they call (user
  memory accesses, allocations, the store operations behind \<open>binh->op\<close>) are arguments. The
  session keeps the handles in a context that is allocated with the first binary and freed with
  the last.
\<close>

section \<open>Sessions and binaries\<close>

abbreviation (input) TEE_ERROR_STORAGE_NOT_AVAILABLE :: u32 where
  "TEE_ERROR_STORAGE_NOT_AVAILABLE \<equiv> 0xF0100003"

record bin_handle =
  bh_opened :: bool
  bh_file :: bool
  bh_offs_bytes :: u64
  bh_size_bytes :: u64

text \<open>
  \<open>user_ctx\<close> is the system context with its database of addresses, \<open>binhs\<close> what memory holds at
  an address, \<open>live\<close> the addresses of binary handles that are allocated. \<open>stores\<close> and \<open>files\<close> are
  the binary handles for which a store has been opened and a file been taken, and not been
  closed and put since.
\<close>

record ldelf_sess =
  user_ctx :: "nat handle_db option"
  binhs :: "nat \<Rightarrow> bin_handle"
  live :: "nat set"
  stores :: "nat set"
  files :: "nat set"

text \<open>\<open>bh_opened\<close> and \<open>bh_file\<close> say that \<open>binh->h\<close> and \<open>binh->f\<close> are set; putting no file does nothing.\<close>

definition bin_close :: "nat \<Rightarrow> ldelf_sess \<Rightarrow> ldelf_sess" where
  "bin_close a s =
     (let s = (if bh_opened (binhs s a) then s\<lparr>stores := stores s - {a}\<rparr> else s);
          s = (if bh_file (binhs s a) then s\<lparr>files := files s - {a}\<rparr> else s)
      in s\<lparr>live := live s - {a}\<rparr>)"

datatype ts_kind = Is_user_ta | Is_sp | Is_other

text \<open>What the calls made by one \<open>open_bin\<close> return; \<open>oe_binh\<close> is the address of the new handle.\<close>

record open_env =
  oe_memdup :: u32
  oe_access :: u32
  oe_uuid_size_ok :: bool
  oe_ctx_alloc :: bool
  oe_binh :: "nat option"
  oe_kind :: ts_kind
  oe_ta_stores :: "u32 list"
  oe_sp_stores :: "u32 list"
  oe_get_size :: "u32 \<times> u64"
  oe_get_tag :: u32
  oe_file :: bool
  oe_realloc :: bool
  oe_put_user :: u32

text \<open>The loop over the registered stores: it stops at the first that knows the binary or fails.\<close>

fun try_stores :: "u32 \<Rightarrow> u32 list \<Rightarrow> u32" where
  "try_stores res [] = res"
| "try_stores res (r # rs) =
     (if r \<noteq> TEE_ERROR_ITEM_NOT_FOUND \<and> r \<noteq> TEE_ERROR_STORAGE_NOT_AVAILABLE then r else try_stores r rs)"

definition ldelf_syscall_open_bin :: "open_env \<Rightarrow> ldelf_sess \<Rightarrow> u32 \<times> int \<times> ldelf_sess" where
  "ldelf_syscall_open_bin env s =
     (if oe_memdup env \<noteq> TEE_SUCCESS then (oe_memdup env, 0, s)
      else if oe_access env \<noteq> TEE_SUCCESS then (oe_access env, 0, s)
      else if \<not> oe_uuid_size_ok env then (TEE_ERROR_BAD_PARAMETERS, 0, s)
      else if user_ctx s = None \<and> \<not> oe_ctx_alloc env then (TEE_ERROR_OUT_OF_MEMORY, 0, s)
      else
        let s = (if user_ctx s = None then s\<lparr>user_ctx := Some \<lparr>ptrs = [], max_ptrs = 0\<rparr>\<rparr> else s) in
        case oe_binh env of
          None \<Rightarrow> (TEE_ERROR_OUT_OF_MEMORY, 0, s)
        | Some a \<Rightarrow>
            let binh = \<lparr>bh_opened = False, bh_file = False, bh_offs_bytes = 0, bh_size_bytes = 0\<rparr>;
                s = s\<lparr>binhs := (binhs s)(a := binh), live := insert a (live s)\<rparr>;
                res = (case oe_kind env of
                         Is_user_ta \<Rightarrow> try_stores TEE_SUCCESS (oe_ta_stores env)
                       | Is_sp \<Rightarrow> try_stores TEE_SUCCESS (oe_sp_stores env)
                       | Is_other \<Rightarrow> TEE_ERROR_ITEM_NOT_FOUND)
            in
            if res \<noteq> TEE_SUCCESS then (res, 0, bin_close a s)
            else
            let binh = binh\<lparr>bh_opened := True\<rparr>;
                s = s\<lparr>binhs := (binhs s)(a := binh), stores := insert a (stores s)\<rparr>;
                (res, size_bytes) = oe_get_size env in
            if res \<noteq> TEE_SUCCESS then (res, 0, bin_close a s)
            else if oe_get_tag env \<noteq> TEE_SUCCESS then (oe_get_tag env, 0, bin_close a s)
            else if \<not> oe_file env then (TEE_ERROR_OUT_OF_MEMORY, 0, bin_close a s)
            else
            let s = s\<lparr>binhs := (binhs s)(a := binh\<lparr>bh_size_bytes := size_bytes, bh_file := True\<rparr>), files := insert a (files s)\<rparr>;
                (h, ctx) = handle_get (oe_realloc env) (Some a) (user_ctx s);
                s = s\<lparr>user_ctx := ctx\<rparr>
            in
            if h < 0 then (TEE_ERROR_OUT_OF_MEMORY, 0, bin_close a s)
            else if oe_put_user env \<noteq> TEE_SUCCESS then
              (oe_put_user env, 0, bin_close a (s\<lparr>user_ctx := snd (handle_put h (user_ctx s))\<rparr>))
            else (TEE_SUCCESS, h, s))"

text \<open>
  The handle arrives as an \<open>unsigned long\<close> and is converted to \<open>int\<close> by the call. \<open>rd\<close> is what
  reading the rest of the binary returns.
\<close>

definition handle_of_ulong :: "u64 \<Rightarrow> int" where
  "handle_of_ulong w = sint (ucast w :: u32)"

definition close_all :: "nat list \<Rightarrow> ldelf_sess \<Rightarrow> ldelf_sess" where
  "close_all = fold bin_close"

definition ldelf_syscall_close_bin :: "u32 \<Rightarrow> u64 \<Rightarrow> ldelf_sess \<Rightarrow> u32 \<times> ldelf_sess" where
  "ldelf_syscall_close_bin rd handle s =
     (if user_ctx s = None then (TEE_ERROR_BAD_PARAMETERS, s)
      else case handle_put (handle_of_ulong handle) (user_ctx s) of
        (None, ctx) \<Rightarrow> (TEE_ERROR_BAD_PARAMETERS, s\<lparr>user_ctx := ctx\<rparr>)
      | (Some a, ctx) \<Rightarrow>
          let b = binhs s a;
              res = (if bh_offs_bytes b < bh_size_bytes b then rd else TEE_SUCCESS);
              s = bin_close a (s\<lparr>user_ctx := ctx\<rparr>)
          in if handle_db_is_empty (user_ctx s)
             then (res, (close_all (fst (handle_db_destroy True (user_ctx s))) s)\<lparr>user_ctx := None\<rparr>)
             else (res, s))"

text \<open>
  \<open>read p n\<close> is the result of the store's read of \<open>n\<close> bytes when \<open>p\<close> bytes have been consumed, which
  is what \<open>bh_offs_bytes\<close> counts. The requests made to the store are returned with the outcome, since
  they are what must stay inside the binary, and then the offset and length of each part of a
  destination that is cleared.
\<close>

definition binh_copy_to ::
  "(u64 \<Rightarrow> u64 \<Rightarrow> u32) \<Rightarrow> bool \<Rightarrow> bool \<Rightarrow> u32 \<Rightarrow> u64 \<Rightarrow> u64 \<Rightarrow> bin_handle \<Rightarrow>
   u32 \<times> bin_handle \<times> (u64 \<times> u64) list \<times> (u64 \<times> u64) list" where
  "binh_copy_to read has_va_core has_va_user clear_user offs_bytes num_bytes b =
     (if offs_bytes < bh_offs_bytes b then (TEE_ERROR_BAD_STATE, b, [], [])
      else if unat offs_bytes + unat num_bytes \<ge> 2 ^ 64 then (TEE_ERROR_BAD_PARAMETERS, b, [], [])
      else
        let next_offs = offs_bytes + num_bytes;
            p = bh_offs_bytes b;
            n = offs_bytes - p;
            skip = (if offs_bytes > p then [(p, n)] else []) in
        if offs_bytes > p \<and> read p n \<noteq> TEE_SUCCESS then (read p n, b, skip, [])
        else
          let b = b\<lparr>bh_offs_bytes := offs_bytes\<rparr> in
          if next_offs > bh_size_bytes b then
            let rb = bh_size_bytes b - bh_offs_bytes b;
                core = (if has_va_core then [(rb, num_bytes - rb)] else []);
                user = (if has_va_user then [(rb, num_bytes - rb)] else []) in
            if read offs_bytes rb \<noteq> TEE_SUCCESS then (read offs_bytes rb, b, skip @ [(offs_bytes, rb)], [])
            else if has_va_user \<and> clear_user \<noteq> TEE_SUCCESS
            then (clear_user, b, skip @ [(offs_bytes, rb)], core)
            else (TEE_SUCCESS, b\<lparr>bh_offs_bytes := bh_size_bytes b\<rparr>, skip @ [(offs_bytes, rb)], core @ user)
          else if read offs_bytes num_bytes \<noteq> TEE_SUCCESS
          then (read offs_bytes num_bytes, b, skip @ [(offs_bytes, num_bytes)], [])
          else (TEE_SUCCESS, b\<lparr>bh_offs_bytes := next_offs\<rparr>, skip @ [(offs_bytes, num_bytes)], []))"

definition ldelf_syscall_copy_from_bin ::
  "u32 \<Rightarrow> (u64 \<Rightarrow> u64 \<Rightarrow> u32) \<Rightarrow> u32 \<Rightarrow> u64 \<Rightarrow> u64 \<Rightarrow> u64 \<Rightarrow> ldelf_sess \<Rightarrow> u32 \<times> ldelf_sess" where
  "ldelf_syscall_copy_from_bin access read clear_user offs num_bytes handle s =
     (if access \<noteq> TEE_SUCCESS then (access, s)
      else if user_ctx s = None then (TEE_ERROR_BAD_PARAMETERS, s)
      else case handle_lookup (handle_of_ulong handle) (user_ctx s) of
        None \<Rightarrow> (TEE_ERROR_BAD_PARAMETERS, s)
      | Some a \<Rightarrow>
          let (res, b, _) = binh_copy_to read False True clear_user offs num_bytes (binhs s a)
          in (res, s\<lparr>binhs := (binhs s)(a := b)\<rparr>))"

text \<open>What the kernel does when the loader has returned, whether or not it closed its binaries.\<close>

definition ldelf_sess_cleanup :: "ldelf_sess \<Rightarrow> ldelf_sess" where
  "ldelf_sess_cleanup s =
     (if user_ctx s = None then s
      else (close_all (fst (handle_db_destroy True (user_ctx s))) s)\<lparr>user_ctx := None\<rparr>)"

text \<open>A run of the loader: it opens, closes and reads binaries in any order.\<close>

inductive ldelf_call :: "ldelf_sess \<Rightarrow> ldelf_sess \<Rightarrow> bool" where
  call_open: "(\<And>a. oe_binh env = Some a \<Longrightarrow> a \<notin> live s) \<Longrightarrow> \<not> (\<exists>db. user_ctx s = Some db \<and> 2 ^ 31 \<le> max_ptrs db) \<Longrightarrow>
     ldelf_syscall_open_bin env s = (res, h, s') \<Longrightarrow> ldelf_call s s'"
| call_close: "ldelf_syscall_close_bin rd handle s = (res, s') \<Longrightarrow> ldelf_call s s'"
| call_copy: "ldelf_syscall_copy_from_bin acc rdf clr offs num_bytes handle s = (res, s') \<Longrightarrow> ldelf_call s s'"

section \<open>Handles and binaries correspond\<close>

definition sess_ok :: "ldelf_sess \<Rightarrow> bool" where
  "sess_ok s \<longleftrightarrow> (case user_ctx s of
     None \<Rightarrow> live s = {}
   | Some _ \<Rightarrow> db_ok (user_ctx s) \<and>
       (\<forall>h a. handle_lookup h (user_ctx s) = Some a \<longrightarrow> a \<in> live s) \<and>
       (\<forall>a\<in>live s. \<exists>!h. handle_lookup h (user_ctx s) = Some a))"

text \<open>The handles a session knows; none before the first binary.\<close>

definition bin_of :: "ldelf_sess \<Rightarrow> int \<Rightarrow> nat option" where
  "bin_of s h = handle_lookup h (user_ctx s)"

lemma lookup_empty_db [simp]: "handle_lookup h (Some \<lparr>ptrs = [], max_ptrs = 0\<rparr>) = None"
  by (simp add: handle_lookup_def)

lemma lookup_None [simp]: "handle_lookup h None = None"
  by (simp add: handle_lookup_def)

definition with_ctx :: "ldelf_sess \<Rightarrow> ldelf_sess" where
  "with_ctx s = (if user_ctx s = None then s\<lparr>user_ctx := Some \<lparr>ptrs = [], max_ptrs = 0\<rparr>\<rparr> else s)"

lemma with_ctx_ok:
  assumes "sess_ok s"
  shows "sess_ok (with_ctx s)" "live (with_ctx s) = live s" "binhs (with_ctx s) = binhs s"
    "bin_of (with_ctx s) = bin_of s" "user_ctx (with_ctx s) \<noteq> None"
  using assms by (auto simp: sess_ok_def with_ctx_def bin_of_def db_ok_def split: option.splits)

lemma sess_ok_someI:
  assumes "user_ctx s \<noteq> None" "db_ok (user_ctx s)"
    and "\<And>h a. bin_of s h = Some a \<Longrightarrow> a \<in> live s" "\<And>a. a \<in> live s \<Longrightarrow> \<exists>!h. bin_of s h = Some a"
  shows "sess_ok s"
proof -
  from assms(1) obtain db where db: "user_ctx s = Some db" by auto
  have "\<forall>h a. handle_lookup h (Some db) = Some a \<longrightarrow> a \<in> live s"
    using assms(3) by (simp add: bin_of_def db)
  moreover have "\<forall>a\<in>live s. \<exists>!h. handle_lookup h (Some db) = Some a"
    using assms(4) by (simp add: bin_of_def db)
  ultimately show ?thesis using assms(2) by (simp add: sess_ok_def db)
qed

lemma sess_ok_someD:
  assumes "sess_ok s" "user_ctx s \<noteq> None"
  shows "db_ok (user_ctx s)" "\<And>h a. bin_of s h = Some a \<Longrightarrow> a \<in> live s"
    "\<And>a. a \<in> live s \<Longrightarrow> \<exists>!h. bin_of s h = Some a"
  using assms by (auto simp: sess_ok_def bin_of_def split: option.splits)

lemma sess_ok_same:
  assumes "sess_ok t" "user_ctx t \<noteq> None" "db_ok (user_ctx s)" "user_ctx s \<noteq> None"
    and "bin_of s = bin_of t" "live s = live t"
  shows "sess_ok s"
  by (rule sess_ok_someI [OF assms(4,3)]) (use sess_ok_someD [OF assms(1,2)] assms(5,6) in auto)

lemma db_ok_not_None: "db_ok db \<Longrightarrow> db \<noteq> None"
  by (cases db) (simp_all add: db_ok_def)

lemma bin_close_simps [simp]:
  "live (bin_close a s) = live s - {a}" "user_ctx (bin_close a s) = user_ctx s" "binhs (bin_close a s) = binhs s"
  "bin_of (bin_close a s) = bin_of s"
  by (simp_all add: bin_close_def Let_def bin_of_def [abs_def])

text \<open>Storing a fresh address under a new handle keeps the correspondence.\<close>

lemma store_fresh_ok:
  assumes t: "sess_ok t" "user_ctx t \<noteq> None" and a: "a \<notin> live t" and full: "\<not> db_full (user_ctx t)"
    and g: "handle_get mem (Some a) (user_ctx t) = (h, ctx)" and h: "0 \<le> h"
    and u: "live u = insert a (live t)" "user_ctx u = ctx"
  shows "sess_ok u" and "bin_of t h = None" and "bin_of u = (bin_of t)(h \<mapsto> a)"
proof -
  note d = sess_ok_someD [OF t]
  note gs = hdb.get_some [OF d(1) full g h]
  show none: "bin_of t h = None" using gs by (simp add: bin_of_def)
  show upd: "bin_of u = (bin_of t)(h \<mapsto> a)" using gs u by (auto simp: bin_of_def fun_eq_iff)
  have ok: "db_ok (user_ctx u)" using gs u by simp
  show "sess_ok u"
  proof (rule sess_ok_someI [OF db_ok_not_None [OF ok] ok])
    fix k b assume "bin_of u k = Some b"
    then show "b \<in> live u" using d(2) u by (auto simp: upd split: if_splits)
  next
    fix b assume "b \<in> live u"
    then consider "b = a" | "b \<in> live t" "b \<noteq> a" using a u by auto
    then show "\<exists>!k. bin_of u k = Some b"
    proof cases
      case 1
      have "bin_of t k \<noteq> Some a" for k using d(2) [of k a] a by auto
      then show ?thesis by (simp add: upd 1)
    next
      case 2
      obtain k where k: "bin_of t k = Some b" "\<forall>k'. bin_of t k' = Some b \<longrightarrow> k' = k"
        using d(3) [OF 2(1)] by (elim ex1E)
      show ?thesis
      proof (rule ex1I [of _ k])
        show "bin_of u k = Some b" using k(1) none by (auto simp: upd)
        show "k' = k" if "bin_of u k' = Some b" for k'
          using that k(2) 2 by (auto simp: upd split: if_splits)
      qed
    qed
  qed
qed

definition open_result_ok :: "open_env \<Rightarrow> ldelf_sess \<Rightarrow> u32 \<times> int \<times> ldelf_sess \<Rightarrow> bool" where
  "open_result_ok env s = (\<lambda>(res, h, s').
     sess_ok s' \<and>
     (if res = TEE_SUCCESS
      then \<exists>a. oe_binh env = Some a \<and> bin_of s h = None \<and> bin_of s' = (bin_of s)(h \<mapsto> a) \<and>
             live s' = insert a (live s) \<and> bh_offs_bytes (binhs s' a) = 0 \<and>
             bh_size_bytes (binhs s' a) = snd (oe_get_size env)
      else bin_of s' = bin_of s \<and> live s' = live s))"

lemma open_fail:
  assumes "res \<noteq> TEE_SUCCESS" "sess_ok s" "sess_ok s'" "bin_of s' = bin_of s" "live s' = live s"
  shows "open_result_ok env s (res, h, s')"
  using assms by (simp add: open_result_ok_def)

text \<open>
  The last part of \<open>open_bin\<close>: the handle is taken, and given back when it cannot be returned to
  the caller. \<open>u\<close> is the session with the new binary and \<open>w\<close> the one before it.
\<close>

lemma store_fail_ok:
  assumes w: "sess_ok w" "user_ctx w \<noteq> None" "a \<notin> live w" and c: "db_ok (user_ctx u)"
    and l: "\<And>k. handle_lookup k (user_ctx u) = handle_lookup k (user_ctx w)" and u: "live u = insert a (live w)"
  shows "sess_ok (bin_close a u)" "bin_of (bin_close a u) = bin_of w" "live (bin_close a u) = live w"
proof -
  show b: "bin_of (bin_close a u) = bin_of w" using l by (simp add: bin_of_def [abs_def])
  show v: "live (bin_close a u) = live w" using w(3) u by simp
  show "sess_ok (bin_close a u)"
    by (rule sess_ok_same [OF w(1,2) _ _ b v]) (use c db_ok_not_None [OF c] in simp_all)
qed

lemma open_store:
  assumes s: "sess_ok s" and a: "oe_binh env = Some a" "a \<notin> live s" and full: "\<not> db_full (user_ctx (with_ctx s))"
    and g: "handle_get mem (Some a) (user_ctx (with_ctx s)) = (h, user_ctx u)"
    and u: "live u = insert a (live s)" "bh_offs_bytes (binhs u a) = 0" "bh_size_bytes (binhs u a) = snd (oe_get_size env)"
    and r: "r = (if h < 0 then (TEE_ERROR_OUT_OF_MEMORY, 0, bin_close a u)
     else if pu \<noteq> TEE_SUCCESS then (pu, 0, bin_close a (u\<lparr>user_ctx := snd (handle_put h (user_ctx u))\<rparr>))
     else (TEE_SUCCESS, h, u))"
  shows "open_result_ok env s r"
proof -
  note w = with_ctx_ok [OF s]
  have a': "a \<notin> live (with_ctx s)" and u': "live u = insert a (live (with_ctx s))" using a u w by simp_all
  note d = sess_ok_someD [OF w(1,5)]
  consider "h < 0" | "0 \<le> h" "pu \<noteq> TEE_SUCCESS" | "0 \<le> h" "pu = TEE_SUCCESS" by linarith
  then show ?thesis
  proof cases
    case 1
    then have c: "user_ctx u = user_ctx (with_ctx s)" using hdb.get_fails [OF d(1) full g] by blast
    show ?thesis
      using 1 store_fail_ok [OF w(1,5) a' _ _ u'] d(1) w(2,4)
      by (simp add: r c open_fail [OF _ s])
  next
    case 2
    obtain q ctx2 where p: "handle_put h (user_ctx u) = (q, ctx2)" by force
    note gs = hdb.get_some [OF d(1) full g 2(1)]
    have db: "db_ok ctx2" using hdb.put_spec [OF conjunct1 [OF gs] p] by (rule conjunct1)
    have l: "handle_lookup k ctx2 = handle_lookup k (user_ctx (with_ctx s))" for k
      using hdb.get_put [OF d(1) full g 2(1) p] by simp
    have "r = (pu, 0, bin_close a (u\<lparr>user_ctx := ctx2\<rparr>))" using 2 p by (simp add: r)
    then show ?thesis
      using 2 store_fail_ok [OF w(1,5) a', of "u\<lparr>user_ctx := ctx2\<rparr>"] db l u' w(2,4)
      by (simp add: open_fail [OF _ s])
  next
    case 3
    have "r = (TEE_SUCCESS, h, u)" using 3 by (simp add: r)
    with store_fresh_ok [OF w(1,5) a' full g 3(1) u' refl] show ?thesis
      by (simp add: open_result_ok_def a u w(4))
  qed
qed

lemma open_first_fail:
  assumes "sess_ok s" "res \<noteq> TEE_SUCCESS"
  shows "open_result_ok env s (res, h, s)" "open_result_ok env s (res, h, with_ctx s)"
  using assms with_ctx_ok [OF assms(1)] by (simp_all add: open_fail)

lemma open_early_fail:
  assumes "sess_ok s" "a \<notin> live s" "res \<noteq> TEE_SUCCESS" "live u = insert a (live s)" "user_ctx u = user_ctx (with_ctx s)"
  shows "open_result_ok env s (res, h, bin_close a u)"
proof -
  note w = with_ctx_ok [OF assms(1)]
  note f = store_fail_ok [OF w(1,5), of a u, unfolded w(2,4) assms(5)]
  show ?thesis
    by (rule open_fail [OF assms(3,1)]) (use f sess_ok_someD(1) [OF w(1,5)] assms(2,4) in simp_all)
qed

lemma open_bin_ok:
  assumes s: "sess_ok s" and fresh: "\<And>a. oe_binh env = Some a \<Longrightarrow> a \<notin> live s"
    and full: "\<not> db_full (user_ctx (with_ctx s))"
  shows "open_result_ok env s (ldelf_syscall_open_bin env s)"
proof (cases "oe_binh env")
  case None
  then show ?thesis
    using open_first_fail [OF s]
    by (simp add: ldelf_syscall_open_bin_def with_ctx_def [symmetric])
next
  case a: (Some a)
  note w = with_ctx_ok [OF s] and new = fresh [OF a]
  obtain sr sz where gs: "oe_get_size env = (sr, sz)" by force
  obtain h ctx where g: "handle_get (oe_realloc env) (Some a) (user_ctx (with_ctx s)) = (h, ctx)" by force
  note store = open_store [OF s a new full, of "oe_realloc env" h, OF _ _ _ _ refl]
  show ?thesis
    using open_first_fail [OF s] open_early_fail [OF s new] a store
    by (simp add: ldelf_syscall_open_bin_def with_ctx_def [symmetric] Let_def gs g w(2,3))
qed

text \<open>Closing: the handle and its binary go, everything else stays.\<close>

lemma remove_ok:
  assumes t: "sess_ok t" "user_ctx t \<noteq> None" and p: "handle_put h (user_ctx t) = (Some a, ctx)"
  defines "u \<equiv> bin_close a (t\<lparr>user_ctx := ctx\<rparr>)"
  shows "sess_ok u" "bin_of t h = Some a" "bin_of u = (bin_of t)(h := None)" "live u = live t - {a}"
proof -
  note d = sess_ok_someD [OF t] and ps = hdb.put_spec [OF sess_ok_someD(1) [OF t] p]
  show h: "bin_of t h = Some a" using ps by (simp add: bin_of_def)
  show upd: "bin_of u = (bin_of t)(h := None)"
    using ps by (auto simp: u_def bin_of_def fun_eq_iff)
  show lv: "live u = live t - {a}" by (simp add: u_def)
  have ok: "db_ok (user_ctx u)" using ps by (simp add: u_def)
  show "sess_ok u"
  proof (rule sess_ok_someI [OF db_ok_not_None [OF ok] ok])
    fix k b assume k: "bin_of u k = Some b"
    then have kb: "bin_of t k = Some b" "k \<noteq> h" by (auto simp: upd split: if_splits)
    then have "b \<noteq> a" using d(2,3) h by blast
    with d(2) [OF kb(1)] show "b \<in> live u" by (simp add: lv)
  next
    fix b assume "b \<in> live u"
    then have b: "b \<in> live t" "b \<noteq> a" by (auto simp: lv)
    then obtain k where k: "bin_of t k = Some b" "\<forall>k'. bin_of t k' = Some b \<longrightarrow> k' = k"
      using d(3) [OF b(1)] by (elim ex1E)
    show "\<exists>!k. bin_of u k = Some b"
    proof (rule ex1I [of _ k])
      show "bin_of u k = Some b" using k(1) h b by (auto simp: upd)
      show "k' = k" if "bin_of u k' = Some b" for k'
        using that k(2) by (auto simp: upd split: if_splits)
    qed
  qed
qed

lemma empty_db:
  assumes "db_ok db" "handle_db_is_empty db"
  shows "handle_lookup h db = None" "fst (handle_db_destroy True db) = []"
proof -
  obtain d where d: "db = Some d" and len: "length (ptrs d) = max_ptrs d"
    and none: "\<forall>n<max_ptrs d. ptrs d ! n = None"
    using assms by (auto simp: db_ok_def handle_db_is_empty_def list_all_iff split: option.splits)
  show "handle_lookup h db = None" using none by (simp add: handle_lookup_def d)
  have "\<forall>x\<in>set (ptrs d). x = None" using none len by (auto simp: in_set_conv_nth)
  then have "List.map_filter id (ptrs d) = []" by (simp add: List.map_filter_def filter_empty_conv)
  then show "fst (handle_db_destroy True db) = []" by (simp add: handle_db_destroy_def d len)
qed

lemma drop_ctx_ok:
  assumes "sess_ok u" "user_ctx u \<noteq> None" "handle_db_is_empty (user_ctx u)"
  shows "sess_ok (u\<lparr>user_ctx := None\<rparr>)" "bin_of (u\<lparr>user_ctx := None\<rparr>) = bin_of u"
proof -
  note d = sess_ok_someD [OF assms(1,2)]
  have none: "bin_of u h = None" for h using empty_db(1) [OF d(1) assms(3)] by (simp add: bin_of_def)
  then have "live u = {}" using d(3) by (metis all_not_in_conv option.discI)
  then show "sess_ok (u\<lparr>user_ctx := None\<rparr>)" by (simp add: sess_ok_def)
  show "bin_of (u\<lparr>user_ctx := None\<rparr>) = bin_of u" using none by (simp add: bin_of_def fun_eq_iff)
qed

lemma close_bin_ok:
  assumes s: "sess_ok s" and c: "ldelf_syscall_close_bin rd handle s = (res, s')"
  shows "sess_ok s'"
    and "bin_of s (handle_of_ulong handle) = None \<Longrightarrow> res = TEE_ERROR_BAD_PARAMETERS \<and> bin_of s' = bin_of s \<and> live s' = live s"
    and "bin_of s (handle_of_ulong handle) = Some a \<Longrightarrow>
      bin_of s' = (bin_of s)(handle_of_ulong handle := None) \<and> live s' = live s - {a}"
proof -
  let ?h = "handle_of_ulong handle"
  have "sess_ok s' \<and> (case bin_of s ?h of
      None \<Rightarrow> res = TEE_ERROR_BAD_PARAMETERS \<and> bin_of s' = bin_of s \<and> live s' = live s
    | Some a \<Rightarrow> bin_of s' = (bin_of s)(?h := None) \<and> live s' = live s - {a})"
  proof (cases "user_ctx s = None")
    case True
    then show ?thesis using s c by (auto simp: ldelf_syscall_close_bin_def bin_of_def)
  next
    case False
    obtain r ctx where p: "handle_put ?h (user_ctx s) = (r, ctx)" by force
    note d = sess_ok_someD [OF s False]
    note ps = hdb.put_spec [OF d(1) p]
    show ?thesis
    proof (cases r)
      case None
      then have none: "bin_of s ?h = None" and eq: "s' = s\<lparr>user_ctx := ctx\<rparr>" "res = TEE_ERROR_BAD_PARAMETERS"
        using ps p c False by (auto simp: ldelf_syscall_close_bin_def bin_of_def)
      then have b: "bin_of s' = bin_of s" using ps None by (auto simp: bin_of_def fun_eq_iff)
      moreover have "sess_ok s'"
        by (rule sess_ok_same [OF s False _ _ b]) (use ps eq db_ok_not_None in auto)
      ultimately show ?thesis using none eq by simp
    next
      case (Some a)
      let ?u = "bin_close a (s\<lparr>user_ctx := ctx\<rparr>)"
      note r = remove_ok [OF s False p [unfolded Some]]
      have ctx: "user_ctx ?u = ctx" by simp
      have ne: "ctx \<noteq> None" using ps db_ok_not_None by blast
      show ?thesis
      proof (cases "handle_db_is_empty ctx")
        case True
        have "fst (handle_db_destroy True ctx) = []" by (rule empty_db(2) [OF conjunct1 [OF ps] True])
        then have "s' = ?u\<lparr>user_ctx := None\<rparr>"
          using c p False Some True
          by (auto simp: ldelf_syscall_close_bin_def Let_def close_all_def)
        with drop_ctx_ok [of ?u] r ne True show ?thesis by (simp add: ctx)
      next
        case F: False
        then have "s' = ?u" using c p False Some by (simp add: ldelf_syscall_close_bin_def Let_def)
        with r show ?thesis by simp
      qed
    qed
  qed
  then show "sess_ok s'"
    "bin_of s ?h = None \<Longrightarrow> res = TEE_ERROR_BAD_PARAMETERS \<and> bin_of s' = bin_of s \<and> live s' = live s"
    "bin_of s ?h = Some a \<Longrightarrow> bin_of s' = (bin_of s)(?h := None) \<and> live s' = live s - {a}"
    by auto
qed

section \<open>The end of a session\<close>

lemma close_all_live: "live (close_all as s) = live s - set as"
  by (induction as arbitrary: s) (auto simp: close_all_def)

lemma set_map_filter_id: "set (List.map_filter id xs) = {p. Some p \<in> set xs}"
proof (induction xs)
  case (Cons x xs)
  then show ?case by (cases x) (auto simp: List.map_filter_simps)
qed (simp add: List.map_filter_simps)

lemma destroyed_pointers:
  assumes "db_ok db"
  shows "set (fst (handle_db_destroy True db)) = {p. \<exists>h. handle_lookup h db = Some p}"
proof -
  obtain d where d: "db = Some d" and len: "length (ptrs d) = max_ptrs d"
    using assms by (auto simp: db_ok_def split: option.splits)
  have "(\<exists>h. handle_lookup h db = Some p) \<longleftrightarrow> (\<exists>n<max_ptrs d. ptrs d ! n = Some p)" for p
  proof
    show "\<exists>n<max_ptrs d. ptrs d ! n = Some p" if "\<exists>h. handle_lookup h db = Some p"
      using that by (auto simp: handle_lookup_def d not_le split: if_splits)
    show "\<exists>h. handle_lookup h db = Some p" if "\<exists>n<max_ptrs d. ptrs d ! n = Some p"
    proof -
      from that obtain n where "n < max_ptrs d" "ptrs d ! n = Some p" by blast
      then show ?thesis by (intro exI [of _ "int n"]) (simp add: handle_lookup_def d)
    qed
  qed
  then show ?thesis
    using len by (simp add: handle_db_destroy_def d set_map_filter_id in_set_conv_nth)
qed

lemma sess_cleanup_ok:
  assumes "sess_ok s"
  shows "user_ctx (ldelf_sess_cleanup s) = None" "live (ldelf_sess_cleanup s) = {}"
proof -
  show "user_ctx (ldelf_sess_cleanup s) = None" by (simp add: ldelf_sess_cleanup_def)
  show "live (ldelf_sess_cleanup s) = {}"
  proof (cases "user_ctx s = None")
    case True
    with assms show ?thesis by (simp add: ldelf_sess_cleanup_def sess_ok_def)
  next
    case False
    note d = sess_ok_someD [OF assms False]
    have "live s \<subseteq> {p. \<exists>h. handle_lookup h (user_ctx s) = Some p}"
      using ex1_implies_ex [OF d(3)] by (auto simp: bin_of_def)
    moreover have "live (ldelf_sess_cleanup s) = live s - set (fst (handle_db_destroy True (user_ctx s)))"
      using False by (cases "user_ctx s") (simp_all add: ldelf_sess_cleanup_def close_all_live)
    ultimately show ?thesis by (simp add: destroyed_pointers [OF d(1)])
  qed
qed

text \<open>
  What a binary owns: between two calls every allocated binary has an open store and a file and
  records both, and nothing else is open.
\<close>

definition owned_ok :: "ldelf_sess \<Rightarrow> bool" where
  "owned_ok s \<longleftrightarrow> stores s = live s \<and> files s = live s \<and> (\<forall>a\<in>live s. bh_opened (binhs s a) \<and> bh_file (binhs s a))"

lemma bin_close_owned: "owned_ok s \<Longrightarrow> owned_ok (bin_close a s)"
  by (auto simp: owned_ok_def bin_close_def Let_def)

lemma close_all_owned: "owned_ok s \<Longrightarrow> owned_ok (close_all as s)"
  by (induction as arbitrary: s) (auto simp: close_all_def bin_close_owned)

lemma owned_ctx [simp]: "owned_ok (s\<lparr>user_ctx := ctx\<rparr>) = owned_ok s"
  by (simp add: owned_ok_def)

lemma cleanup_owned: "owned_ok s \<Longrightarrow> owned_ok (ldelf_sess_cleanup s)"
  by (simp add: ldelf_sess_cleanup_def close_all_owned)

lemma close_bin_owned:
  assumes "owned_ok s" "ldelf_syscall_close_bin rd handle s = (res, s')"
  shows "owned_ok s'"
  using assms
  by (auto simp: ldelf_syscall_close_bin_def Let_def close_all_owned bin_close_owned split: if_splits prod.splits option.splits)

lemma copy_keeps_resources:
  "binh_copy_to read core user clear offs num b = (res, b', reqs, clears) \<Longrightarrow>
    bh_opened b' = bh_opened b \<and> bh_file b' = bh_file b"
  by (auto simp: binh_copy_to_def Let_def split: if_splits)

lemma copy_bin_owned:
  assumes "owned_ok s" "ldelf_syscall_copy_from_bin acc rdf clr offs num_bytes handle s = (res, s')"
  shows "owned_ok s'"
  using assms copy_keeps_resources
  by (auto simp: ldelf_syscall_copy_from_bin_def owned_ok_def Let_def split: if_splits prod.splits option.splits)

lemma open_bin_owned:
  assumes "owned_ok s" "\<And>a. oe_binh env = Some a \<Longrightarrow> a \<notin> live s" "ldelf_syscall_open_bin env s = (res, h, s')"
  shows "owned_ok s'"
proof (cases "oe_binh env")
  case None
  then show ?thesis using assms by (auto simp: ldelf_syscall_open_bin_def Let_def split: if_splits)
next
  case (Some a)
  obtain sr sz where "oe_get_size env = (sr, sz)" by force
  with Some assms show ?thesis
    by (simp add: ldelf_syscall_open_bin_def Let_def split: if_splits prod.splits)
      (auto simp: owned_ok_def bin_close_def Let_def)
qed

lemma call_keeps_owned: "ldelf_call s s' \<Longrightarrow> owned_ok s \<Longrightarrow> owned_ok s'"
  by (induction rule: ldelf_call.induct) (blast intro: open_bin_owned close_bin_owned copy_bin_owned)+

lemma call_keeps_ok:
  assumes "ldelf_call s s'" "sess_ok s"
  shows "sess_ok s'"
  using assms
proof cases
  case (call_open env res h)
  have nf: "\<not> db_full (user_ctx (with_ctx s))"
    using call_open(2) by (auto simp: db_full_def with_ctx_def split: option.splits)
  have "open_result_ok env s (res, h, s')"
    using open_bin_ok [OF assms(2) call_open(1) nf, of env] unfolding call_open(3) .
  then show ?thesis by (simp add: open_result_ok_def)
next
  case (call_close rd handle res)
  then show ?thesis by (rule close_bin_ok(1) [OF assms(2)])
next
  case (call_copy acc rdf clr offs num_bytes handle res)
  then have "user_ctx s' = user_ctx s" "live s' = live s"
    by (auto simp: ldelf_syscall_copy_from_bin_def Let_def split: if_splits option.splits prod.splits)
  with assms(2) show ?thesis by (cases "user_ctx s") (simp_all add: sess_ok_def)
qed

section \<open>Reading a binary\<close>

lemma copy_cases:
  fixes b :: bin_handle and offs_bytes num_bytes :: u64
  assumes ok: "bh_offs_bytes b \<le> bh_size_bytes b"
    and store: "\<And>p n. read p n = TEE_SUCCESS \<Longrightarrow> unat p + unat n \<le> unat (bh_size_bytes b)"
    and skipped: "offs_bytes > bh_offs_bytes b \<longrightarrow> read (bh_offs_bytes b) (offs_bytes - bh_offs_bytes b) = TEE_SUCCESS"
    and ge: "\<not> offs_bytes < bh_offs_bytes b"
  shows "offs_bytes \<le> bh_size_bytes b"
    and "unat (bh_size_bytes b - offs_bytes) = unat (bh_size_bytes b) - unat offs_bytes"
proof -
  have "unat (offs_bytes - bh_offs_bytes b) = unat offs_bytes - unat (bh_offs_bytes b)"
    using ge by (intro unat_sub) simp
  then show le: "offs_bytes \<le> bh_size_bytes b"
    using ok ge skipped store [of "bh_offs_bytes b" "offs_bytes - bh_offs_bytes b"]
    by (cases "offs_bytes > bh_offs_bytes b") (auto simp: word_le_nat_alt word_less_nat_alt)
  show "unat (bh_size_bytes b - offs_bytes) = unat (bh_size_bytes b) - unat offs_bytes"
    by (rule unat_sub [OF le])
qed

lemma binh_copy_to_ok:
  assumes ok: "bh_offs_bytes b \<le> bh_size_bytes b"
    and store: "\<forall>p n. read p n = TEE_SUCCESS \<longrightarrow> unat p + unat n \<le> unat (bh_size_bytes b)"
    and c: "binh_copy_to read has_va_core has_va_user clear offs_bytes num_bytes b = (res, b', reqs, clears)"
  shows "(bh_size_bytes b' = bh_size_bytes b \<and> bh_offs_bytes b \<le> bh_offs_bytes b' \<and> bh_offs_bytes b' \<le> bh_size_bytes b') \<and>
    (\<forall>(p, n)\<in>set reqs. p = offs_bytes \<longrightarrow> unat n \<le> unat num_bytes) \<and>
    (res = TEE_SUCCESS \<longrightarrow> (\<exists>pre n. reqs = pre @ [(offs_bytes, n)] \<and>
      unat n = min (unat num_bytes) (unat (bh_size_bytes b) - unat offs_bytes) \<and>
      unat (bh_offs_bytes b') = unat offs_bytes + unat n))"
proof -
  let ?p = "bh_offs_bytes b" and ?n = "offs_bytes - bh_offs_bytes b"
  consider "offs_bytes < ?p" | "2 ^ 64 \<le> unat offs_bytes + unat num_bytes" | "?p < offs_bytes" "read ?p ?n \<noteq> TEE_SUCCESS"
    | "\<not> offs_bytes < ?p" "unat offs_bytes + unat num_bytes < 2 ^ 64" "?p < offs_bytes \<longrightarrow> read ?p ?n = TEE_SUCCESS"
    by linarith
  then show ?thesis
  proof cases
    case 4
    then have ge: "unat ?p \<le> unat offs_bytes" by (simp add: word_less_nat_alt)
    note le = copy_cases [where read = read, OF ok store [rule_format] 4(3,1)]
    have nx: "unat (offs_bytes + num_bytes) = unat offs_bytes + unat num_bytes"
      using 4(2) by (simp add: unat_word_ariths)
    show ?thesis
    proof (cases "offs_bytes + num_bytes > bh_size_bytes b")
      case True
      then have "unat (bh_size_bytes b) < unat offs_bytes + unat num_bytes" by (simp add: word_less_nat_alt nx)
      then show ?thesis
        using c True ge 4 le ok
        by (auto simp: binh_copy_to_def Let_def word_le_nat_alt split: if_splits)
    next
      case False
      then have "unat offs_bytes + unat num_bytes \<le> unat (bh_size_bytes b)" by (simp add: word_less_nat_alt nx)
      then show ?thesis
        using c False ge 4 le ok nx
        by (auto simp: binh_copy_to_def Let_def word_le_nat_alt split: if_splits)
    qed
  qed (use c ok in \<open>auto simp: binh_copy_to_def Let_def split: if_splits\<close>)
qed

text \<open>What a successful read leaves to clear is what the binary did not have.\<close>

lemma binh_copy_to_clears:
  assumes c: "binh_copy_to read has_va_core has_va_user clear offs_bytes num_bytes b = (TEE_SUCCESS, b', reqs, clears)"
    and r: "reqs = pre @ [(offs_bytes, n)]" "unat (bh_offs_bytes b') = unat offs_bytes + unat n"
  shows "clears = (if n < num_bytes then replicate (of_bool has_va_core + of_bool has_va_user) (n, num_bytes - n) else [])"
proof -
  have nx: "unat (offs_bytes + num_bytes) = unat offs_bytes + unat num_bytes"
    using c by (auto simp: binh_copy_to_def unat_word_ariths split: if_splits)
  show ?thesis
  proof (cases "offs_bytes + num_bytes > bh_size_bytes b")
    case True
    then have "b' = b\<lparr>bh_offs_bytes := bh_size_bytes b\<rparr>" "n = bh_size_bytes b - offs_bytes"
      using c r(1) by (auto simp: binh_copy_to_def Let_def split: if_splits)
    moreover from this have "n < num_bytes" using True r(2) by (simp add: word_less_nat_alt nx)
    ultimately show ?thesis using c True by (auto simp: binh_copy_to_def Let_def split: if_splits)
  next
    case False
    then show ?thesis using c r(1) by (auto simp: binh_copy_to_def Let_def split: if_splits)
  qed
qed

section \<open>Properties\<close>

definition no_session :: ldelf_sess where
  "no_session = \<lparr>user_ctx = None,
     binhs = (\<lambda>_. \<lparr>bh_opened = False, bh_file = False, bh_offs_bytes = 0, bh_size_bytes = 0\<rparr>), live = {}, stores = {}, files = {}\<rparr>"

lemma calls_keep_ok: "ldelf_call\<^sup>*\<^sup>* s s' \<Longrightarrow> sess_ok s \<Longrightarrow> sess_ok s'"
  by (induction rule: rtranclp_induct) (auto intro: call_keeps_ok)

lemma calls_keep_owned: "ldelf_call\<^sup>*\<^sup>* s s' \<Longrightarrow> owned_ok s \<Longrightarrow> owned_ok s'"
  by (induction rule: rtranclp_induct) (auto intro: call_keeps_owned)

lemma sess_ok_correspond:
  assumes "sess_ok s"
  shows "(\<forall>h a. bin_of s h = Some a \<longrightarrow> a \<in> live s) \<and> (\<forall>a\<in>live s. \<exists>!h. bin_of s h = Some a)"
  using assms by (cases "user_ctx s") (simp_all add: sess_ok_def bin_of_def)

text \<open>Claim C4: whatever sequence of opening, closing and reading calls the loader makes, and however the
  allocations, stores and user accesses behind them fail, every handle stands for an allocated
  binary, every allocated binary has exactly one handle, and the open stores and the files held
  are those of the allocated binaries; the cleanup that follows the loader frees every binary
  and the context, closes every store and puts every file.\<close>

theorem loader_handles_match_binaries:
  assumes "ldelf_call\<^sup>*\<^sup>* no_session s"
  shows "(\<forall>h a. bin_of s h = Some a \<longrightarrow> a \<in> live s) \<and> (\<forall>a\<in>live s. \<exists>!h. bin_of s h = Some a) \<and>
    stores s = live s \<and> files s = live s \<and>
    live (ldelf_sess_cleanup s) = {} \<and> user_ctx (ldelf_sess_cleanup s) = None \<and>
    stores (ldelf_sess_cleanup s) = {} \<and> files (ldelf_sess_cleanup s) = {}"
proof -
  have "sess_ok s" using calls_keep_ok [OF assms] by (simp add: sess_ok_def no_session_def)
  moreover have o: "owned_ok s" using calls_keep_owned [OF assms] by (simp add: owned_ok_def no_session_def)
  moreover note cleanup_owned [OF o]
  ultimately show ?thesis
    using sess_ok_correspond [of s] sess_cleanup_ok [of s] by (simp add: owned_ok_def)
qed

definition good_open :: "nat \<Rightarrow> open_env" where
  "good_open a = \<lparr>oe_memdup = 0, oe_access = 0, oe_uuid_size_ok = True, oe_ctx_alloc = True, oe_binh = Some a,
     oe_kind = Is_user_ta, oe_ta_stores = [TEE_ERROR_ITEM_NOT_FOUND, 0], oe_sp_stores = [],
     oe_get_size = (0, 100), oe_get_tag = 0, oe_file = True, oe_realloc = True, oe_put_user = 0\<rparr>"

theorem loader_handles_match_binaries_witness:
  "\<exists>s. ldelf_call\<^sup>*\<^sup>* no_session s \<and> live s = {5} \<and> bin_of s 0 = Some 5 \<and> live (ldelf_sess_cleanup s) = {}"
proof -
  obtain res h s where o: "ldelf_syscall_open_bin (good_open 5) no_session = (res, h, s)" by (cases rule: prod_cases3)
  then have "live s = {5}" "bin_of s 0 = Some 5"
    by (auto simp: ldelf_syscall_open_bin_def good_open_def no_session_def Let_def handle_get_def to_i32_def
        bin_of_def handle_lookup_def)
  moreover have "ldelf_call\<^sup>*\<^sup>* no_session s"
    by (rule r_into_rtranclp, rule call_open [OF _ _ o]) (simp_all add: good_open_def no_session_def)
  ultimately show ?thesis using loader_handles_match_binaries by blast
qed

text \<open>Claim C33: for a store whose reads fail beyond the size of the binary, a read of any range keeps the
  position inside the binary and never moves it back; no data request asks for more bytes than
  the destination has, also in calls that fail; and a call that succeeds has fetched from the requested offset exactly
  the bytes the binary still has, up to the number asked for, and has cleared exactly the rest
  of each destination it was given.\<close>

theorem copy_stays_in_binary:
  assumes "bh_offs_bytes b \<le> bh_size_bytes b"
    and store_in_range: "\<And>p n. read p n = TEE_SUCCESS \<Longrightarrow> unat p + unat n \<le> unat (bh_size_bytes b)"
    and "binh_copy_to read has_va_core has_va_user clear offs_bytes num_bytes b = (res, b', reqs, clears)"
  shows "(bh_size_bytes b' = bh_size_bytes b \<and> bh_offs_bytes b \<le> bh_offs_bytes b' \<and> bh_offs_bytes b' \<le> bh_size_bytes b') \<and>
    (\<forall>(p, n)\<in>set reqs. p = offs_bytes \<longrightarrow> unat n \<le> unat num_bytes) \<and>
    (res = TEE_SUCCESS \<longrightarrow> (\<exists>pre n. reqs = pre @ [(offs_bytes, n)] \<and>
      unat n = min (unat num_bytes) (unat (bh_size_bytes b) - unat offs_bytes) \<and>
      unat (bh_offs_bytes b') = unat offs_bytes + unat n \<and>
      clears = (if n < num_bytes then replicate (of_bool has_va_core + of_bool has_va_user) (n, num_bytes - n) else [])))"
proof -
  have "\<forall>p n. read p n = TEE_SUCCESS \<longrightarrow> unat p + unat n \<le> unat (bh_size_bytes b)" using store_in_range by blast
  note k = binh_copy_to_ok [OF assms(1) this assms(3)]
  show ?thesis
  proof (cases "res = TEE_SUCCESS")
    case True
    from k True obtain pre n where r: "reqs = pre @ [(offs_bytes, n)]"
      "unat n = min (unat num_bytes) (unat (bh_size_bytes b) - unat offs_bytes)"
      "unat (bh_offs_bytes b') = unat offs_bytes + unat n" by (elim conjE impE exE)
    note c = binh_copy_to_clears [OF assms(3) [unfolded True] r(1,3)]
    show ?thesis
      using conjunct1 [OF k] conjunct1 [OF conjunct2 [OF k]] r c
      by (intro conjI impI exI [of _ pre] exI [of _ n]) (elim conjE, assumption)+
  next
    case False
    with k show ?thesis by auto
  qed
qed

definition store_of_100 :: "u64 \<Rightarrow> u64 \<Rightarrow> u32" where
  "store_of_100 p n = (if unat p + unat n \<le> 100 then TEE_SUCCESS else TEE_ERROR_BAD_PARAMETERS)"

theorem copy_stays_in_binary_witness:
  "\<exists>b' pre n. binh_copy_to store_of_100 False True 0 90 20
       \<lparr>bh_opened = True, bh_file = True, bh_offs_bytes = 30, bh_size_bytes = 100\<rparr> = (TEE_SUCCESS, b', pre @ [(90, n)], [(10, 10)]) \<and>
     unat n = 10 \<and> bh_offs_bytes b' \<le> 100"
proof -
  let ?b = "\<lparr>bh_opened = True, bh_file = True, bh_offs_bytes = 30, bh_size_bytes = 100\<rparr>"
  let ?b' = "\<lparr>bh_opened = True, bh_file = True, bh_offs_bytes = 100, bh_size_bytes = 100\<rparr>"
  have c: "binh_copy_to store_of_100 False True 0 90 20 ?b = (TEE_SUCCESS, ?b', [(30, 60), (90, 10)], [(10, 10)])"
    by (simp add: binh_copy_to_def store_of_100_def Let_def)
  have "store_of_100 p n = TEE_SUCCESS \<Longrightarrow> unat p + unat n \<le> unat (bh_size_bytes ?b)" for p n
    by (simp add: store_of_100_def split: if_splits)
  from copy_stays_in_binary [OF _ this c] obtain pre n where
    "[(30, 60), (90 :: u64, 10 :: u64)] = pre @ [(90, n)]" "unat n = 10" by auto
  then show ?thesis using c by (intro exI [of _ ?b'] exI [of _ pre] exI [of _ n]) simp
qed

end
