(* ===== verification/Refcount.thy ===== *)
theory Refcount
  imports Optee_Prelude
begin

text \<open>
  The reference counter of \<open>core/kernel/refcount.c\<close>: its two operations as functions of the counter,
  and the compare-and-swap loops that implement them as steps of any number of threads on one
  counter. Every interleaving of the loops is a sequence of whole operations.
\<close>

section \<open>The operations\<close>

definition refcount_inc :: "u32 \<Rightarrow> bool \<times> u32" where
  "refcount_inc v = (if v = 0 then (False, v) else (True, v + 1))"

definition refcount_dec :: "u32 \<Rightarrow> (bool \<times> u32) res" where
  "refcount_dec v = (if v = 0 then Inl Panic else Inr (v - 1 = 0, v - 1))"

section \<open>The loops\<close>

datatype rc_op = Inc | Dec

text \<open>
  Where a thread is: outside the operations, between reading the counter and the exchange with
  the value \<open>oval\<close> it read, about to return, or stopped by the assertion.
\<close>

datatype rc_pc = Outside | Holding rc_op u32 | Returning rc_op bool | Stopped

record rc_sys =
  rc_val :: u32
  rc_pcs :: "nat \<Rightarrow> rc_pc"
  rc_log :: "(rc_op \<times> bool) list"

text \<open>What a thread does with the value it has just read, at the start or from a failed exchange.\<close>

definition rc_read :: "nat \<Rightarrow> rc_op \<Rightarrow> rc_sys \<Rightarrow> rc_sys" where
  "rc_read t op s =
     (if rc_val s \<noteq> 0 then s\<lparr>rc_pcs := (rc_pcs s)(t := Holding op (rc_val s))\<rparr>
      else case op of
        Inc \<Rightarrow> s\<lparr>rc_pcs := (rc_pcs s)(t := Returning Inc False), rc_log := rc_log s @ [(Inc, False)]\<rparr>
      | Dec \<Rightarrow> s\<lparr>rc_pcs := (rc_pcs s)(t := Stopped)\<rparr>)"

definition rc_new :: "rc_op \<Rightarrow> u32 \<Rightarrow> u32" where
  "rc_new op oval = (case op of Inc \<Rightarrow> oval + 1 | Dec \<Rightarrow> oval - 1)"

definition rc_result :: "rc_op \<Rightarrow> u32 \<Rightarrow> bool" where
  "rc_result op nval = (case op of Inc \<Rightarrow> True | Dec \<Rightarrow> nval = 0)"

inductive rc_step :: "rc_sys \<Rightarrow> rc_sys \<Rightarrow> bool" where
  load: "rc_pcs s t = Outside \<Longrightarrow> rc_step s (rc_read t op s)"
| exchanged: "rc_pcs s t = Holding op oval \<Longrightarrow> rc_val s = oval \<Longrightarrow>
    rc_step s (s\<lparr>rc_val := rc_new op oval, rc_pcs := (rc_pcs s)(t := Returning op (rc_result op (rc_new op oval))),
      rc_log := rc_log s @ [(op, rc_result op (rc_new op oval))]\<rparr>)"
| failed: "rc_pcs s t = Holding op oval \<Longrightarrow> rc_val s \<noteq> oval \<Longrightarrow> rc_step s (rc_read t op s)"
| return: "rc_pcs s t = Returning op r \<Longrightarrow> rc_step s (s\<lparr>rc_pcs := (rc_pcs s)(t := Outside)\<rparr>)"

section \<open>Interleavings are sequences of operations\<close>

text \<open>The log replayed by the operations, each of which must give the logged result.\<close>

fun rc_replay :: "u32 \<Rightarrow> (rc_op \<times> bool) list \<Rightarrow> u32 option" where
  "rc_replay v [] = Some v"
| "rc_replay v ((Inc, r) # es) = (if fst (refcount_inc v) = r then rc_replay (snd (refcount_inc v)) es else None)"
| "rc_replay v ((Dec, r) # es) = (case refcount_dec v of
     Inl _ \<Rightarrow> None
   | Inr (r', v') \<Rightarrow> if r' = r then rc_replay v' es else None)"

lemma rc_replay_append:
  "rc_replay v (es @ fs) = (case rc_replay v es of None \<Rightarrow> None | Some w \<Rightarrow> rc_replay w fs)"
  by (induction v es rule: rc_replay.induct) (auto split: sum.splits)

definition rc_inv :: "u32 \<Rightarrow> rc_sys \<Rightarrow> bool" where
  "rc_inv v s \<longleftrightarrow> rc_replay v (rc_log s) = Some (rc_val s) \<and> (\<forall>t op oval. rc_pcs s t = Holding op oval \<longrightarrow> oval \<noteq> 0) \<and>
     (\<forall>t op r. rc_pcs s t = Returning op r \<longrightarrow> (op, r) \<in> set (rc_log s))"

lemma rc_read_inv: "rc_inv v s \<Longrightarrow> rc_inv v (rc_read t op s)"
  by (cases op) (auto simp: rc_inv_def rc_read_def rc_replay_append refcount_inc_def split: if_splits)

lemma rc_step_inv:
  assumes "rc_step s s'" "rc_inv v s"
  shows "rc_inv v s'"
  using assms
proof cases
  case (exchanged t op oval)
  then have "oval \<noteq> 0" using assms(2) by (auto simp: rc_inv_def)
  then show ?thesis
    using exchanged assms(2)
    by (cases op) (auto simp: rc_inv_def rc_replay_append refcount_inc_def refcount_dec_def rc_new_def rc_result_def)
qed (use rc_read_inv assms(2) in \<open>auto simp: rc_inv_def\<close>)

lemma rc_steps_inv: "rc_step\<^sup>*\<^sup>* s s' \<Longrightarrow> rc_inv v s \<Longrightarrow> rc_inv v s'"
  by (induction rule: rtranclp_induct) (auto intro: rc_step_inv)

section \<open>What the results mean\<close>

definition ups :: "(rc_op \<times> bool) list \<Rightarrow> nat" where
  "ups es = length (filter ((=) (Inc, True)) es)"

definition downs :: "(rc_op \<times> bool) list \<Rightarrow> nat" where
  "downs es = length (filter (\<lambda>e. fst e = Dec) es)"

lemmas rc_counts = ups_def downs_def

text \<open>From zero nothing is gained: increments fail, a decrement would stop.\<close>

lemma replay_zero: "rc_replay 0 es = Some w \<Longrightarrow> w = 0 \<and> set es \<subseteq> {(Inc, False)}"
proof (induction es)
  case (Cons e es)
  then show ?case by (cases e; cases "fst e") (auto simp: refcount_inc_def refcount_dec_def split: if_splits)
qed simp

text \<open>
  The references that exist after a sequence of operations; a run stays in range when there are
  never more of them than the counter can hold.
\<close>

definition refs :: "u32 \<Rightarrow> (rc_op \<times> bool) list \<Rightarrow> int" where
  "refs v es = int (unat v) + int (ups es) - int (downs es)"

definition refs_fit :: "u32 \<Rightarrow> (rc_op \<times> bool) list \<Rightarrow> bool" where
  "refs_fit v es \<longleftrightarrow> (\<forall>k\<in>set [0..<Suc (length es)]. refs v (take k es) < 2 ^ 32)"

lemma refs_fit_Cons:
  assumes "refs_fit v (e # es)"
  shows "refs v [e] < 2 ^ 32" "int (unat v) + int (ups [e]) - int (downs [e]) = int (unat v') \<Longrightarrow> refs_fit v' es"
proof -
  have "refs v (take 1 (e # es)) < 2 ^ 32" using assms unfolding refs_fit_def by (rule bspec) (simp only: set_upt atLeastLessThan_iff, simp)
  then show "refs v [e] < 2 ^ 32" by simp
  assume v': "int (unat v) + int (ups [e]) - int (downs [e]) = int (unat v')"
  have step: "refs v (take (Suc k) (e # es)) = refs v' (take k es)" for k
  proof -
    have "ups (e # xs) = ups [e] + ups xs" "downs (e # xs) = downs [e] + downs xs" for xs by (simp_all add: rc_counts)
    from this [of "take k es"] v' show ?thesis unfolding refs_def take_Suc_Cons by linarith
  qed
  show "refs_fit v' es" unfolding refs_fit_def
  proof
    fix k assume "k \<in> set [0..<Suc (length es)]"
    then have "Suc k \<in> set [0..<Suc (length (e # es))]" by (simp only: set_upt atLeastLessThan_iff) simp
    with assms show "refs v' (take k es) < 2 ^ 32" unfolding refs_fit_def step [symmetric] by (rule bspec)
  qed
qed

lemma replay_zero_counts:
  assumes "rc_replay 0 es = Some w"
  shows "w = 0" "downs es = 0" "ups es = 0" "count_list es (Dec, True) = 0"
  using replay_zero [OF assms] by (auto simp: rc_counts filter_empty_conv count_list_0_iff)

lemma replay_counts:
  "rc_replay v es = Some w \<Longrightarrow> refs_fit v es \<Longrightarrow>
   unat w + downs es = unat v + ups es \<and> count_list es (Dec, True) = (if v \<noteq> 0 \<and> w = 0 then 1 else 0)"
proof (induction v es rule: rc_replay.induct)
  case (2 v r es)
  show ?case
  proof (cases "v = 0")
    case True
    then show ?thesis using replay_zero_counts [of "(Inc, r) # es" w] 2(2) by simp
  next
    case False
    then have r: r "rc_replay (v + 1) es = Some w" using 2(2) by (simp_all add: refcount_inc_def split: if_splits)
    have "int (unat v) + 1 < 2 ^ 32" using refs_fit_Cons(1) [OF 2(3)] r(1) by (simp only: refs_def rc_counts) simp
    then have "int (unat v + 1) < int (2 ^ 32)" by simp
    then have "unat v + 1 < 2 ^ 32" by (simp only: of_nat_less_iff)
    then have u: "unat (v + 1) = Suc (unat v)" by (simp add: unat_word_ariths)
    then have nz: "v + 1 \<noteq> 0" by force
    have "refs_fit (v + 1) es" by (rule refs_fit_Cons(2) [OF 2(3)]) (use r(1) u in \<open>simp add: rc_counts\<close>)
    then show ?thesis using 2(1) r u nz False by (simp add: refcount_inc_def rc_counts)
  qed
next
  case (3 v r es)
  then have v: "v \<noteq> 0" and r: "r = (v - 1 = 0)" "rc_replay (v - 1) es = Some w"
    by (auto simp: refcount_dec_def split: if_splits)
  have u: "unat v = Suc (unat (v - 1))" using v by (simp add: unat_minus_one unat_gt_0)
  show ?case
  proof (cases "v - 1 = 0")
    case True
    then show ?thesis using replay_zero_counts [of es w] r u v by (simp add: rc_counts)
  next
    case False
    have "refs_fit (v - 1) es" by (rule refs_fit_Cons(2) [OF 3(3)]) (use u in \<open>simp add: rc_counts\<close>)
    then show ?thesis using 3(1) [of "(r, v - 1)" r "v - 1"] r u v False by (simp add: refcount_dec_def rc_counts)
  qed
qed (auto simp: rc_counts)

section \<open>Properties\<close>

text \<open>Claim C17: for any number of threads in the compare-and-swap loops, in every interleaving and from every
  value, the operations completed so far are a sequence of whole increments and decrements with
  those results, and each operation that is about to return is one of them. If never more references
  existed at the same time than 32 bits can count, the counter is the start value plus the
  successful increments minus the decrements, and exactly one decrement has reported the last
  reference if the counter has become zero, and none has otherwise.\<close>

theorem refcount_interleavings:
  assumes "rc_step\<^sup>*\<^sup>* s s'" "rc_log s = []" "\<forall>t. rc_pcs s t = Outside"
  shows "rc_replay (rc_val s) (rc_log s') = Some (rc_val s') \<and>
    (\<forall>t op r. rc_pcs s' t = Returning op r \<longrightarrow> (op, r) \<in> set (rc_log s')) \<and>
    (refs_fit (rc_val s) (rc_log s') \<longrightarrow>
      unat (rc_val s') + downs (rc_log s') = unat (rc_val s) + ups (rc_log s') \<and>
      count_list (rc_log s') (Dec, True) = (if rc_val s \<noteq> 0 \<and> rc_val s' = 0 then 1 else 0))"
proof -
  have inv: "rc_inv (rc_val s) s'"
    by (rule rc_steps_inv [OF assms(1)]) (use assms(2,3) in \<open>simp add: rc_inv_def\<close>)
  then show ?thesis using replay_counts [of "rc_val s" "rc_log s'" "rc_val s'"] unfolding rc_inv_def by blast
qed

text \<open>Two threads drop the last two references; the second exchange of the slower one succeeds.\<close>

definition rc_two :: rc_sys where
  "rc_two = \<lparr>rc_val = 2, rc_pcs = (\<lambda>_. Outside), rc_log = []\<rparr>"

theorem refcount_interleavings_witness:
  "\<exists>s'. rc_step\<^sup>*\<^sup>* rc_two s' \<and> rc_val s' = 0 \<and> count_list (rc_log s') (Dec, True) = 1"
proof -
  let ?s1 = "rc_read 0 Dec rc_two" let ?s2 = "rc_read 1 Dec ?s1"
  let ?s3 = "?s2\<lparr>rc_val := 1, rc_pcs := (rc_pcs ?s2)(0 := Returning Dec False), rc_log := [(Dec, False)]\<rparr>"
  let ?s4 = "rc_read 1 Dec ?s3"
  let ?s5 = "?s4\<lparr>rc_val := 0, rc_pcs := (rc_pcs ?s4)(1 := Returning Dec True), rc_log := [(Dec, False), (Dec, True)]\<rparr>"
  have "rc_step rc_two ?s1" by (rule load) (simp add: rc_two_def)
  moreover have "rc_step ?s1 ?s2" by (rule load) (simp add: rc_two_def rc_read_def)
  moreover have "rc_step ?s2 ?s3"
    using exchanged [of ?s2 0 Dec 2] by (simp add: rc_two_def rc_read_def rc_new_def rc_result_def)
  moreover have "rc_step ?s3 ?s4" by (rule failed [of _ 1 Dec 2]) (simp_all add: rc_two_def rc_read_def)
  moreover have "rc_step ?s4 ?s5"
    using exchanged [of ?s4 1 Dec 1] by (simp add: rc_two_def rc_read_def rc_new_def rc_result_def)
  ultimately have run: "rc_step\<^sup>*\<^sup>* rc_two ?s5" by (meson converse_rtranclp_into_rtranclp rtranclp.rtrancl_refl)
  have "refs_fit 2 [(Dec, False), (Dec, True)]"
    by (simp add: refs_fit_def refs_def rc_counts)
  then have "count_list (rc_log ?s5) (Dec, True) = 1"
    using refcount_interleavings [OF run] by (simp add: rc_two_def)
  with run show ?thesis by (intro exI [of _ ?s5]) simp
qed

end
