(* ===== verification/File_Store.thy ===== *)
theory File_Store
  imports Refcount
begin

text \<open>
  The files of \<open>core/mm/file.c\<close>: shared, reference counted containers of the pages of a binary,
  found by a tag. A slice says which pages of the file an object holds. The table of files is
  protected by a mutex, but a file is dropped in two steps (the counter first, the table
  afterwards), so lookups can meet files that are about to be freed.
\<close>

section \<open>Files and slices\<close>

abbreviation (input) FILE_TAG_SIZE :: nat where "FILE_TAG_SIZE \<equiv> 32"

record file_slice =
  sl_fobj :: nat
  sl_num_pages :: u32
  sl_page_offset :: u32

record file_t =
  f_tag :: "u8 list"
  f_taglen :: u32
  f_refc :: u32
  f_mu :: bool
  f_slices :: "file_slice list"

definition file_tag_cmp :: "file_t \<Rightarrow> u8 list \<Rightarrow> u32 \<Rightarrow> bool" where
  "file_tag_cmp f tag taglen \<longleftrightarrow> f_taglen f = taglen \<and> take (unat taglen) tag = take (unat taglen) (f_tag f)"

definition covers :: "file_slice \<Rightarrow> u32 \<Rightarrow> bool" where
  "covers fs page_offset \<longleftrightarrow>
     page_offset \<ge> sl_page_offset fs \<and> page_offset < sl_page_offset fs + sl_num_pages fs"

definition file_find_slice :: "file_t \<Rightarrow> u32 \<Rightarrow> file_slice option res" where
  "file_find_slice f page_offset =
     (if \<not> f_mu f then Inl Panic else Inr (find (\<lambda>fs. covers fs page_offset) (f_slices f)))"

text \<open>\<open>mem\<close> and \<open>got\<close> are the results of the allocation and of taking the reference on the object.\<close>

definition file_add_slice :: "bool \<Rightarrow> bool \<Rightarrow> nat \<Rightarrow> u32 \<Rightarrow> u32 \<Rightarrow> file_t \<Rightarrow> (u32 \<times> file_t) res" where
  "file_add_slice mem got fobj num_pages page_offset f =
     cbind (file_find_slice f page_offset) (\<lambda>fs.
       if fs \<noteq> None then Inr (TEE_ERROR_BAD_PARAMETERS, f)
       else if \<not> mem then Inr (TEE_ERROR_OUT_OF_MEMORY, f)
       else if \<not> got \<or> unat page_offset + unat num_pages \<ge> 2 ^ 32 then Inr (TEE_ERROR_BAD_PARAMETERS, f)
       else Inr (TEE_SUCCESS, f\<lparr>f_slices :=
         \<lparr>sl_fobj = fobj, sl_num_pages = num_pages, sl_page_offset = page_offset\<rparr> # f_slices f\<rparr>))"

section \<open>The table\<close>

record file_table =
  ft_files :: "nat \<Rightarrow> file_t"
  ft_head :: "nat list"
  ft_alloc :: "nat set"

definition file_find_tag_unlocked :: "file_table \<Rightarrow> u8 list \<Rightarrow> u32 \<Rightarrow> nat option" where
  "file_find_tag_unlocked ft tag taglen = find (\<lambda>a. file_tag_cmp (ft_files ft a) tag taglen) (ft_head ft)"

definition set_refc :: "nat \<Rightarrow> u32 \<Rightarrow> file_table \<Rightarrow> file_table" where
  "set_refc a v ft = ft\<lparr>ft_files := (ft_files ft)(a := (ft_files ft a)\<lparr>f_refc := v\<rparr>)\<rparr>"

definition file_get :: "nat option \<Rightarrow> file_table \<Rightarrow> (nat option \<times> file_table) res" where
  "file_get f ft = (case f of
     None \<Rightarrow> Inr (None, ft)
   | Some a \<Rightarrow> (case refcount_inc (f_refc (ft_files ft a)) of
        (False, _) \<Rightarrow> Inl Panic
      | (True, v) \<Rightarrow> Inr (Some a, set_refc a v ft)))"

definition file_new :: "u8 list \<Rightarrow> u32 \<Rightarrow> file_t" where
  "file_new tag taglen =
     \<lparr>f_tag = take (unat taglen) tag @ replicate (FILE_TAG_SIZE - unat taglen) 0, f_taglen = taglen,
      f_refc = 1, f_mu = False, f_slices = []\<rparr>"

definition file_get_by_tag ::
  "nat option \<Rightarrow> u8 list \<Rightarrow> u32 \<Rightarrow> file_table \<Rightarrow> nat option \<times> file_table" where
  "file_get_by_tag mem tag taglen ft =
     (let fresh = (case mem of
            None \<Rightarrow> (None, ft)
          | Some a \<Rightarrow> (Some a, ft\<lparr>ft_files := (ft_files ft)(a := file_new tag taglen),
              ft_head := a # ft_head ft, ft_alloc := insert a (ft_alloc ft)\<rparr>))
      in
      if unat taglen > FILE_TAG_SIZE then (None, ft)
      else case file_find_tag_unlocked ft tag taglen of
        None \<Rightarrow> fresh
      | Some a \<Rightarrow> (case refcount_inc (f_refc (ft_files ft a)) of
          (True, v) \<Rightarrow> (Some a, set_refc a v ft)
        | (False, _) \<Rightarrow> fresh))"

definition file_free :: "nat \<Rightarrow> file_table \<Rightarrow> (nat list \<times> file_table) res" where
  "file_free a ft =
     (if f_mu (ft_files ft a) then Inl Panic
      else Inr (map sl_fobj (f_slices (ft_files ft a)), ft\<lparr>ft_alloc := ft_alloc ft - {a}\<rparr>))"

text \<open>
  \<open>file_put\<close> is its two halves: dropping the reference, and, for the thread that dropped the last
  one, removing the file. The second returns the objects whose references are given back.
\<close>

definition file_put_dec :: "nat \<Rightarrow> file_table \<Rightarrow> (bool \<times> file_table) res" where
  "file_put_dec a ft = cbind (refcount_dec (f_refc (ft_files ft a))) (\<lambda>(fin, v). Inr (fin, set_refc a v ft))"

definition file_put_remove :: "nat \<Rightarrow> file_table \<Rightarrow> (nat list \<times> file_table) res" where
  "file_put_remove a ft = file_free a (ft\<lparr>ft_head := remove1 a (ft_head ft)\<rparr>)"

section \<open>Slices\<close>

definition slices_ok :: "file_t \<Rightarrow> bool" where
  "slices_ok f \<longleftrightarrow> (\<forall>fs\<in>set (f_slices f). unat (sl_page_offset fs) + unat (sl_num_pages fs) < 2 ^ 32)"

lemma covers_iff:
  assumes "unat (sl_page_offset fs) + unat (sl_num_pages fs) < 2 ^ 32"
  shows "covers fs p \<longleftrightarrow>
    unat (sl_page_offset fs) \<le> unat p \<and> unat p < unat (sl_page_offset fs) + unat (sl_num_pages fs)"
  using assms by (simp add: covers_def word_le_nat_alt word_less_nat_alt unat_word_ariths)

lemma add_slice_lookup:
  assumes ok: "slices_ok f" "f_mu f" and a: "file_add_slice mem got fobj n po f = Inr (res, f')"
  shows "slices_ok f' \<and> f_mu f' \<and>
    (res \<noteq> TEE_SUCCESS \<longrightarrow> f' = f) \<and>
    (res = TEE_SUCCESS \<longrightarrow> file_find_slice f po = Inr None \<and>
      (\<forall>p. file_find_slice f' p =
        (if unat po \<le> unat p \<and> unat p < unat po + unat n
         then Inr (Some \<lparr>sl_fobj = fobj, sl_num_pages = n, sl_page_offset = po\<rparr>) else file_find_slice f p)))"
proof -
  let ?fs = "\<lparr>sl_fobj = fobj, sl_num_pages = n, sl_page_offset = po\<rparr>"
  obtain r where r: "file_find_slice f po = Inr r" using ok(2) by (simp add: file_find_slice_def)
  show ?thesis
  proof (cases "r \<noteq> None \<or> \<not> mem \<or> \<not> got \<or> unat po + unat n \<ge> 2 ^ 32")
    case True
    then show ?thesis using a ok r by (auto simp: file_add_slice_def split: if_splits)
  next
    case False
    then have f': "f' = f\<lparr>f_slices := ?fs # f_slices f\<rparr>" "res = TEE_SUCCESS" and small: "unat po + unat n < 2 ^ 32"
      using a r by (auto simp: file_add_slice_def)
    then show ?thesis
      using ok r False covers_iff [of ?fs] by (auto simp: file_find_slice_def slices_ok_def)
  qed
qed

section \<open>Threads that share files\<close>

text \<open>
  \<open>fs_refs\<close> counts the references the callers hold and \<open>fs_dying\<close> has the files whose last reference
  is dropped and that are not yet removed. A caller only passes files it holds a reference to.
  Locks and slices belong to whoever holds a reference and do not change the table.
\<close>

record file_sys =
  fs_tab :: file_table
  fs_refs :: "nat \<Rightarrow> nat"
  fs_dying :: "nat set"

inductive file_step :: "file_sys \<Rightarrow> file_sys \<Rightarrow> bool" where
  by_tag: "file_get_by_tag mem tag taglen (fs_tab s) = (Some a, ft) \<Longrightarrow> (\<And>n. mem = Some n \<Longrightarrow> n \<notin> ft_alloc (fs_tab s)) \<Longrightarrow>
    unat taglen \<le> length tag \<Longrightarrow> fs_refs s a < 2 ^ 32 - 1 \<Longrightarrow>
    file_step s (s\<lparr>fs_tab := ft, fs_refs := (fs_refs s)(a := Suc (fs_refs s a))\<rparr>)"
| again: "0 < fs_refs s a \<Longrightarrow> file_get (Some a) (fs_tab s) = Inr (Some a, ft) \<Longrightarrow> fs_refs s a < 2 ^ 32 - 1 \<Longrightarrow>
    file_step s (s\<lparr>fs_tab := ft, fs_refs := (fs_refs s)(a := Suc (fs_refs s a))\<rparr>)"
| put: "0 < fs_refs s a \<Longrightarrow> file_put_dec a (fs_tab s) = Inr (fin, ft) \<Longrightarrow>
    file_step s (s\<lparr>fs_tab := ft, fs_refs := (fs_refs s)(a := fs_refs s a - 1),
      fs_dying := (if fin then insert a (fs_dying s) else fs_dying s)\<rparr>)"
| remove: "a \<in> fs_dying s \<Longrightarrow> file_put_remove a (fs_tab s) = Inr (objs, ft) \<Longrightarrow>
    file_step s (s\<lparr>fs_tab := ft, fs_dying := fs_dying s - {a}\<rparr>)"

definition tag_of :: "file_t \<Rightarrow> file_t \<Rightarrow> bool" where
  "tag_of f g = file_tag_cmp g (f_tag f) (f_taglen f)"

lemma tag_of_refc [simp]: "tag_of (f\<lparr>f_refc := v\<rparr>) g = tag_of f g" "tag_of f (g\<lparr>f_refc := v\<rparr>) = tag_of f g"
  by (simp_all add: tag_of_def file_tag_cmp_def)

lemma tag_of_refl [simp]: "tag_of f f"
  by (simp add: tag_of_def file_tag_cmp_def)

lemma tag_of_new:
  assumes "unat taglen \<le> length tag" "unat taglen \<le> FILE_TAG_SIZE"
  shows "tag_of (file_new tag taglen) g = file_tag_cmp g tag taglen"
    "tag_of f (file_new tag taglen) = file_tag_cmp f tag taglen"
  using assms by (auto simp: tag_of_def file_tag_cmp_def file_new_def)

lemma tag_of_cmp: "file_tag_cmp f tag taglen \<Longrightarrow> tag_of f g = file_tag_cmp g tag taglen"
  by (auto simp: tag_of_def file_tag_cmp_def)

text \<open>
  The invariant: the table holds the allocated files, the counter of each is the number of
  references held, a file without references is waiting to be removed, and a file with
  references is the one its tag finds (so there is only one for each tag).
\<close>

definition file_inv :: "file_sys \<Rightarrow> bool" where
  "file_inv s \<longleftrightarrow> (let ft = fs_tab s in
     distinct (ft_head ft) \<and> set (ft_head ft) = ft_alloc ft \<and>
     (\<forall>a. 0 < fs_refs s a \<longrightarrow> a \<in> ft_alloc ft \<and> find (\<lambda>b. tag_of (ft_files ft a) (ft_files ft b)) (ft_head ft) = Some a) \<and>
     (\<forall>a\<in>ft_alloc ft. unat (f_refc (ft_files ft a)) = fs_refs s a \<and> (fs_refs s a = 0 \<longleftrightarrow> a \<in> fs_dying s)) \<and>
     fs_dying s \<subseteq> ft_alloc ft)"

lemma find_cong_set: "(\<And>x. x \<in> set xs \<Longrightarrow> P x = Q x) \<Longrightarrow> find P xs = find Q xs"
  by (induction xs) auto

lemma find_remove1: "find P xs = Some a \<Longrightarrow> a \<noteq> d \<Longrightarrow> find P (remove1 d xs) = Some a"
  by (induction xs) (auto split: if_splits)

lemma set_refc_simps [simp]:
  "ft_head (set_refc a v ft) = ft_head ft" "ft_alloc (set_refc a v ft) = ft_alloc ft"
  "f_refc (ft_files (set_refc a v ft) b) = (if b = a then v else f_refc (ft_files ft b))"
  "tag_of (ft_files (set_refc a v ft) b) (ft_files (set_refc a v ft) c) = tag_of (ft_files ft b) (ft_files ft c)"
  by (auto simp: set_refc_def)

lemma file_invD:
  assumes "file_inv s"
  shows "distinct (ft_head (fs_tab s))" "set (ft_head (fs_tab s)) = ft_alloc (fs_tab s)" "fs_dying s \<subseteq> ft_alloc (fs_tab s)"
    "\<And>a. 0 < fs_refs s a \<Longrightarrow> a \<in> ft_alloc (fs_tab s)"
    "\<And>a. 0 < fs_refs s a \<Longrightarrow>
       find (\<lambda>b. tag_of (ft_files (fs_tab s) a) (ft_files (fs_tab s) b)) (ft_head (fs_tab s)) = Some a"
    "\<And>a. a \<in> ft_alloc (fs_tab s) \<Longrightarrow> unat (f_refc (ft_files (fs_tab s) a)) = fs_refs s a"
    "\<And>a. a \<in> ft_alloc (fs_tab s) \<Longrightarrow> fs_refs s a = 0 \<longleftrightarrow> a \<in> fs_dying s"
  using assms by (simp_all add: file_inv_def Let_def)

lemma file_invI:
  assumes "distinct (ft_head (fs_tab s))" "set (ft_head (fs_tab s)) = ft_alloc (fs_tab s)" "fs_dying s \<subseteq> ft_alloc (fs_tab s)"
    and "\<And>a. 0 < fs_refs s a \<Longrightarrow> a \<in> ft_alloc (fs_tab s) \<and>
       find (\<lambda>b. tag_of (ft_files (fs_tab s) a) (ft_files (fs_tab s) b)) (ft_head (fs_tab s)) = Some a"
    and "\<And>a. a \<in> ft_alloc (fs_tab s) \<Longrightarrow> unat (f_refc (ft_files (fs_tab s) a)) = fs_refs s a \<and>
       (fs_refs s a = 0 \<longleftrightarrow> a \<in> fs_dying s)"
  shows "file_inv s"
  using assms by (simp add: file_inv_def Let_def)

lemma inv_set_refc:
  assumes inv: "file_inv s" and a: "a \<in> ft_alloc (fs_tab s)" and v: "unat v = n" "n = 0 \<longleftrightarrow> a \<in> D"
    and D: "D - {a} = fs_dying s - {a}" and n: "0 < fs_refs s a"
  shows "file_inv (s\<lparr>fs_tab := set_refc a v (fs_tab s), fs_refs := (fs_refs s)(a := n), fs_dying := D\<rparr>)"
proof (rule file_invI, goal_cases)
  case 3
  then show ?case using file_invD(3) [OF inv] a D by auto
next
  case (4 b)
  then have "0 < fs_refs s b" using n by (simp split: if_splits)
  from file_invD(4,5) [OF inv this] show ?case by simp
next
  case (5 b)
  have "b \<in> D \<longleftrightarrow> b \<in> fs_dying s" if "b \<noteq> a" using D that by blast
  with 5 file_invD(6,7) [OF inv, of b] v show ?case by simp
qed (use file_invD(1,2) [OF inv] in simp_all)

text \<open>Every step keeps it.\<close>

lemma refcount_inc_exact:
  assumes "unat v = n" "0 < n" "n < 2 ^ 32 - 1"
  shows "refcount_inc v = (True, v + 1)" "unat (v + 1) = Suc n"
proof -
  show "refcount_inc v = (True, v + 1)" using assms by (auto simp: refcount_inc_def)
  show "unat (v + 1) = Suc n" using assms by (simp add: unat_word_ariths)
qed

lemma inv_reference:
  assumes inv: "file_inv s" and r: "0 < fs_refs s a" "fs_refs s a < 2 ^ 32 - 1"
    and i: "refcount_inc (f_refc (ft_files (fs_tab s) a)) = (ok, v)"
  shows "ok" "file_inv (s\<lparr>fs_tab := set_refc a v (fs_tab s), fs_refs := (fs_refs s)(a := Suc (fs_refs s a))\<rparr>)"
proof -
  note al = file_invD(4) [OF inv r(1)]
  note x = refcount_inc_exact [OF file_invD(6) [OF inv al] r]
  show ok using x i by simp
  have "a \<notin> fs_dying s" using file_invD(7) [OF inv al] r by simp
  then show "file_inv (s\<lparr>fs_tab := set_refc a v (fs_tab s), fs_refs := (fs_refs s)(a := Suc (fs_refs s a))\<rparr>)"
    using inv_set_refc [OF inv al, of v "Suc (fs_refs s a)" "fs_dying s"] x i r by simp
qed

lemma inv_fresh:
  assumes inv: "file_inv s" and n: "n \<notin> ft_alloc (fs_tab s)"
    and len: "unat taglen \<le> length tag" "unat taglen \<le> FILE_TAG_SIZE"
    and dead: "\<And>a. 0 < fs_refs s a \<Longrightarrow> \<not> file_tag_cmp (ft_files (fs_tab s) a) tag taglen"
  shows "file_inv (s\<lparr>fs_tab := (fs_tab s)\<lparr>ft_files := (ft_files (fs_tab s))(n := file_new tag taglen),
      ft_head := n # ft_head (fs_tab s), ft_alloc := insert n (ft_alloc (fs_tab s))\<rparr>,
      fs_refs := (fs_refs s)(n := Suc (fs_refs s n))\<rparr>)"
proof (rule file_invI, goal_cases)
  case (4 a)
  show ?case
  proof (cases "a = n")
    case False
    then have r: "0 < fs_refs s a" using 4 by simp
    let ?g = "(ft_files (fs_tab s))(n := file_new tag taglen)"
    have "find (\<lambda>b. tag_of (ft_files (fs_tab s) a) (?g b)) (ft_head (fs_tab s)) =
        find (\<lambda>b. tag_of (ft_files (fs_tab s) a) (ft_files (fs_tab s) b)) (ft_head (fs_tab s))"
      by (rule find_cong_set) (use n file_invD(2) [OF inv] in auto)
    then show ?thesis
      using False r file_invD(4,5) [OF inv r] dead [OF r] by (simp add: tag_of_new [OF len])
  qed simp
next
  case (5 a)
  have "fs_refs s n = 0" "n \<notin> fs_dying s" using file_invD(3,4) [OF inv] n by auto
  with 5 file_invD(6,7) [OF inv, of a] show ?case by (auto simp: file_new_def)
qed (use file_invD(1-3) [OF inv] n in auto)

lemma live_is_found:
  assumes "file_inv s" "0 < fs_refs s a" "file_tag_cmp (ft_files (fs_tab s) a) tag taglen"
  shows "file_find_tag_unlocked (fs_tab s) tag taglen = Some a"
  using file_invD(5) [OF assms(1,2)] by (simp add: file_find_tag_unlocked_def tag_of_cmp [OF assms(3)])

lemma inv_by_tag:
  assumes inv: "file_inv s" and g: "file_get_by_tag mem tag taglen (fs_tab s) = (Some a, ft)"
    and fresh: "\<And>n. mem = Some n \<Longrightarrow> n \<notin> ft_alloc (fs_tab s)" and len: "unat taglen \<le> length tag"
    and small: "fs_refs s a < 2 ^ 32 - 1"
  shows "file_inv (s\<lparr>fs_tab := ft, fs_refs := (fs_refs s)(a := Suc (fs_refs s a))\<rparr>)"
proof -
  have len': "unat taglen \<le> FILE_TAG_SIZE" using g by (auto simp: file_get_by_tag_def Let_def split: if_splits)
  let ?found = "file_find_tag_unlocked (fs_tab s) tag taglen"
  show ?thesis
  proof (cases "\<exists>b. ?found = Some b \<and> f_refc (ft_files (fs_tab s) b) \<noteq> 0")
    case True
    then obtain b where b: "?found = Some b" "f_refc (ft_files (fs_tab s) b) \<noteq> 0" by blast
    then have ab: "a = b" "ft = set_refc b (f_refc (ft_files (fs_tab s) b) + 1) (fs_tab s)"
      using g len' by (auto simp: file_get_by_tag_def refcount_inc_def Let_def split: if_splits)
    have "b \<in> ft_alloc (fs_tab s)"
      using b(1) file_invD(2) [OF inv] by (auto simp: file_find_tag_unlocked_def find_Some_iff)
    then have "0 < fs_refs s b" using file_invD(6) [OF inv] b(2) by (metis unat_gt_0)
    from inv_reference(2) [OF inv this] small b(2) show ?thesis by (simp add: ab refcount_inc_def)
  next
    case False
    then obtain n where n: "mem = Some n" "a = n" and ft: "ft = (fs_tab s)\<lparr>ft_files := (ft_files (fs_tab s))(n := file_new tag taglen),
        ft_head := n # ft_head (fs_tab s), ft_alloc := insert n (ft_alloc (fs_tab s))\<rparr>"
      using g len' by (auto simp: file_get_by_tag_def refcount_inc_def Let_def split: if_splits option.splits)
    have "\<not> file_tag_cmp (ft_files (fs_tab s) b) tag taglen" if "0 < fs_refs s b" for b
    proof
      assume "file_tag_cmp (ft_files (fs_tab s) b) tag taglen"
      from live_is_found [OF inv that this] False have "f_refc (ft_files (fs_tab s) b) = 0" by simp
      with file_invD(6) [OF inv file_invD(4) [OF inv that]] that show False by simp
    qed
    from inv_fresh [OF inv fresh [OF n(1)] len len' this] show ?thesis by (simp add: n(2) ft)
  qed
qed

lemma inv_put:
  assumes inv: "file_inv s" and r: "0 < fs_refs s a" and p: "file_put_dec a (fs_tab s) = Inr (fin, ft)"
  shows "file_inv (s\<lparr>fs_tab := ft, fs_refs := (fs_refs s)(a := fs_refs s a - 1),
      fs_dying := (if fin then insert a (fs_dying s) else fs_dying s)\<rparr>)"
proof -
  note al = file_invD(4) [OF inv r]
  let ?v = "f_refc (ft_files (fs_tab s) a)"
  have u: "unat ?v = fs_refs s a" by (rule file_invD(6) [OF inv al])
  then have v: "unat (?v - 1) = fs_refs s a - 1" using r by (subst unat_minus_one) auto
  have "fin = (?v - 1 = 0)" "ft = set_refc a (?v - 1) (fs_tab s)"
    using p u r by (auto simp: file_put_dec_def refcount_dec_def split: if_splits)
  moreover have "(?v - 1 = 0) = (fs_refs s a - 1 = 0)" using v by (metis unat_eq_zero)
  moreover have "a \<notin> fs_dying s" using file_invD(7) [OF inv al] r by simp
  ultimately show ?thesis
    using inv_set_refc [OF inv al v, of "if fin then insert a (fs_dying s) else fs_dying s"] r by auto
qed

lemma inv_remove:
  assumes inv: "file_inv s" and d: "a \<in> fs_dying s" and p: "file_put_remove a (fs_tab s) = Inr (objs, ft)"
  shows "file_inv (s\<lparr>fs_tab := ft, fs_dying := fs_dying s - {a}\<rparr>)"
proof -
  have al: "a \<in> ft_alloc (fs_tab s)" using file_invD(3) [OF inv] d by blast
  then have zero: "fs_refs s a = 0" using file_invD(7) [OF inv] d by blast
  have ft: "ft = (fs_tab s)\<lparr>ft_head := remove1 a (ft_head (fs_tab s)), ft_alloc := ft_alloc (fs_tab s) - {a}\<rparr>"
    using p by (auto simp: file_put_remove_def file_free_def split: if_splits)
  show ?thesis
  proof (rule file_invI, goal_cases)
    case (4 b)
    then have b: "0 < fs_refs s b" "b \<noteq> a" using zero by auto
    with file_invD(4,5) [OF inv b(1)] show ?case by (simp add: ft find_remove1)
  next
    case (5 b)
    with file_invD(6,7) [OF inv, of b] show ?case by (simp add: ft)
  qed (use file_invD(1-3) [OF inv] in \<open>auto simp: ft\<close>)
qed

lemma file_step_inv: "file_step s s' \<Longrightarrow> file_inv s \<Longrightarrow> file_inv s'"
proof (induction rule: file_step.induct)
  case (by_tag mem tag taglen s a ft)
  then show ?case by (intro inv_by_tag)
next
  case (again s a ft)
  then show ?case
    using inv_reference(2) [of s a] by (auto simp: file_get_def split: prod.splits bool.splits)
next
  case (put s a fin ft)
  then show ?case by (intro inv_put)
next
  case (remove a s objs ft)
  then show ?case by (intro inv_remove)
qed

lemma file_steps_inv: "file_step\<^sup>*\<^sup>* s s' \<Longrightarrow> file_inv s \<Longrightarrow> file_inv s'"
  by (induction rule: rtranclp_induct) (auto intro: file_step_inv)

section \<open>Properties\<close>

definition no_files :: file_sys where
  "no_files = \<lparr>fs_tab = \<lparr>ft_files = (\<lambda>_. file_new [] 0), ft_head = [], ft_alloc = {}\<rparr>,
     fs_refs = (\<lambda>_. 0), fs_dying = {}\<rparr>"

lemma no_files_inv: "file_inv no_files"
  by (simp add: file_inv_def no_files_def)

lemma live_get_by_tag:
  assumes inv: "file_inv s" and r: "0 < fs_refs s a" "fs_refs s a < 2 ^ 32 - 1"
    and t: "file_tag_cmp (ft_files (fs_tab s) a) tag taglen" "unat taglen \<le> FILE_TAG_SIZE"
  shows "fst (file_get_by_tag mem tag taglen (fs_tab s)) = Some a"
proof -
  obtain ok v where i: "refcount_inc (f_refc (ft_files (fs_tab s) a)) = (ok, v)" by force
  with inv_reference(1) [OF inv r i] live_is_found [OF inv r(1) t(1)] t(2) show ?thesis
    by (simp add: file_get_by_tag_def Let_def)
qed

text \<open>Claim C16: however threads interleave getting, sharing and dropping files (the drop of the last
  reference and the removal from the table being separate steps), a file somebody holds a
  reference to is allocated, its counter is the number of references, it can be referenced and
  dropped without a panic, and its tag finds it and no other file, even while an older file with
  the same tag still waits to be removed; all other allocated files are waiting for their removal.\<close>

theorem files_shared_until_last_put:
  assumes "file_step\<^sup>*\<^sup>* no_files s"
  shows "(\<forall>a. 0 < fs_refs s a \<longrightarrow> a \<in> ft_alloc (fs_tab s) \<and> unat (f_refc (ft_files (fs_tab s) a)) = fs_refs s a \<and>
      (\<exists>r. file_get (Some a) (fs_tab s) = Inr r) \<and> (\<exists>r. file_put_dec a (fs_tab s) = Inr r)) \<and>
    (\<forall>a tag taglen mem. 0 < fs_refs s a \<and> fs_refs s a < 2 ^ 32 - 1 \<and> unat taglen \<le> FILE_TAG_SIZE \<and>
      file_tag_cmp (ft_files (fs_tab s) a) tag taglen \<longrightarrow> fst (file_get_by_tag mem tag taglen (fs_tab s)) = Some a) \<and>
    ft_alloc (fs_tab s) = {a. 0 < fs_refs s a} \<union> fs_dying s"
proof -
  have inv: "file_inv s" by (rule file_steps_inv [OF assms no_files_inv])
  have "\<exists>r. file_get (Some a) (fs_tab s) = Inr r" "\<exists>r. file_put_dec a (fs_tab s) = Inr r" if "0 < fs_refs s a" for a
    using file_invD(6) [OF inv file_invD(4) [OF inv that]] that
    by (auto simp: file_get_def refcount_inc_def file_put_dec_def refcount_dec_def split: if_splits)
  moreover have "ft_alloc (fs_tab s) = {a. 0 < fs_refs s a} \<union> fs_dying s"
    using file_invD(3,4,7) [OF inv] by blast
  ultimately show ?thesis using file_invD(4,6) [OF inv] live_get_by_tag [OF inv] by simp
qed

theorem files_shared_until_last_put_witness:
  "\<exists>s. file_step\<^sup>*\<^sup>* no_files s \<and> fs_dying s = {7} \<and> fs_refs s 8 = 1 \<and> ft_alloc (fs_tab s) = {7, 8} \<and>
     fst (file_get_by_tag None [1, 2] 2 (fs_tab s)) = Some 8"
proof -
  let ?tab1 = "snd (file_get_by_tag (Some 7) [1, 2] 2 (fs_tab no_files))"
  let ?s1 = "no_files\<lparr>fs_tab := ?tab1, fs_refs := (fs_refs no_files)(7 := Suc (fs_refs no_files 7))\<rparr>"
  let ?tab2 = "set_refc 7 0 ?tab1"
  let ?s2 = "?s1\<lparr>fs_tab := ?tab2, fs_refs := (fs_refs ?s1)(7 := fs_refs ?s1 7 - 1), fs_dying := insert 7 {}\<rparr>"
  let ?tab3 = "snd (file_get_by_tag (Some 8) [1, 2] 2 ?tab2)"
  let ?s3 = "?s2\<lparr>fs_tab := ?tab3, fs_refs := (fs_refs ?s2)(8 := Suc (fs_refs ?s2 8))\<rparr>"
  note ev = file_get_by_tag_def file_find_tag_unlocked_def no_files_def file_new_def file_tag_cmp_def
    refcount_inc_def refcount_dec_def file_put_dec_def set_refc_def
  have "file_step no_files ?s1"
    by (rule by_tag [of "Some 7" "[1, 2]" 2]) (simp_all add: ev)
  moreover have "file_step ?s1 ?s2"
    using put [of ?s1 7 True ?tab2] by (simp add: ev)
  moreover have "file_step ?s2 ?s3"
    by (rule by_tag [of "Some 8" "[1, 2]" 2]) (simp_all add: ev)
  ultimately have run: "file_step\<^sup>*\<^sup>* no_files ?s3"
    by (meson converse_rtranclp_into_rtranclp rtranclp.rtrancl_refl)
  have "0 < fs_refs ?s3 8 \<and> fs_refs ?s3 8 < 2 ^ 32 - 1 \<and> unat (2 :: u32) \<le> FILE_TAG_SIZE \<and>
      file_tag_cmp (ft_files (fs_tab ?s3) 8) [1, 2] 2"
    by (simp add: ev)
  then have "fst (file_get_by_tag None [1, 2] 2 (fs_tab ?s3)) = Some 8"
    using files_shared_until_last_put [OF run] by blast
  then show ?thesis using run by (intro exI [of _ ?s3]) (auto simp: ev)
qed

text \<open>Claim C35: adding a slice either leaves the file as it was or makes the lookup of exactly the pages of
  the slice return it, every other page being found as before, with the sums of 32-bit page
  numbers staying in range.\<close>

theorem file_add_slice_lookup:
  assumes "slices_ok f" "f_mu f" "file_add_slice mem got fobj n po f = Inr (res, f')"
  shows "slices_ok f' \<and> f_mu f' \<and>
    (res \<noteq> TEE_SUCCESS \<longrightarrow> f' = f) \<and>
    (res = TEE_SUCCESS \<longrightarrow> file_find_slice f po = Inr None \<and>
      (\<forall>p. file_find_slice f' p =
        (if unat po \<le> unat p \<and> unat p < unat po + unat n
         then Inr (Some \<lparr>sl_fobj = fobj, sl_num_pages = n, sl_page_offset = po\<rparr>) else file_find_slice f p)))"
  by (rule add_slice_lookup [OF assms])

definition one_slice :: file_t where
  "one_slice = (file_new [] 0)\<lparr>f_mu := True, f_slices := [\<lparr>sl_fobj = 1, sl_num_pages = 4, sl_page_offset = 4\<rparr>]\<rparr>"

text \<open>The check for conflicts only looks at the first page: here the new slice hides pages of the old one.\<close>

theorem file_add_slice_lookup_witness:
  "\<exists>f'. file_add_slice True True 2 4 2 one_slice = Inr (TEE_SUCCESS, f') \<and>
     file_find_slice one_slice 5 = Inr (Some \<lparr>sl_fobj = 1, sl_num_pages = 4, sl_page_offset = 4\<rparr>) \<and>
     file_find_slice f' 5 = Inr (Some \<lparr>sl_fobj = 2, sl_num_pages = 4, sl_page_offset = 2\<rparr>)"
proof -
  let ?f = "one_slice\<lparr>f_slices := \<lparr>sl_fobj = 2, sl_num_pages = 4, sl_page_offset = 2\<rparr> # f_slices one_slice\<rparr>"
  have a: "file_add_slice True True 2 4 2 one_slice = Inr (TEE_SUCCESS, ?f)"
    by (simp add: file_add_slice_def file_find_slice_def one_slice_def covers_def)
  have "file_find_slice ?f 5 = Inr (Some \<lparr>sl_fobj = 2, sl_num_pages = 4, sl_page_offset = 2\<rparr>)"
    using file_add_slice_lookup [OF _ _ a] by (simp add: slices_ok_def one_slice_def)
  with a show ?thesis by (intro exI [of _ ?f]) (simp add: file_find_slice_def one_slice_def covers_def)
qed

end
