(* ===== verification/Ldelf_Map.thy ===== *)
theory Ldelf_Map
  imports Ldelf_Bins File_Store
begin

text \<open>
  The system calls of \<open>core/kernel/ldelf_syscalls.c\<close> that change the memory map of the application
  being loaded. What the virtual-memory layer, the allocators and the accesses to user memory
  return are arguments; the requests made to that layer are recorded in order, so that the map
  they leave can be computed.
\<close>

section \<open>Flags and requests\<close>

abbreviation (input) LDELF_MAP_FLAG_SHAREABLE :: u64 where "LDELF_MAP_FLAG_SHAREABLE \<equiv> 1"
abbreviation (input) LDELF_MAP_FLAG_WRITEABLE :: u64 where "LDELF_MAP_FLAG_WRITEABLE \<equiv> 2"
abbreviation (input) LDELF_MAP_FLAG_EXECUTABLE :: u64 where "LDELF_MAP_FLAG_EXECUTABLE \<equiv> 4"
abbreviation (input) LDELF_MAP_FLAG_BTI :: u64 where "LDELF_MAP_FLAG_BTI \<equiv> 8"

abbreviation (input) TEE_MATTR_PR :: u32 where "TEE_MATTR_PR \<equiv> 0x10"
abbreviation (input) TEE_MATTR_PW :: u32 where "TEE_MATTR_PW \<equiv> 0x20"
abbreviation (input) TEE_MATTR_PRW :: u32 where "TEE_MATTR_PRW \<equiv> 0x30"
abbreviation (input) TEE_MATTR_UR :: u32 where "TEE_MATTR_UR \<equiv> 0x80"
abbreviation (input) TEE_MATTR_UW :: u32 where "TEE_MATTR_UW \<equiv> 0x100"
abbreviation (input) TEE_MATTR_UX :: u32 where "TEE_MATTR_UX \<equiv> 0x200"
abbreviation (input) TEE_MATTR_URW :: u32 where "TEE_MATTR_URW \<equiv> 0x180"
abbreviation (input) TEE_MATTR_GUARDED :: u32 where "TEE_MATTR_GUARDED \<equiv> 0x8000"

abbreviation (input) VM_FLAG_PERMANENT :: u32 where "VM_FLAG_PERMANENT \<equiv> 2"
abbreviation (input) VM_FLAG_SHAREABLE :: u32 where "VM_FLAG_SHAREABLE \<equiv> 4"
abbreviation (input) VM_FLAG_READONLY :: u32 where "VM_FLAG_READONLY \<equiv> 0x10"

unbundle bit_operations_syntax

datatype vm_req =
    Map_pad u64 u64 u32 u32
  | Set_prot u64 u64 u32
  | Unmap u64 u64
  | Remap u64 u64 u64

text \<open>
  Rounding to pages: \<open>ROUNDUP\<close> in the type of its operand, and \<open>ROUNDUP_OVERFLOW\<close> into a
  32-bit result.
\<close>

definition ROUNDUP_page :: "u64 \<Rightarrow> u64" where
  "ROUNDUP_page x = ((x + 4096 - 1) div 4096) * 4096"

definition roundup32 :: "u64 \<Rightarrow> u32 option" where
  "roundup32 v =
     (let m = v mod 4096; add = (if m \<noteq> 0 then 4096 - m else 0) in
      if unat v + unat add < 2 ^ 32 then Some (ucast (v + add)) else None)"

text \<open>
  The results of the calls made by one system call: reading and writing the user's address,
  allocating, mapping (with the address chosen), and the calls of the map.
\<close>

record map_env =
  me_get_va :: "u32 \<times> u64"
  me_fobj :: "nat option"
  me_mobj :: bool
  me_map :: "u32 \<times> u64"
  me_read :: "u64 \<Rightarrow> u64 \<Rightarrow> u32"
  me_set_prot :: u32
  me_slice_mem :: bool
  me_slice_got :: bool
  me_put_va :: u32
  me_unmap :: u32
  me_flags :: "u32 \<times> u32"
  me_remap :: "u64 \<Rightarrow> u64 \<Rightarrow> u32 \<times> u64"

definition unmap_or_panic :: "map_env \<Rightarrow> u64 \<Rightarrow> u64 \<Rightarrow> vm_req list res" where
  "unmap_or_panic env va n = (if me_unmap env \<noteq> TEE_SUCCESS then Inl Panic else Inr [Unmap va n])"

section \<open>The calls\<close>

definition ldelf_syscall_map_zi :: "map_env \<Rightarrow> u64 \<Rightarrow> u64 \<Rightarrow> (u32 \<times> vm_req list) res" where
  "ldelf_syscall_map_zi env num_bytes flags =
     (let prot = TEE_MATTR_URW OR TEE_MATTR_PRW;
          vm_flags = (if flags AND LDELF_MAP_FLAG_SHAREABLE \<noteq> 0 then VM_FLAG_SHAREABLE else 0);
          (res, va) = me_map env
      in
      if flags AND NOT LDELF_MAP_FLAG_SHAREABLE \<noteq> 0 then Inr (TEE_ERROR_BAD_PARAMETERS, [])
      else if fst (me_get_va env) \<noteq> TEE_SUCCESS then Inr (fst (me_get_va env), [])
      else if me_fobj env = None then Inr (TEE_ERROR_OUT_OF_MEMORY, [])
      else if \<not> me_mobj env then Inr (TEE_ERROR_OUT_OF_MEMORY, [])
      else if res \<noteq> TEE_SUCCESS then Inr (res, [])
      else if me_put_va env \<noteq> TEE_SUCCESS
      then cbind (unmap_or_panic env va num_bytes) (\<lambda>u.
        Inr (me_put_va env, [Map_pad va num_bytes prot vm_flags] @ u))
      else Inr (TEE_SUCCESS, [Map_pad va num_bytes prot vm_flags]))"

definition ldelf_syscall_unmap :: "map_env \<Rightarrow> u64 \<Rightarrow> u64 \<Rightarrow> u32 \<times> vm_req list" where
  "ldelf_syscall_unmap env va num_bytes =
     (let sz = ROUNDUP_page num_bytes; (res, vm_flags) = me_flags env in
      if unat va + unat sz \<ge> 2 ^ 64 then (TEE_ERROR_BAD_PARAMETERS, [])
      else if res \<noteq> TEE_SUCCESS then (res, [])
      else if vm_flags AND VM_FLAG_PERMANENT \<noteq> 0 then (TEE_ERROR_ACCESS_DENIED, [])
      else (me_unmap env, if me_unmap env = TEE_SUCCESS then [Unmap va sz] else []))"

definition prot_of_flags :: "u64 \<Rightarrow> u32" where
  "prot_of_flags flags =
     (let prot = TEE_MATTR_UR OR TEE_MATTR_PR;
          prot = (if flags AND LDELF_MAP_FLAG_WRITEABLE \<noteq> 0 then prot OR (TEE_MATTR_UW OR TEE_MATTR_PW) else prot);
          prot = (if flags AND LDELF_MAP_FLAG_EXECUTABLE \<noteq> 0 then prot OR TEE_MATTR_UX else prot)
      in if flags AND LDELF_MAP_FLAG_BTI \<noteq> 0 then prot OR TEE_MATTR_GUARDED else prot)"

text \<open>
  The ends of \<open>map_bin\<close> behind its labels: \<open>f\<close> is the locked file, \<open>tr\<close> the requests made.
\<close>

definition map_err :: "u32 \<Rightarrow> file_t \<Rightarrow> ldelf_sess \<Rightarrow> vm_req list \<Rightarrow> (u32 \<times> file_t \<times> ldelf_sess \<times> vm_req list) res" where
  "map_err res f s tr = Inr (res, f\<lparr>f_mu := False\<rparr>, s, tr)"

definition map_err_unmap_va ::
  "map_env \<Rightarrow> u32 \<Rightarrow> u64 \<Rightarrow> u64 \<Rightarrow> file_t \<Rightarrow> ldelf_sess \<Rightarrow> vm_req list \<Rightarrow> (u32 \<times> file_t \<times> ldelf_sess \<times> vm_req list) res" where
  "map_err_unmap_va env res va n f s tr = cbind (unmap_or_panic env va n) (\<lambda>u. map_err res f s (tr @ u))"

definition map_finish ::
  "map_env \<Rightarrow> u64 \<Rightarrow> u64 \<Rightarrow> file_t \<Rightarrow> ldelf_sess \<Rightarrow> vm_req list \<Rightarrow> (u32 \<times> file_t \<times> ldelf_sess \<times> vm_req list) res" where
  "map_finish env va n f s tr =
     (if me_put_va env \<noteq> TEE_SUCCESS then map_err_unmap_va env (me_put_va env) va n f s tr
      else Inr (TEE_SUCCESS, f\<lparr>f_mu := False\<rparr>, s, tr))"

text \<open>Mapping pages that the file already holds.\<close>

definition map_slice ::
  "map_env \<Rightarrow> u64 \<Rightarrow> u32 \<Rightarrow> u32 \<Rightarrow> file_slice \<Rightarrow> file_t \<Rightarrow> ldelf_sess \<Rightarrow> (u32 \<times> file_t \<times> ldelf_sess \<times> vm_req list) res" where
  "map_slice env flags num_rounded_bytes offs_pages fs f s =
     (let n = ucast num_rounded_bytes; (res, va) = me_map env in
      if sl_page_offset fs \<noteq> offs_pages \<or> num_rounded_bytes div 4096 > sl_num_pages fs
      then map_err TEE_ERROR_BAD_PARAMETERS f s []
      else if flags AND LDELF_MAP_FLAG_SHAREABLE = 0 then map_err TEE_ERROR_BAD_PARAMETERS f s []
      else if \<not> me_mobj env then map_err TEE_ERROR_OUT_OF_MEMORY f s []
      else if res \<noteq> TEE_SUCCESS then map_err res f s []
      else map_finish env va n f s [Map_pad va n (prot_of_flags flags) VM_FLAG_READONLY])"

text \<open>Mapping fresh pages and reading the binary into them; read-only pages become a slice.\<close>

definition map_fresh ::
  "map_env \<Rightarrow> u64 \<Rightarrow> u64 \<Rightarrow> u64 \<Rightarrow> u32 \<Rightarrow> u32 \<Rightarrow> nat \<Rightarrow> file_t \<Rightarrow> ldelf_sess \<Rightarrow>
   (u32 \<times> file_t \<times> ldelf_sess \<times> vm_req list) res" where
  "map_fresh env flags offs_bytes num_bytes num_rounded_bytes offs_pages a f s = (case me_fobj env of
     None \<Rightarrow> map_err TEE_ERROR_OUT_OF_MEMORY f s []
   | Some fobj \<Rightarrow>
      let n = ucast num_rounded_bytes;
          writeable = (flags AND LDELF_MAP_FLAG_WRITEABLE \<noteq> 0);
          vm_flags = (if writeable then 0 else VM_FLAG_READONLY);
          (res, va) = me_map env
      in
      if \<not> me_mobj env then map_err TEE_ERROR_OUT_OF_MEMORY f s []
      else if res \<noteq> TEE_SUCCESS then map_err res f s []
      else
        let tr = [Map_pad va n TEE_MATTR_PRW vm_flags];
            (res, b, _) = binh_copy_to (me_read env) True False 0 offs_bytes num_bytes (binhs s a);
            s = s\<lparr>binhs := (binhs s)(a := b)\<rparr>
        in
        if res \<noteq> TEE_SUCCESS then map_err_unmap_va env res va n f s tr
        else if me_set_prot env \<noteq> TEE_SUCCESS then map_err_unmap_va env (me_set_prot env) va n f s tr
        else
          let tr = tr @ [Set_prot va n (prot_of_flags flags)] in
          if writeable then map_finish env va n f s tr
          else cbind (file_add_slice (me_slice_mem env) (me_slice_got env) fobj (num_rounded_bytes div 4096) offs_pages f)
            (\<lambda>(res, f). if res \<noteq> TEE_SUCCESS then map_err_unmap_va env res va n f s tr
               else map_finish env va n f s tr))"

text \<open>\<open>f\<close> is the file of the binary; both ways of locking it end with the lock held.\<close>

definition ldelf_syscall_map_bin ::
  "map_env \<Rightarrow> u64 \<Rightarrow> u64 \<Rightarrow> u64 \<Rightarrow> u64 \<Rightarrow> file_t \<Rightarrow> ldelf_sess \<Rightarrow> (u32 \<times> file_t \<times> ldelf_sess \<times> vm_req list) res" where
  "ldelf_syscall_map_bin env num_bytes handle offs_bytes flags f s =
     (let bad = Inr (TEE_ERROR_BAD_PARAMETERS, f, s, []);
          accept_flags = LDELF_MAP_FLAG_SHAREABLE OR LDELF_MAP_FLAG_WRITEABLE OR LDELF_MAP_FLAG_BTI OR
            LDELF_MAP_FLAG_EXECUTABLE
      in
      if fst (me_get_va env) \<noteq> TEE_SUCCESS then Inr (fst (me_get_va env), f, s, [])
      else if user_ctx s = None then bad
      else case handle_lookup (handle_of_ulong handle) (user_ctx s) of
        None \<Rightarrow> bad
      | Some a \<Rightarrow>
        if flags AND accept_flags \<noteq> flags then bad
        else if flags AND LDELF_MAP_FLAG_SHAREABLE \<noteq> 0 \<and> flags AND LDELF_MAP_FLAG_WRITEABLE \<noteq> 0 then bad
        else if flags AND LDELF_MAP_FLAG_EXECUTABLE \<noteq> 0 \<and> flags AND LDELF_MAP_FLAG_WRITEABLE \<noteq> 0 then bad
        else if offs_bytes AND 0xFFF \<noteq> 0 then bad
        else case roundup32 num_bytes of
          None \<Rightarrow> bad
        | Some num_rounded_bytes \<Rightarrow>
          let offs_pages = ucast (drop_bit 12 offs_bytes) :: u32;
              f = f\<lparr>f_mu := True\<rparr>
          in cbind (file_find_slice f offs_pages) (\<lambda>fs. case fs of
            Some fs \<Rightarrow> map_slice env flags num_rounded_bytes offs_pages fs f s
          | None \<Rightarrow> map_fresh env flags offs_bytes num_bytes num_rounded_bytes offs_pages a f s))"

definition ldelf_syscall_set_prot :: "map_env \<Rightarrow> u64 \<Rightarrow> u64 \<Rightarrow> u64 \<Rightarrow> u32 \<times> vm_req list" where
  "ldelf_syscall_set_prot env va num_bytes flags =
     (let sz = ROUNDUP_page num_bytes;
          accept_flags = LDELF_MAP_FLAG_WRITEABLE OR LDELF_MAP_FLAG_BTI OR LDELF_MAP_FLAG_EXECUTABLE;
          prot = prot_of_flags flags;
          (res, vm_flags) = me_flags env
      in
      if flags AND accept_flags \<noteq> flags then (TEE_ERROR_BAD_PARAMETERS, [])
      else if unat va + unat sz \<ge> 2 ^ 64 then (TEE_ERROR_BAD_PARAMETERS, [])
      else if res \<noteq> TEE_SUCCESS then (res, [])
      else if vm_flags AND VM_FLAG_PERMANENT \<noteq> 0 then (TEE_ERROR_ACCESS_DENIED, [])
      else if vm_flags AND VM_FLAG_READONLY \<noteq> 0 \<and> prot AND (TEE_MATTR_UW OR TEE_MATTR_PW) \<noteq> 0
      then (TEE_ERROR_ACCESS_DENIED, [])
      else (me_set_prot env, if me_set_prot env = TEE_SUCCESS then [Set_prot va sz prot] else []))"

definition ldelf_syscall_remap :: "map_env \<Rightarrow> u64 \<Rightarrow> u64 \<Rightarrow> (u32 \<times> vm_req list) res" where
  "ldelf_syscall_remap env old_va num_bytes =
     (let (res, va_copy) = me_get_va env; (fres, vm_flags) = me_flags env;
          (mres, new_va) = me_remap env va_copy old_va
      in
      if res \<noteq> TEE_SUCCESS then Inr (res, [])
      else if fres \<noteq> TEE_SUCCESS then Inr (fres, [])
      else if vm_flags AND VM_FLAG_PERMANENT \<noteq> 0 then Inr (TEE_ERROR_ACCESS_DENIED, [])
      else if mres \<noteq> TEE_SUCCESS then Inr (mres, [])
      else if me_put_va env \<noteq> TEE_SUCCESS then
        (let (res2, va) = me_remap env old_va new_va in
         if res2 \<noteq> TEE_SUCCESS then Inl Panic
         else Inr (me_put_va env, [Remap old_va new_va num_bytes, Remap new_va va num_bytes]))
      else Inr (TEE_SUCCESS, [Remap old_va new_va num_bytes]))"

text \<open>Random bytes are fetched into a bounce buffer and copied out; the results are arguments.\<close>

definition ldelf_syscall_gen_rnd_num :: "bool \<Rightarrow> u32 \<Rightarrow> u32 \<Rightarrow> u32" where
  "ldelf_syscall_gen_rnd_num bb rng copy =
     (if \<not> bb then TEE_ERROR_OUT_OF_MEMORY else if rng \<noteq> TEE_SUCCESS then rng else copy)"

section \<open>The map that requests leave\<close>

type_synonym vm_region = "u64 \<times> u64 \<times> u32 \<times> u32"

fun vm_apply :: "vm_req \<Rightarrow> vm_region list \<Rightarrow> vm_region list" where
  "vm_apply (Map_pad va n prot fl) rs = (va, n, prot, fl) # rs"
| "vm_apply (Set_prot va n prot) rs = map (\<lambda>(v, m, p, fl). if v = va \<and> m = n then (v, m, prot, fl) else (v, m, p, fl)) rs"
| "vm_apply (Unmap va n) rs = filter (\<lambda>(v, m, p, fl). \<not> (v = va \<and> m = n)) rs"
| "vm_apply (Remap old new n) rs = map (\<lambda>(v, m, p, fl). if v = old \<and> m = n then (new, m, p, fl) else (v, m, p, fl)) rs"

definition vm_run :: "vm_req list \<Rightarrow> vm_region list" where
  "vm_run tr = fold vm_apply tr []"

fun req_prot :: "vm_req \<Rightarrow> u32 option" where
  "req_prot (Map_pad _ _ prot _) = Some prot"
| "req_prot (Set_prot _ _ prot) = Some prot"
| "req_prot _ = None"

definition writable_code :: "u32 \<Rightarrow> bool" where
  "writable_code prot \<longleftrightarrow> prot AND TEE_MATTR_UX \<noteq> 0 \<and> prot AND (TEE_MATTR_UW OR TEE_MATTR_PW) \<noteq> 0"

definition writable :: "u32 \<Rightarrow> bool" where
  "writable prot \<longleftrightarrow> prot AND (TEE_MATTR_UW OR TEE_MATTR_PW) \<noteq> 0"

lemma prot_of_flags_bits:
  "prot_of_flags flags AND (TEE_MATTR_UW OR TEE_MATTR_PW) \<noteq> 0 \<longleftrightarrow> flags AND LDELF_MAP_FLAG_WRITEABLE \<noteq> 0"
  "prot_of_flags flags AND TEE_MATTR_UX \<noteq> 0 \<longleftrightarrow> flags AND LDELF_MAP_FLAG_EXECUTABLE \<noteq> 0"
  by (simp_all add: prot_of_flags_def Let_def)

lemma prw_not_code [simp]: "\<not> writable_code TEE_MATTR_PRW"
  by (simp add: writable_code_def)

lemma add_slice_total: "f_mu f \<Longrightarrow> \<exists>r. file_add_slice mem got fobj n po f = Inr r"
  by (simp add: file_add_slice_def file_find_slice_def)

text \<open>What a call of \<open>map_bin\<close> with acceptable flags leaves.\<close>

definition map_result_ok :: "map_env \<Rightarrow> u64 \<Rightarrow> u64 \<Rightarrow> (u32 \<times> file_t \<times> ldelf_sess \<times> vm_req list) res \<Rightarrow> bool" where
  "map_result_ok env n flags r = (case r of
     Inl e \<Rightarrow> e = Panic \<and> me_unmap env \<noteq> TEE_SUCCESS
   | Inr (res, f, s, tr) \<Rightarrow>
       \<not> f_mu f \<and> (\<forall>q\<in>set tr. \<forall>p. req_prot q = Some p \<longrightarrow> \<not> writable_code p) \<and>
       vm_run tr = (if res = TEE_SUCCESS
         then [(snd (me_map env), n, prot_of_flags flags, if writable (prot_of_flags flags) then 0 else VM_FLAG_READONLY)]
         else []))"

definition flags_ok :: "u64 \<Rightarrow> bool" where
  "flags_ok flags \<longleftrightarrow> \<not> (flags AND LDELF_MAP_FLAG_SHAREABLE \<noteq> 0 \<and> flags AND LDELF_MAP_FLAG_WRITEABLE \<noteq> 0) \<and>
     \<not> (flags AND LDELF_MAP_FLAG_EXECUTABLE \<noteq> 0 \<and> flags AND LDELF_MAP_FLAG_WRITEABLE \<noteq> 0)"

lemma flags_ok_prot: "flags_ok flags \<Longrightarrow> \<not> writable_code (prot_of_flags flags)"
  using prot_of_flags_bits [of flags] by (auto simp: flags_ok_def writable_code_def)

lemma map_err_ok: "res \<noteq> TEE_SUCCESS \<Longrightarrow> map_result_ok env n flags (map_err res f s [])"
  by (simp add: map_err_def map_result_ok_def vm_run_def)

lemma map_err_unmap_ok:
  assumes "res \<noteq> TEE_SUCCESS" "vm_run tr = [(va, n, p, fl)]" "\<forall>q\<in>set tr. \<forall>p. req_prot q = Some p \<longrightarrow> \<not> writable_code p"
  shows "map_result_ok env n flags (map_err_unmap_va env res va n f s tr)"
  using assms by (auto simp: map_err_unmap_va_def unmap_or_panic_def map_err_def map_result_ok_def vm_run_def)

lemma map_finish_ok:
  assumes "vm_run tr = [(va, n, prot_of_flags flags, if writable (prot_of_flags flags) then 0 else VM_FLAG_READONLY)]"
    and "\<forall>q\<in>set tr. \<forall>p. req_prot q = Some p \<longrightarrow> \<not> writable_code p" "va = snd (me_map env)"
  shows "map_result_ok env n flags (map_finish env va n f s tr)"
proof (cases "me_put_va env = TEE_SUCCESS")
  case True
  then show ?thesis using assms by (simp add: map_finish_def map_result_ok_def)
next
  case False
  with map_err_unmap_ok [OF False assms(1,2)] show ?thesis by (simp add: map_finish_def)
qed

lemma map_slice_ok:
  assumes "flags_ok flags" "n = ucast nrb"
  shows "map_result_ok env n flags (map_slice env flags nrb po fs f s)"
proof -
  obtain res va where m: "me_map env = (res, va)" by force
  have "map_result_ok env n flags (map_finish env va n f s [Map_pad va n (prot_of_flags flags) VM_FLAG_READONLY])"
    if "flags AND LDELF_MAP_FLAG_SHAREABLE \<noteq> 0"
  proof (rule map_finish_ok)
    have "\<not> writable (prot_of_flags flags)"
      using that assms(1) prot_of_flags_bits(1) [of flags] by (auto simp: flags_ok_def writable_def)
    then show "vm_run [Map_pad va n (prot_of_flags flags) VM_FLAG_READONLY] =
        [(va, n, prot_of_flags flags, if writable (prot_of_flags flags) then 0 else VM_FLAG_READONLY)]"
      by (simp add: vm_run_def)
  qed (use flags_ok_prot [OF assms(1)] m in simp_all)
  then show ?thesis
    using m map_err_ok assms(2) by (simp add: map_slice_def Let_def)
qed

lemma map_fresh_ok:
  assumes fl: "flags_ok flags" and n: "n = ucast nrb" and mu: "f_mu f"
  shows "map_result_ok env n flags (map_fresh env flags offs num nrb po a f s)"
proof -
  obtain res va where m: "me_map env = (res, va)" by force
  obtain cres b rq cl where c: "binh_copy_to (me_read env) True False 0 offs num (binhs s a) = (cres, b, rq, cl)"
    by (cases rule: prod_cases4)
  let ?w = "flags AND LDELF_MAP_FLAG_WRITEABLE \<noteq> 0"
  let ?fl = "if ?w then 0 else VM_FLAG_READONLY"
  let ?t = "[Map_pad va n TEE_MATTR_PRW ?fl]" and ?p = "prot_of_flags flags"
  let ?u = "[Map_pad va n TEE_MATTR_PRW ?fl, Set_prot va n ?p]"
  let ?s = "s\<lparr>binhs := (binhs s)(a := b)\<rparr>"
  have t: "vm_run ?t = [(va, n, TEE_MATTR_PRW, ?fl)]" "\<forall>q\<in>set ?t. \<forall>p. req_prot q = Some p \<longrightarrow> \<not> writable_code p"
    by (simp_all add: vm_run_def)
  have w: "?w \<longleftrightarrow> writable ?p" using prot_of_flags_bits(1) [of flags] by (simp add: writable_def)
  have u: "vm_run ?u = [(va, n, ?p, if writable ?p then 0 else VM_FLAG_READONLY)]"
    "\<forall>q\<in>set ?u. \<forall>p. req_prot q = Some p \<longrightarrow> \<not> writable_code p"
    using flags_ok_prot [OF fl] by (simp_all add: vm_run_def w)
  show ?thesis
  proof (cases "me_fobj env")
    case None
    then show ?thesis by (simp add: map_fresh_def map_err_ok)
  next
    case (Some fo)
    obtain ares f' where ad: "file_add_slice (me_slice_mem env) (me_slice_got env) fo (nrb div 4096) po f = Inr (ares, f')"
      using add_slice_total [OF mu] by fastforce
    show ?thesis
      using m c Some ad map_err_ok [of _ env n flags f s] map_err_unmap_ok [OF _ t, of _ env flags f ?s]
        map_err_unmap_ok [OF _ u, of _ env flags f' ?s] map_finish_ok [OF u, of env f ?s] map_finish_ok [OF u, of env f' ?s] n
      by (cases ?w) (simp_all add: map_fresh_def Let_def)
  qed
qed

lemma map_bin_ok:
  assumes "\<not> f_mu f" "roundup32 num_bytes = Some nrb"
  shows "map_result_ok env (ucast nrb) flags (ldelf_syscall_map_bin env num_bytes handle offs flags f s)"
proof -
  let ?f = "f\<lparr>f_mu := True\<rparr>" and ?po = "ucast (drop_bit 12 offs) :: u32"
  have bad: "map_result_ok env n flags (Inr (res, f, s, []))" if "res \<noteq> TEE_SUCCESS" for res n
    using that assms(1) by (simp add: map_result_ok_def vm_run_def)
  have body: "map_result_ok env (ucast nrb) flags (cbind (file_find_slice ?f ?po) (\<lambda>fs. case fs of
      Some fs \<Rightarrow> map_slice env flags nrb ?po fs ?f s
    | None \<Rightarrow> map_fresh env flags offs num_bytes nrb ?po a ?f s))" if "flags_ok flags" for a
    using map_slice_ok [OF that refl] map_fresh_ok [OF that refl, of ?f]
    by (simp add: file_find_slice_def split: option.split)
  show ?thesis
    using bad body assms(2)
    by (simp add: ldelf_syscall_map_bin_def Let_def flags_ok_def split: option.split)
qed

section \<open>Properties\<close>

lemma page_fill: "(x + (4096 - x mod 4096)) mod 4096 = (0 :: nat)"
proof -
  have "(4096 * q + r) + (4096 - r) = 4096 * (q + 1)" if "r < 4096" for q r :: nat using that by simp
  from this [of "x mod 4096" "x div 4096"] have "x + (4096 - x mod 4096) = 4096 * (x div 4096 + 1)"
    unfolding mult_div_mod_eq by simp
  then show ?thesis by (simp only: mod_mult_self1_is_0)
qed

lemma roundup32_exact:
  assumes "roundup32 v = Some n"
  shows "unat v \<le> unat n \<and> unat n < unat v + 4096 \<and> unat n mod 4096 = 0"
proof -
  define add where "add = (if v mod 4096 \<noteq> 0 then 4096 - v mod 4096 else 0)"
  have m: "unat (v mod 4096) = unat v mod 4096" by (simp add: unat_mod)
  have a: "unat add = (if unat v mod 4096 \<noteq> 0 then 4096 - unat v mod 4096 else 0)"
  proof (cases "v mod 4096 = 0")
    case True
    then show ?thesis using m by (simp add: add_def)
  next
    case False
    have "v mod 4096 \<le> 4096" by (simp add: word_le_nat_alt m)
    then have "unat (4096 - v mod 4096) = 4096 - unat (v mod 4096)" by (simp add: unat_sub)
    moreover have "unat v mod 4096 \<noteq> 0" using False m unat_eq_zero [of "v mod 4096"] by metis
    ultimately show ?thesis using False m by (simp add: add_def)
  qed
  have small: "unat v + unat add < 2 ^ 32" and n: "n = ucast (v + add)"
    using assms by (auto simp: roundup32_def add_def Let_def split: if_splits)
  have "unat (v + add) = unat v + unat add" using small by (simp add: unat_word_ariths)
  then have un: "unat n = unat v + unat add" using small by (simp add: n unat_down_32)
  have "(unat v + unat add) mod 4096 = 0"
    unfolding a using page_fill [of "unat v"] by (cases "unat v mod 4096 = 0") (simp_all only: if_True if_False simp_thms not_True_eq_False add_0_right)
  moreover have "unat add < 4096" using a by simp
  ultimately show ?thesis using un by simp
qed

text \<open>Claim C6: with the file's lock free, and for every length, handle, offset and set of flags, mapping a binary
  either succeeds with exactly one region, of the requested length rounded up
  to pages without wrapping around, with the protection its flags ask for and marked read-only
  unless it is writable, or fails and leaves no region mapped, whichever of the checks and calls
  inside fails; code is never mapped writable, not even while it is being read in; the file is
  unlocked again, and the only panic is a failing rollback.\<close>

theorem map_bin_all_or_nothing:
  assumes "\<not> f_mu f"
  shows "case ldelf_syscall_map_bin env num_bytes handle offs flags f s of
     Inl e \<Rightarrow> e = Panic \<and> me_unmap env \<noteq> TEE_SUCCESS
   | Inr (res, f', s', tr) \<Rightarrow>
       \<not> f_mu f' \<and> (\<forall>q\<in>set tr. \<forall>p. req_prot q = Some p \<longrightarrow> \<not> writable_code p) \<and>
       (if res = TEE_SUCCESS then
          (\<exists>n. vm_run tr = [(snd (me_map env), n, prot_of_flags flags, if writable (prot_of_flags flags) then 0 else VM_FLAG_READONLY)] \<and>
             unat num_bytes \<le> unat n \<and> unat n < unat num_bytes + 4096 \<and> unat n mod 4096 = 0)
        else vm_run tr = [])"
proof (cases "roundup32 num_bytes")
  case None
  then have "\<exists>res. ldelf_syscall_map_bin env num_bytes handle offs flags f s = Inr (res, f, s, []) \<and> res \<noteq> TEE_SUCCESS"
    by (simp add: ldelf_syscall_map_bin_def Let_def split: option.split)
  then show ?thesis using assms by (auto simp: vm_run_def)
next
  case (Some nrb)
  note r = roundup32_exact [OF Some]
  then have "\<exists>n. n = (ucast nrb :: u64) \<and> unat num_bytes \<le> unat n \<and> unat n < unat num_bytes + 4096 \<and> unat n mod 4096 = 0"
    by (simp add: unat_ucast_size)
  with map_bin_ok [OF assms Some, where env = env and flags = flags and handle = handle and offs = offs and s = s] show ?thesis
    by (auto simp: map_result_ok_def split: sum.split prod.split)
qed

definition good_map :: map_env where
  "good_map = \<lparr>me_get_va = (0, 0), me_fobj = Some 3, me_mobj = True, me_map = (0, 0x40000000),
     me_read = (\<lambda>_ _. 0), me_set_prot = 0, me_slice_mem = True, me_slice_got = True, me_put_va = 0, me_unmap = 0,
     me_flags = (0, 0), me_remap = (\<lambda>v _. (0, v))\<rparr>"

definition one_binary :: ldelf_sess where
  "one_binary = \<lparr>user_ctx = Some \<lparr>ptrs = [Some 5], max_ptrs = 1\<rparr>,
     binhs = (\<lambda>_. \<lparr>bh_opened = True, bh_file = True, bh_offs_bytes = 0, bh_size_bytes = 0x5000\<rparr>), live = {5}, stores = {5}, files = {5}\<rparr>"

theorem map_bin_all_or_nothing_witness:
  "\<exists>f' s' tr n. ldelf_syscall_map_bin good_map 5000 0 0x1000 5 (file_new [] 0) one_binary = Inr (TEE_SUCCESS, f', s', tr) \<and>
     vm_run tr = [(0x40000000, n, TEE_MATTR_UR OR TEE_MATTR_PR OR TEE_MATTR_UX, VM_FLAG_READONLY)] \<and>
     5000 \<le> unat n \<and> unat n < 9096 \<and> unat n mod 4096 = 0"
proof -
  have r: "roundup32 5000 = Some 0x2000" by (simp add: roundup32_def Let_def)
  obtain f' s' tr where c: "ldelf_syscall_map_bin good_map 5000 0 0x1000 5 (file_new [] 0) one_binary = Inr (TEE_SUCCESS, f', s', tr)"
    by (simp add: ldelf_syscall_map_bin_def good_map_def one_binary_def file_new_def Let_def handle_lookup_def
        handle_of_ulong_def r file_find_slice_def map_fresh_def binh_copy_to_def file_add_slice_def map_finish_def)
  have "\<not> f_mu (file_new [] 0)" and "snd (me_map good_map) = 0x40000000" by (simp_all add: file_new_def good_map_def)
  with map_bin_all_or_nothing [of "file_new [] 0" good_map 5 5000 0 "0x1000" one_binary] show ?thesis
    unfolding c by (auto simp: prot_of_flags_def writable_def)
qed

text \<open>Claim C34: no call of the loader changes a mapping that must stay (it is refused before any request is
  made), and a mapping of a file is never made writable, whatever flags are passed.\<close>

theorem permanent_and_readonly_kept:
  assumes "me_flags env = (TEE_SUCCESS, vm_flags)"
  shows "(vm_flags AND VM_FLAG_PERMANENT \<noteq> 0 \<longrightarrow>
      snd (ldelf_syscall_unmap env va n) = [] \<and> snd (ldelf_syscall_set_prot env va n flags) = [] \<and>
      (\<exists>res. ldelf_syscall_remap env va n = Inr (res, []) \<and> res \<noteq> TEE_SUCCESS)) \<and>
    (vm_flags AND VM_FLAG_READONLY \<noteq> 0 \<longrightarrow>
      (\<forall>q\<in>set (snd (ldelf_syscall_set_prot env va n flags)). \<forall>p. req_prot q = Some p \<longrightarrow> \<not> writable p))"
proof -
  obtain gres gva where g: "me_get_va env = (gres, gva)" by force
  obtain mres mva where m: "me_remap env gva va = (mres, mva)" by force
  show ?thesis
    using assms g m
    by (auto simp: ldelf_syscall_unmap_def ldelf_syscall_set_prot_def ldelf_syscall_remap_def Let_def writable_def)
qed

theorem permanent_and_readonly_kept_witness:
  "snd (ldelf_syscall_set_prot (good_map\<lparr>me_flags := (0, VM_FLAG_PERMANENT)\<rparr>) 0x40000000 0x2000 2) = [] \<and>
   ldelf_syscall_set_prot good_map 0x40000000 0x2000 2 \<noteq> (TEE_ERROR_ACCESS_DENIED, [])"
  using permanent_and_readonly_kept [of "good_map\<lparr>me_flags := (0, VM_FLAG_PERMANENT)\<rparr>" VM_FLAG_PERMANENT "0x40000000" "0x2000" 2]
  by (simp add: good_map_def ldelf_syscall_set_prot_def Let_def ROUNDUP_page_def)

end
