(* ===== verification/Tee_Mm.thy ===== *)
theory Tee_Mm
  imports Optee_Prelude
begin

text \<open>
  The range allocator of \<open>core/mm/tee_mm.c\<close>: a pool is a linked list of allocated ranges, in pages
  from the start of the pool, behind a first element that is never freed. Ranges are handed out
  from the bottom, or from the top of pools with the high-allocation flag. Offsets and sizes are
  32 bits wide, the byte counts of pools and requests 64. The spinlock makes each operation
  atomic.
\<close>

section \<open>Pools\<close>

unbundle bit_operations_syntax

text \<open>\<open>mm_id\<close> is the address of an element; callers name elements by it.\<close>

record tee_mm_entry =
  mm_id :: nat
  mm_offset :: u32
  mm_size :: u32

record tee_mm_pool =
  mm_entries :: "tee_mm_entry list"
  mm_lo :: u64
  mm_psize :: u64
  mm_hi :: bool
  mm_shift :: nat
  mm_max_allocated :: u64

text \<open>
  Initialising: \<open>ROUNDUP2\<close> and \<open>ROUNDDOWN2\<close> to the page size, the assertion on the number of
  pages, and the first element, whose address is \<open>mem\<close>.
\<close>

definition tee_mm_init :: "nat option \<Rightarrow> u64 \<Rightarrow> u64 \<Rightarrow> nat \<Rightarrow> bool \<Rightarrow> (bool \<times> tee_mm_pool) res" where
  "tee_mm_init mem lo nbytes shift hi =
     (let page = push_bit shift 1 :: u64;
          initial_lo = lo;
          lo = (lo + (page - 1)) AND NOT (page - 1);
          rounded = lo - initial_lo;
          nbytes = (nbytes - rounded) AND NOT (page - 1);
          pool = \<lparr>mm_entries = [], mm_lo = lo, mm_psize = nbytes, mm_hi = hi, mm_shift = shift, mm_max_allocated = 0\<rparr>
      in
      if \<not> drop_bit shift nbytes < 0xFFFFFFFF then Inl Panic
      else case mem of
        None \<Rightarrow> Inr (False, pool)
      | Some a \<Rightarrow> Inr (True, pool\<lparr>mm_entries :=
          [\<lparr>mm_id = a, mm_offset = (if hi then ucast (drop_bit shift (nbytes - 1) + 1) else 0), mm_size = 0\<rparr>]\<rparr>))"

text \<open>
  The loops that look for a place: they stop at the first element behind which the condition for
  going on fails, or at the last. The result is the list up to and including that element, and
  the rest.
\<close>

fun mm_walk :: "(tee_mm_entry \<Rightarrow> tee_mm_entry \<Rightarrow> bool) \<Rightarrow> tee_mm_entry list \<Rightarrow> tee_mm_entry list \<times> tee_mm_entry list" where
  "mm_walk go_on (e # n # es) =
     (if go_on e n then (let (a, b) = mm_walk go_on (n # es) in (e # a, b)) else ([e], n # es))"
| "mm_walk go_on es = (es, [])"

definition tee_mm_stats_allocated :: "tee_mm_pool \<Rightarrow> u64" where
  "tee_mm_stats_allocated pool = ucast (push_bit (mm_shift pool) (sum_list (map mm_size (mm_entries pool))))"

definition update_max_allocated :: "tee_mm_pool \<Rightarrow> tee_mm_pool" where
  "update_max_allocated pool =
     (let sz = tee_mm_stats_allocated pool in
      if sz > mm_max_allocated pool then pool\<lparr>mm_max_allocated := sz\<rparr> else pool)"

definition pages_of :: "tee_mm_pool \<Rightarrow> u64 \<Rightarrow> u64" where
  "pages_of pool nbytes = (if nbytes = 0 then 0 else drop_bit (mm_shift pool) (nbytes - 1) + 1)"

definition too_small :: "tee_mm_pool \<Rightarrow> u64 \<Rightarrow> tee_mm_entry \<Rightarrow> tee_mm_entry \<Rightarrow> bool" where
  "too_small pool psize entry nxt =
     (if mm_hi pool then psize > ucast (mm_offset entry - mm_offset nxt - mm_size nxt)
      else psize > ucast (mm_offset nxt - mm_size entry - mm_offset entry))"

text \<open>The check behind the last element; an empty pool panics.\<close>

definition no_memory :: "tee_mm_pool \<Rightarrow> u64 \<Rightarrow> tee_mm_entry \<Rightarrow> bool res" where
  "no_memory pool nbytes entry =
     (if mm_hi pool then Inr (ucast (push_bit (mm_shift pool) (mm_offset entry)) < nbytes)
      else if mm_psize pool = 0 then Inl Panic
      else Inr (mm_psize pool - ucast (push_bit (mm_shift pool) (mm_offset entry + mm_size entry)) < nbytes))"

definition tee_mm_alloc_flags :: "nat option \<Rightarrow> u64 \<Rightarrow> tee_mm_pool \<Rightarrow> (tee_mm_entry option \<times> tee_mm_pool) res" where
  "tee_mm_alloc_flags mem nbytes pool =
     (if mm_entries pool = [] then Inr (None, pool)
      else case mem of
        None \<Rightarrow> Inr (None, pool)
      | Some a \<Rightarrow>
        let psize = pages_of pool nbytes;
            (before, rest) = mm_walk (too_small pool psize) (mm_entries pool);
            entry = last before
        in cbind (if rest = [] then no_memory pool nbytes entry else Inr False) (\<lambda>none.
          if none then Inr (None, pool)
          else
            let offset = (if mm_hi pool then ucast (ucast (mm_offset entry) - psize) else mm_offset entry + mm_size entry);
                nn = \<lparr>mm_id = a, mm_offset = offset, mm_size = ucast psize\<rparr>
            in Inr (Some nn, update_max_allocated (pool\<lparr>mm_entries := before @ nn # rest\<rparr>))))"

definition fit_in_gap :: "tee_mm_pool \<Rightarrow> tee_mm_entry \<Rightarrow> tee_mm_entry list \<Rightarrow> u64 \<Rightarrow> u64 \<Rightarrow> bool" where
  "fit_in_gap pool e rest offslo offshi =
     (if mm_hi pool
      then \<not> (offshi > ucast (mm_offset e) \<or>
              (rest \<noteq> [] \<and> offslo < ucast (mm_offset (hd rest) + mm_size (hd rest))) \<or>
              push_bit (mm_shift pool) offshi - 1 > mm_psize pool)
      else \<not> (offslo < ucast (mm_offset e + mm_size e) \<or>
              (rest \<noteq> [] \<and> offshi > ucast (mm_offset (hd rest))) \<or>
              push_bit (mm_shift pool) offshi > mm_psize pool))"

definition tee_mm_alloc2 :: "nat option \<Rightarrow> u64 \<Rightarrow> u64 \<Rightarrow> tee_mm_pool \<Rightarrow> tee_mm_entry option \<times> tee_mm_pool" where
  "tee_mm_alloc2 mem base nbytes pool =
     (if mm_entries pool = [] then (None, pool)
      else if base + nbytes < base \<or> base < mm_lo pool then (None, pool)
      else case mem of
        None \<Rightarrow> (None, pool)
      | Some a \<Rightarrow>
        let offslo = drop_bit (mm_shift pool) (base - mm_lo pool);
            offshi = drop_bit (mm_shift pool) (base - mm_lo pool + nbytes - 1) + 1;
            (before, rest) = mm_walk (\<lambda>e n. if mm_hi pool then offshi < ucast (mm_offset n + mm_size n)
                                        else offslo > ucast (mm_offset n)) (mm_entries pool)
        in
        if \<not> fit_in_gap pool (last before) rest offslo offshi then (None, pool)
        else
          let mm = \<lparr>mm_id = a, mm_offset = ucast offslo, mm_size = ucast (offshi - offslo)\<rparr>
          in (Some mm, update_max_allocated (pool\<lparr>mm_entries := before @ mm # rest\<rparr>)))"

text \<open>Freeing an element that is not in the list behind the first one panics.\<close>

definition tee_mm_free :: "nat option \<Rightarrow> tee_mm_pool \<Rightarrow> tee_mm_pool res" where
  "tee_mm_free p pool = (case p of
     None \<Rightarrow> Inr pool
   | Some a \<Rightarrow>
       (case mm_walk (\<lambda>e n. mm_id n \<noteq> a) (mm_entries pool) of
          (before, []) \<Rightarrow> Inl Panic
        | (before, _ # rest) \<Rightarrow> Inr (pool\<lparr>mm_entries := before @ rest\<rparr>)))"

fun free_all :: "tee_mm_entry list \<Rightarrow> tee_mm_pool \<Rightarrow> tee_mm_pool res" where
  "free_all [] pool = Inr pool"
| "free_all (e # es) pool = cbind (tee_mm_free (Some (mm_id e)) pool) (free_all es)"

definition tee_mm_final :: "tee_mm_pool \<Rightarrow> tee_mm_pool res" where
  "tee_mm_final pool =
     (if mm_entries pool = [] then Inr pool
      else cbind (free_all (tl (mm_entries pool)) pool) (\<lambda>pool. Inr (pool\<lparr>mm_entries := []\<rparr>)))"

definition tee_mm_get_bytes :: "tee_mm_pool \<Rightarrow> tee_mm_entry option \<Rightarrow> u64" where
  "tee_mm_get_bytes pool mm = (case mm of None \<Rightarrow> 0 | Some mm \<Rightarrow> ucast (push_bit (mm_shift pool) (mm_size mm)))"

definition tee_mm_addr_is_within_range :: "tee_mm_pool \<Rightarrow> u64 \<Rightarrow> bool" where
  "tee_mm_addr_is_within_range pool addr \<longleftrightarrow> addr \<ge> mm_lo pool \<and> addr \<le> mm_lo pool + (mm_psize pool - 1)"

definition tee_mm_is_empty :: "tee_mm_pool \<Rightarrow> bool" where
  "tee_mm_is_empty pool \<longleftrightarrow> mm_entries pool = [] \<or> tl (mm_entries pool) = []"

text \<open>The page of the address is kept in a \<open>uint16_t\<close>.\<close>

definition tee_mm_find :: "tee_mm_pool \<Rightarrow> u64 \<Rightarrow> tee_mm_entry option" where
  "tee_mm_find pool addr =
     (let offset = ucast (drop_bit (mm_shift pool) (addr - mm_lo pool)) :: u16 in
      if \<not> tee_mm_addr_is_within_range pool addr then None
      else find (\<lambda>e. ucast offset \<ge> mm_offset e \<and> ucast offset < mm_offset e + mm_size e) (tl (mm_entries pool)))"

definition tee_mm_get_smem :: "tee_mm_pool \<Rightarrow> tee_mm_entry \<Rightarrow> u64" where
  "tee_mm_get_smem pool mm = ucast (push_bit (mm_shift pool) (mm_offset mm)) + mm_lo pool"

definition tee_mm_get_pool_stats :: "bool \<Rightarrow> tee_mm_pool \<Rightarrow> (u64 \<times> u64 \<times> u64) \<times> tee_mm_pool" where
  "tee_mm_get_pool_stats reset pool =
     ((mm_psize pool, mm_max_allocated pool, tee_mm_stats_allocated pool),
      if reset then pool\<lparr>mm_max_allocated := 0\<rparr> else pool)"

section \<open>Invariant\<close>

abbreviation mm_off :: "tee_mm_entry \<Rightarrow> nat" where "mm_off e \<equiv> unat (mm_offset e)"
abbreviation mm_len :: "tee_mm_entry \<Rightarrow> nat" where "mm_len e \<equiv> unat (mm_size e)"
abbreviation mm_end :: "tee_mm_entry \<Rightarrow> nat" where "mm_end e \<equiv> unat (mm_offset e) + unat (mm_size e)"

definition mm_pages :: "tee_mm_pool \<Rightarrow> nat" where
  "mm_pages pool = unat (mm_psize pool) div 2 ^ mm_shift pool"

definition follows :: "bool \<Rightarrow> tee_mm_entry \<Rightarrow> tee_mm_entry \<Rightarrow> bool" where
  "follows hi e n = (if hi then mm_end n \<le> mm_off e else mm_end e \<le> mm_off n)"

text \<open>
  The ranges are sorted and disjoint and lie inside the pool. Pools are smaller than 4 GiB: byte
  offsets are computed in 32 bits.
\<close>

definition pool_ok :: "tee_mm_pool \<Rightarrow> bool" where
  "pool_ok pool \<longleftrightarrow>
     mm_shift pool < 32 \<and> 2 ^ mm_shift pool dvd unat (mm_psize pool) \<and> unat (mm_psize pool) < 2 ^ 32 \<and>
     (\<not> mm_hi pool \<longrightarrow> mm_psize pool \<noteq> 0) \<and>
     mm_entries pool \<noteq> [] \<and> mm_size (hd (mm_entries pool)) = 0 \<and>
     mm_off (hd (mm_entries pool)) = (if mm_hi pool then mm_pages pool else 0) \<and>
     successively (follows (mm_hi pool)) (mm_entries pool) \<and> (\<forall>e\<in>set (mm_entries pool). mm_end e \<le> mm_pages pool) \<and>
     distinct (map mm_id (mm_entries pool))"

lemma pool_okD:
  assumes "pool_ok pool"
  shows "mm_shift pool < 32" "2 ^ mm_shift pool dvd unat (mm_psize pool)" "unat (mm_psize pool) < 2 ^ 32"
    "\<not> mm_hi pool \<Longrightarrow> mm_psize pool \<noteq> 0" "mm_entries pool \<noteq> []" "mm_size (hd (mm_entries pool)) = 0"
    "mm_off (hd (mm_entries pool)) = (if mm_hi pool then mm_pages pool else 0)"
    "successively (follows (mm_hi pool)) (mm_entries pool)" "\<And>e. e \<in> set (mm_entries pool) \<Longrightarrow> mm_end e \<le> mm_pages pool"
    "distinct (map mm_id (mm_entries pool))"
  using assms unfolding pool_ok_def by blast+

lemma mm_pages_bytes: "pool_ok pool \<Longrightarrow> mm_pages pool * 2 ^ mm_shift pool = unat (mm_psize pool)"
  using pool_okD(2) by (simp add: mm_pages_def)

lemma mm_pages_small: "pool_ok pool \<Longrightarrow> mm_pages pool < 2 ^ 32"
  using pool_okD(3) by (auto simp: mm_pages_def intro: le_less_trans [OF div_le_dividend])

text \<open>Two ranges of the pool do not overlap.\<close>

definition apart :: "tee_mm_entry \<Rightarrow> tee_mm_entry \<Rightarrow> bool" where
  "apart e f \<longleftrightarrow> mm_end e \<le> mm_off f \<or> mm_end f \<le> mm_off e"

lemma transp_follows: "transp (follows hi)"
  by (auto simp: transp_def follows_def split: if_splits)

lemma pool_ok_apart:
  assumes "pool_ok pool" "mm_entries pool = xs @ e # ys" "f \<in> set xs \<union> set ys"
  shows "apart e f"
proof -
  have "sorted_wrt (follows (mm_hi pool)) (xs @ e # ys)"
    using pool_okD(8) [OF assms(1)] by (simp add: assms(2) successively_conv_sorted_wrt [OF transp_follows])
  then show ?thesis using assms(3) by (auto simp: sorted_wrt_append apart_def follows_def split: if_splits)
qed

section \<open>Searching\<close>

lemma mm_walk_split:
  "mm_walk g es = (a, b) \<Longrightarrow> es \<noteq> [] \<Longrightarrow>
   a \<noteq> [] \<and> es = a @ b \<and> (b \<noteq> [] \<longrightarrow> \<not> g (last a) (hd b)) \<and> successively g a \<and> hd a = hd es"
proof (induction g es arbitrary: a b rule: mm_walk.induct)
  case (1 g e n es)
  show ?case
  proof (cases "g e n")
    case True
    obtain a' b' where w: "mm_walk g (n # es) = (a', b')" by force
    then have "a = e # a'" "b = b'" using 1(2) True by simp_all
    moreover have "a' \<noteq> []" "n # es = a' @ b'" "b' \<noteq> [] \<longrightarrow> \<not> g (last a') (hd b')" "successively g a'"
      using 1(1) [OF True w] by simp_all
    moreover from this(1,2) have "\<exists>a''. a' = n # a''" by (cases a') simp_all
    ultimately show ?thesis using True by auto
  qed (use 1 in auto)
qed auto

text \<open>Rounding a byte count up to pages.\<close>

definition ceil_pages :: "nat \<Rightarrow> nat \<Rightarrow> nat" where
  "ceil_pages s n = (n + 2 ^ s - 1) div 2 ^ s"

lemma ceil_pages_le: "ceil_pages s n \<le> k \<longleftrightarrow> n \<le> k * 2 ^ s"
proof -
  have "ceil_pages s n \<le> k \<longleftrightarrow> n + 2 ^ s - 1 < Suc k * 2 ^ s"
    unfolding ceil_pages_def less_Suc_eq_le [symmetric] by (rule div_less_iff_less_mult) simp
  also have "\<dots> \<longleftrightarrow> n \<le> k * 2 ^ s"
    using zero_less_power [of "2 :: nat" s] by (simp only: mult_Suc) linarith
  finally show ?thesis .
qed

lemma ceil_pages_exact: "2 ^ s dvd n \<Longrightarrow> ceil_pages s n = n div 2 ^ s"
  using ceil_pages_le [of s n "n div 2 ^ s"] ceil_pages_le [of s n "ceil_pages s n"]
  by (auto elim!: dvdE simp: mult.commute)

lemma unat_pages_of: "unat (pages_of pool n) = ceil_pages (mm_shift pool) (unat n)"
proof (cases "n = 0")
  case False
  let ?s = "mm_shift pool"
  have n: "unat (n - 1) = unat n - 1" "0 < unat n" using False by (simp_all add: unat_minus_one unat_gt_0)
  have "unat (drop_bit ?s (n - 1)) = (unat n - 1) div 2 ^ ?s" by (simp only: unat_drop_bit n)
  moreover have "(unat n - 1) div 2 ^ ?s + 1 < 2 ^ 64"
  proof -
    have "unat n < 2 ^ 64" using unsigned_less [of n, where 'a = nat] by simp
    with div_le_dividend [of "unat n - 1" "2 ^ ?s"] n show ?thesis by linarith
  qed
  ultimately have "unat (drop_bit ?s (n - 1) + 1) = (unat n - 1) div 2 ^ ?s + 1"
    by (simp add: unat_word_ariths)
  also have "\<dots> = (unat n - 1 + 2 ^ ?s) div 2 ^ ?s" by (subst div_add_self2) simp_all
  also have "unat n - 1 + 2 ^ ?s = unat n + 2 ^ ?s - 1" using n by simp
  finally show ?thesis using False by (simp add: pages_of_def ceil_pages_def)
qed (simp add: pages_of_def ceil_pages_def)

lemma unat_shift32: "unat (w :: u32) * 2 ^ s < 2 ^ 32 \<Longrightarrow> unat (push_bit s w) = unat w * 2 ^ s"
  by (simp only: unat_push_bit) simp

section \<open>Allocation\<close>

text \<open>A range put where the search stopped keeps the pool in order.\<close>

lemma insert_ok:
  assumes ok: "pool_ok pool" and es: "mm_entries pool = before @ rest" "before \<noteq> []"
    and fits: "follows (mm_hi pool) (last before) nn" "rest \<noteq> [] \<longrightarrow> follows (mm_hi pool) nn (hd rest)"
    and inside: "mm_end nn \<le> mm_pages pool" and new: "mm_id nn \<notin> mm_id ` set (mm_entries pool)"
  shows "pool_ok (pool\<lparr>mm_entries := before @ nn # rest\<rparr>)"
proof -
  note d = pool_okD [OF ok]
  have p: "mm_pages (pool\<lparr>mm_entries := before @ nn # rest\<rparr>) = mm_pages pool" by (simp add: mm_pages_def)
  have "successively (follows (mm_hi pool)) (before @ nn # rest)"
    using d(8) fits es by (auto simp: successively_append_iff successively_Cons)
  moreover have "distinct (map mm_id (before @ nn # rest))"
    using d(10) new by (auto simp: es)
  ultimately show ?thesis
    using d es inside p unfolding pool_ok_def by auto
qed

lemma gap_exact:
  assumes "follows hi e n"
  shows "hi \<Longrightarrow> unat (mm_offset e - mm_offset n - mm_size n) = mm_off e - mm_end n"
    and "\<not> hi \<Longrightarrow> unat (mm_offset n - mm_size e - mm_offset e) = mm_off n - mm_end e"
proof -
  have sub: "unat (a - b - c) = unat a - (unat b + unat c)" if "unat b + unat c \<le> unat a" for a b c :: u32
  proof -
    have "unat (a - b) = unat a - unat b" using that by (intro unat_sub) (simp add: word_le_nat_alt)
    moreover have "unat (a - b - c) = unat (a - b) - unat c"
      using that calculation by (intro unat_sub) (simp add: word_le_nat_alt)
    ultimately show ?thesis by simp
  qed
  show "hi \<Longrightarrow> unat (mm_offset e - mm_offset n - mm_size n) = mm_off e - mm_end n"
    using assms by (simp add: follows_def sub)
  show "\<not> hi \<Longrightarrow> unat (mm_offset n - mm_size e - mm_offset e) = mm_off n - mm_end e"
    using assms by (simp add: follows_def sub add.commute)
qed

lemma too_small_iff:
  assumes "follows (mm_hi pool) e n"
  shows "too_small pool psize e n \<longleftrightarrow>
    unat psize > (if mm_hi pool then mm_off e - mm_end n else mm_off n - mm_end e)"
  using gap_exact [OF assms] by (simp add: too_small_def word_less_nat_alt)

lemma no_memory_iff:
  assumes ok: "pool_ok pool" and e: "e \<in> set (mm_entries pool)"
  shows "no_memory pool n e = Inr (ceil_pages (mm_shift pool) (unat n) > (if mm_hi pool then mm_off e else mm_pages pool - mm_end e))"
proof -
  let ?s = "mm_shift pool"
  have bytes: "mm_pages pool * 2 ^ ?s = unat (mm_psize pool)" by (rule mm_pages_bytes [OF ok])
  have le: "mm_end e \<le> mm_pages pool" by (rule pool_okD(9) [OF ok e])
  have m: "k * 2 ^ ?s < 2 ^ 32" if "k \<le> mm_pages pool" for k
    using mult_le_mono1 [OF that, of "2 ^ ?s"] bytes pool_okD(3) [OF ok] by simp
  have hi: "unat (push_bit ?s (mm_offset e)) = mm_off e * 2 ^ ?s"
    by (rule unat_shift32) (use m le in simp)
  have "unat (mm_offset e + mm_size e) = mm_end e"
    using le mm_pages_small [OF ok] by (simp add: unat_word_ariths)
  then have lo: "unat (push_bit ?s (mm_offset e + mm_size e)) = mm_end e * 2 ^ ?s"
    using m [OF le] by (simp add: unat_shift32)
  have "unat (mm_psize pool - ucast (push_bit ?s (mm_offset e + mm_size e))) = unat (mm_psize pool) - mm_end e * 2 ^ ?s"
    using mult_le_mono1 [OF le, of "2 ^ ?s"] bytes lo by (subst unat_sub) (simp_all add: word_le_nat_alt)
  also have "\<dots> = (mm_pages pool - mm_end e) * 2 ^ ?s" by (simp add: bytes [symmetric] diff_mult_distrib)
  finally show ?thesis
    using hi pool_okD(4) [OF ok] by (simp add: no_memory_def word_less_nat_alt not_le [symmetric] ceil_pages_le)
qed

definition mm_ranges :: "tee_mm_pool \<Rightarrow> tee_mm_entry set" where
  "mm_ranges pool = set (mm_entries pool)"

lemma update_max_simps [simp]:
  "mm_entries (update_max_allocated pool) = mm_entries pool" "mm_pages (update_max_allocated pool) = mm_pages pool"
  "pool_ok (update_max_allocated pool) = pool_ok pool"
  by (simp_all add: update_max_allocated_def Let_def pool_ok_def mm_pages_def)

text \<open>What an allocation that returns a range has done.\<close>

lemma alloc_split:
  assumes ok: "pool_ok pool" and al: "tee_mm_alloc_flags mem n pool = Inr (Some nn, pool')"
  obtains before rest where "mm_entries pool = before @ rest" "before \<noteq> []" "mm_entries pool' = before @ nn # rest"
    "pool' = update_max_allocated (pool\<lparr>mm_entries := before @ nn # rest\<rparr>)" "mem = Some (mm_id nn)"
    "mm_len nn = ceil_pages (mm_shift pool) (unat n)" "follows (mm_hi pool) (last before) nn"
    "rest \<noteq> [] \<longrightarrow> follows (mm_hi pool) nn (hd rest)" "mm_end nn \<le> mm_pages pool"
proof -
  let ?need = "ceil_pages (mm_shift pool) (unat n)" and ?ps = "pages_of pool n"
  obtain before rest where w: "mm_walk (too_small pool ?ps) (mm_entries pool) = (before, rest)" by force
  let ?e = "last before"
  note sp = mm_walk_split [OF w pool_okD(5) [OF ok]]
  then have es: "mm_entries pool = before @ rest" "before \<noteq> []" by auto
  then have e: "?e \<in> set (mm_entries pool)" by simp
  note small = mm_pages_small [OF ok] and le = pool_okD(9) [OF ok e]
  have room: "?need \<le> (if rest = [] then (if mm_hi pool then mm_off ?e else mm_pages pool - mm_end ?e)
      else if mm_hi pool then mm_off ?e - mm_end (hd rest) else mm_off (hd rest) - mm_end ?e)"
  proof (cases "rest = []")
    case True
    then show ?thesis
      using al w e by (auto simp: tee_mm_alloc_flags_def Let_def no_memory_iff [OF ok] split: option.splits if_splits)
  next
    case False
    then have "follows (mm_hi pool) ?e (hd rest)"
      using pool_okD(8) [OF ok] es by (simp add: successively_append_iff)
    with False sp show ?thesis by (simp add: too_small_iff unat_pages_of not_less)
  qed
  have inrest: "mm_end (hd rest) \<le> mm_pages pool" if "rest \<noteq> []" using pool_okD(9) [OF ok] es that by simp
  have need: "?need < 2 ^ 32" using room small le inrest by (auto split: if_splits)
  then have ps: "unat ?ps = ?need" "unat (ucast ?ps :: u32) = ?need"
    using unat_down_32 [of ?ps] by (simp_all add: unat_pages_of)
  have nn: "nn = \<lparr>mm_id = mm_id nn, mm_offset = (if mm_hi pool then ucast (ucast (mm_offset ?e) - ?ps) else mm_offset ?e + mm_size ?e),
      mm_size = ucast ?ps\<rparr>" "mem = Some (mm_id nn)" "pool' = update_max_allocated (pool\<lparr>mm_entries := before @ nn # rest\<rparr>)"
    using al w es by (auto simp: tee_mm_alloc_flags_def Let_def no_memory_iff [OF ok e] split: option.splits if_splits)
  have fol: "follows (mm_hi pool) ?e (hd rest)" if "rest \<noteq> []"
    using pool_okD(8) [OF ok] es that by (simp add: successively_append_iff)
  have len: "mm_len nn = ?need" using ps(2) by (subst nn(1)) simp
  have off: "mm_off nn = (if mm_hi pool then mm_off ?e - ?need else mm_end ?e)"
  proof (cases "mm_hi pool")
    case True
    then have "?need \<le> mm_off ?e" using room by (auto split: if_splits)
    then have "unat (ucast (mm_offset ?e) - ?ps) = mm_off ?e - ?need"
      using ps(1) by (subst unat_sub) (simp_all add: word_le_nat_alt)
    moreover have "mm_off ?e - ?need < 2 ^ 32" using le small by linarith
    ultimately show ?thesis using True by (subst nn(1)) (simp add: unat_down_32)
  next
    case False
    then show ?thesis using le small by (subst nn(1)) (simp add: unat_word_ariths)
  qed
  show thesis
  proof (rule that [OF es _ nn(3,2) len])
    show "mm_entries pool' = before @ nn # rest" by (simp add: nn(3))
    show "follows (mm_hi pool) ?e nn" using room by (auto simp: follows_def off len split: if_splits)
    show "rest \<noteq> [] \<longrightarrow> follows (mm_hi pool) nn (hd rest)"
      using room fol by (auto simp: follows_def off len split: if_splits)
    show "mm_end nn \<le> mm_pages pool"
      using room le inrest fol by (auto simp: off len follows_def split: if_splits)
  qed
qed

text \<open>A failing allocation: nowhere in the pool are that many consecutive pages free.\<close>

definition free_run :: "tee_mm_pool \<Rightarrow> nat \<Rightarrow> nat \<Rightarrow> bool" where
  "free_run pool k n \<longleftrightarrow> k + n \<le> mm_pages pool \<and> (\<forall>e\<in>mm_ranges pool. k + n \<le> mm_off e \<or> mm_end e \<le> k)"

lemma run_side:
  assumes "successively (too_small pool ps) es" "successively (follows (mm_hi pool)) es" "unat ps = n" "0 < n"
    and "\<forall>e\<in>set es. k + n \<le> mm_off e \<or> mm_end e \<le> k" "es \<noteq> []"
    and "if mm_hi pool then k + n \<le> mm_off (hd es) else mm_end (hd es) \<le> k"
  shows "if mm_hi pool then k + n \<le> mm_off (last es) else mm_end (last es) \<le> k"
  using assms
proof (induction es)
  case (Cons e es)
  show ?case
  proof (cases es)
    case (Cons f fs)
    then have "too_small pool ps e f" "follows (mm_hi pool) e f" using Cons.prems by auto
    then have "if mm_hi pool then k + n \<le> mm_off f else mm_end f \<le> k"
      using Cons.prems Cons by (auto simp: too_small_iff split: if_splits)
    with Cons.IH Cons.prems Cons show ?thesis by (auto split: if_splits)
  qed (use Cons.prems in auto)
qed simp

lemma alloc_fails:
  assumes ok: "pool_ok pool" and al: "tee_mm_alloc_flags (Some a) n pool = Inr (None, pool')" and n: "n \<noteq> 0"
  shows "\<not> free_run pool k (ceil_pages (mm_shift pool) (unat n))"
proof
  let ?need = "ceil_pages (mm_shift pool) (unat n)" and ?ps = "pages_of pool n"
  assume run: "free_run pool k ?need"
  have pos: "0 < ?need" using ceil_pages_le [of "mm_shift pool" "unat n" 0] n by (simp add: unat_eq_zero)
  obtain before rest where w: "mm_walk (too_small pool ?ps) (mm_entries pool) = (before, rest)" by force
  note sp = mm_walk_split [OF w pool_okD(5) [OF ok]]
  have r: "rest = []"
    using al w pool_okD(5) [OF ok] by (auto simp: tee_mm_alloc_flags_def Let_def split: if_splits)
  then have es: "mm_entries pool = before" "before \<noteq> []" using sp by auto
  then have e: "last before \<in> set (mm_entries pool)" by simp
  have fail: "?need > (if mm_hi pool then mm_off (last before) else mm_pages pool - mm_end (last before))"
    using al w r es by (auto simp: tee_mm_alloc_flags_def Let_def no_memory_iff [OF ok e] split: if_splits)
  have "if mm_hi pool then k + ?need \<le> mm_off (last before) else mm_end (last before) \<le> k"
    by (rule run_side [OF _ _ unat_pages_of pos])
       (use sp es pool_okD(6-8) [OF ok] run in \<open>auto simp: free_run_def mm_ranges_def\<close>)
  with fail run show False by (auto simp: free_run_def split: if_splits)
qed

section \<open>Allocation at an address, freeing, lookup\<close>

lemma alloc2_split:
  assumes ok: "pool_ok pool" and al: "tee_mm_alloc2 mem base n pool = (Some mm, pool')"
    and n: "base \<noteq> mm_lo pool \<or> n \<noteq> 0"
    and high: "unat base - unat (mm_lo pool) + unat n + 2 ^ mm_shift pool \<le> 2 ^ 64"
  obtains before rest where "mm_entries pool = before @ rest" "before \<noteq> []" "mm_entries pool' = before @ mm # rest"
    "pool' = update_max_allocated (pool\<lparr>mm_entries := before @ mm # rest\<rparr>)" "mem = Some (mm_id mm)"
    "mm_off mm = (unat base - unat (mm_lo pool)) div 2 ^ mm_shift pool"
    "mm_end mm = (unat base - unat (mm_lo pool) + unat n - 1) div 2 ^ mm_shift pool + 1"
    "follows (mm_hi pool) (last before) mm" "rest \<noteq> [] \<longrightarrow> follows (mm_hi pool) mm (hd rest)"
    "mm_end mm \<le> mm_pages pool"
proof -
  let ?s = "mm_shift pool"
  let ?lo = "drop_bit ?s (base - mm_lo pool)" and ?hi = "drop_bit ?s (base - mm_lo pool + n - 1) + 1"
  let ?L = "(unat base - unat (mm_lo pool)) div 2 ^ ?s" and ?H = "(unat base - unat (mm_lo pool) + unat n - 1) div 2 ^ ?s + 1"
  have lo: "mm_lo pool \<le> base" using al by (auto simp: tee_mm_alloc2_def split: if_splits)
  have b: "unat (base - mm_lo pool) = unat base - unat (mm_lo pool)" using lo by (rule unat_sub)
  have L: "unat ?lo = ?L" by (simp only: unat_drop_bit b)
  define X where "X = unat base - unat (mm_lo pool) + unat n"
  have pos: "0 < X"
  proof (cases "n = 0")
    case True
    then have "mm_lo pool < base" using n lo by simp
    then show ?thesis by (simp add: X_def word_less_nat_alt)
  qed (simp add: X_def unat_gt_0)
  have X: "X + 2 ^ ?s \<le> 2 ^ 64" using high unfolding X_def .
  then have "X < 2 ^ 64" using zero_less_power [of "2 :: nat" ?s] by linarith
  then have "unat (base - mm_lo pool + n) = X" by (simp add: unat_word_ariths b X_def)
  then have m: "unat (base - mm_lo pool + n - 1) = X - 1"
    using pos X_def by (subst unat_minus_one) (auto simp: unat_eq_zero [symmetric] simp del: unat_eq_zero)
  have Hs: "?H * 2 ^ ?s < 2 ^ 64"
  proof -
    have "(X - 1) div 2 ^ ?s * 2 ^ ?s \<le> X - 1" by simp
    moreover have "((X - 1) div 2 ^ ?s + 1) * 2 ^ ?s = (X - 1) div 2 ^ ?s * 2 ^ ?s + 2 ^ ?s" by simp
    ultimately show ?thesis using X pos unfolding X_def [symmetric] by linarith
  qed
  have "?H * 1 \<le> ?H * 2 ^ ?s" by (rule mult_le_mono2) simp
  then have "?H * 1 < 2 ^ 64" using Hs by (rule le_less_trans)
  then have H: "unat ?hi = ?H" by (simp add: unat_word_ariths unat_drop_bit m X_def)
  have Hp: "unat (push_bit ?s ?hi) = ?H * 2 ^ ?s"
    unfolding unat_push_bit H using Hs by simp
  have LH: "?L \<le> ?H"
  proof -
    have "?L \<le> X div 2 ^ ?s" unfolding X_def by (rule div_le_mono) simp
    also have "\<dots> \<le> (X - 1 + 2 ^ ?s) div 2 ^ ?s" by (rule div_le_mono) (use zero_less_power [of "2 :: nat" ?s] in linarith)
    also have "\<dots> = ?H" unfolding X_def by (subst div_add_self2) simp_all
    finally show ?thesis .
  qed
  define go :: "tee_mm_entry \<Rightarrow> tee_mm_entry \<Rightarrow> bool" where "go = (\<lambda>e n. if mm_hi pool then ?hi < ucast (mm_offset n + mm_size n) else ?lo > ucast (mm_offset n))"
  obtain before rest where w: "mm_walk go (mm_entries pool) = (before, rest)" by force
  let ?e = "last before"
  note sp = mm_walk_split [OF w pool_okD(5) [OF ok]]
  then have es: "mm_entries pool = before @ rest" "before \<noteq> []" by auto
  have fit: "fit_in_gap pool ?e rest ?lo ?hi"
    and mm: "mm = \<lparr>mm_id = mm_id mm, mm_offset = ucast ?lo, mm_size = ucast (?hi - ?lo)\<rparr>" "mem = Some (mm_id mm)"
      "pool' = update_max_allocated (pool\<lparr>mm_entries := before @ mm # rest\<rparr>)"
    using al w es by (auto simp: tee_mm_alloc2_def Let_def go_def split: if_splits option.splits)
  have ends: "unat (mm_offset e + mm_size e) = mm_end e" if "e \<in> set (mm_entries pool)" for e
    using pool_okD(9) [OF ok that] mm_pages_small [OF ok] by (simp add: unat_word_ariths)
  have e: "?e \<in> set (mm_entries pool)" "rest \<noteq> [] \<Longrightarrow> hd rest \<in> set (mm_entries pool)" using es by auto
  have inside: "?H \<le> mm_pages pool"
  proof (cases "mm_hi pool")
    case True
    then have "?H \<le> mm_off ?e" using fit H by (simp add: fit_in_gap_def word_less_nat_alt not_less)
    then show ?thesis using pool_okD(9) [OF ok e(1)] by simp
  next
    case False
    then have "?H * 2 ^ ?s \<le> mm_pages pool * 2 ^ ?s"
      using fit Hp mm_pages_bytes [OF ok] by (simp add: fit_in_gap_def word_less_nat_alt not_less)
    then show ?thesis unfolding mult_le_cancel2 by simp
  qed
  then have small: "?H < 2 ^ 32" using mm_pages_small [OF ok] by linarith
  have off: "mm_off mm = ?L" using small LH L by (subst mm(1)) (simp add: unat_down_32)
  have len: "unat (?hi - ?lo) = ?H - ?L" using L H LH by (subst unat_sub) (simp_all add: word_le_nat_alt)
  then have "unat (?hi - ?lo) < 2 ^ 32" using small by linarith
  then have "mm_len mm = ?H - ?L" unfolding len [symmetric] by (subst mm(1)) (simp only: tee_mm_entry.simps unat_down_32)
  then have en: "mm_end mm = ?H" using off LH by simp
  have fits: "follows (mm_hi pool) ?e mm" "rest \<noteq> [] \<Longrightarrow> follows (mm_hi pool) mm (hd rest)"
    using fit L H ends [OF e(1)] ends [OF e(2)] en off
    by (auto simp: fit_in_gap_def follows_def word_less_nat_alt not_less split: if_splits)
  show thesis
    by (rule that [OF es _ mm(3,2) off en]) (use fits inside en in \<open>simp_all add: mm(3)\<close>)
qed

lemma remove_sorted:
  assumes "successively (follows hi) (xs @ e # ys)"
  shows "successively (follows hi) (xs @ ys)"
  using assms by (simp add: successively_conv_sorted_wrt [OF transp_follows] sorted_wrt_append)

lemma free_split:
  assumes ok: "pool_ok pool"
  shows "(case tee_mm_free (Some a) pool of
      Inl e \<Rightarrow> e = Panic \<and> a \<notin> mm_id ` set (tl (mm_entries pool))
    | Inr pool' \<Rightarrow> \<exists>xs e ys. mm_entries pool = xs @ e # ys \<and> xs \<noteq> [] \<and> mm_id e = a \<and>
        pool' = pool\<lparr>mm_entries := xs @ ys\<rparr> \<and> pool_ok pool')"
proof -
  obtain before rest where w: "mm_walk (\<lambda>e n. mm_id n \<noteq> a) (mm_entries pool) = (before, rest)" by force
  note sp = mm_walk_split [OF w pool_okD(5) [OF ok]]
  show ?thesis
  proof (cases rest)
    case Nil
    have "successively (\<lambda>e n. mm_id n \<noteq> a) es \<Longrightarrow> a \<notin> mm_id ` set (tl es)" for es :: "tee_mm_entry list"
      by (induction es rule: induct_list012) auto
    with Nil sp w show ?thesis by (simp add: tee_mm_free_def)
  next
    case (Cons e ys)
    let ?p = "pool\<lparr>mm_entries := before @ ys\<rparr>"
    have es: "mm_entries pool = before @ e # ys" "before \<noteq> []" "mm_id e = a" using sp Cons by auto
    have "mm_pages ?p = mm_pages pool" by (simp add: mm_pages_def)
    moreover have "successively (follows (mm_hi pool)) (before @ ys)"
      using pool_okD(8) [OF ok] es by (auto intro: remove_sorted)
    ultimately have "pool_ok ?p" using ok es unfolding pool_ok_def by auto
    with w Cons es show ?thesis by (auto simp: tee_mm_free_def)
  qed
qed

text \<open>The page an address lies in.\<close>

definition page_of :: "tee_mm_pool \<Rightarrow> u64 \<Rightarrow> nat" where
  "page_of pool addr = (unat addr - unat (mm_lo pool)) div 2 ^ mm_shift pool"


lemma entries_apart:
  assumes "pool_ok pool" "e \<in> set (mm_entries pool)" "f \<in> set (mm_entries pool)" "e \<noteq> f"
  shows "apart e f"
proof -
  obtain xs ys where "mm_entries pool = xs @ e # ys" using assms(2) by (auto simp: in_set_conv_decomp)
  with pool_ok_apart [OF assms(1) this] assms(3,4) show ?thesis by auto
qed


section \<open>Runs of a pool\<close>

lemma round_down_dvd: "2 ^ s dvd unat (w AND NOT (push_bit s 1 - 1) :: u64)"
proof -
  have "take_bit s (w AND NOT (push_bit s 1 - 1)) = 0"
    by (rule bit_word_eqI) (simp add: bit_simps mask_eq_exp_minus_1 [symmetric])
  then have "take_bit s (unat (w AND NOT (push_bit s 1 - 1))) = 0"
    by (metis unsigned_0 unsigned_take_bit_eq)
  then show ?thesis by (simp add: take_bit_eq_0_iff)
qed

lemma init_ok:
  assumes i: "tee_mm_init (Some a) lo n shift hi = Inr (True, pool)" and "shift < 32"
    and small: "mm_psize pool \<noteq> 0" "unat (mm_psize pool) < 2 ^ 32"
  shows "pool_ok pool"
proof -
  let ?w = "mm_psize pool"
  have d: "2 ^ shift dvd unat ?w" and e: "mm_entries pool =
      [\<lparr>mm_id = a, mm_offset = (if hi then ucast (drop_bit shift (?w - 1) + 1) else 0), mm_size = 0\<rparr>]"
    and f: "mm_hi pool = hi" "mm_shift pool = shift"
    using i round_down_dvd by (auto simp: tee_mm_init_def Let_def split: if_splits)
  have "unat (ucast (drop_bit shift (?w - 1) + 1) :: u32) = mm_pages pool"
  proof -
    have p: "unat (drop_bit shift (?w - 1) + 1) = mm_pages pool"
      using unat_pages_of [of pool ?w] small d by (simp add: pages_of_def f ceil_pages_exact mm_pages_def)
    have "mm_pages pool < 2 ^ 32"
      unfolding mm_pages_def f by (rule le_less_trans [OF div_le_dividend small(2)])
    then show ?thesis unfolding p [symmetric] by (rule unat_down_32)
  qed
  then show ?thesis using assms(2) small d by (simp add: pool_ok_def e f mm_pages_def)
qed

text \<open>The elements callers hold, and the operations they use.\<close>

definition allocated :: "tee_mm_pool \<Rightarrow> tee_mm_entry set" where
  "allocated pool = set (tl (mm_entries pool))"

inductive mm_step :: "tee_mm_pool \<Rightarrow> tee_mm_pool \<Rightarrow> bool" where
  step_alloc: "tee_mm_alloc_flags mem n pool = Inr (r, pool') \<Longrightarrow>
    (\<And>a. mem = Some a \<Longrightarrow> a \<notin> mm_id ` set (mm_entries pool)) \<Longrightarrow> mm_step pool pool'"
| step_alloc2: "tee_mm_alloc2 mem base n pool = (r, pool') \<Longrightarrow>
    (\<And>a. mem = Some a \<Longrightarrow> a \<notin> mm_id ` set (mm_entries pool)) \<Longrightarrow> mm_step pool pool'"
| step_free: "tee_mm_free p pool = Inr pool' \<Longrightarrow> mm_step pool pool'"
| step_stats: "tee_mm_get_pool_stats reset pool = (st, pool') \<Longrightarrow> mm_step pool pool'"

lemma alloc_keeps_ok:
  assumes ok: "pool_ok pool" and al: "tee_mm_alloc_flags mem n pool = Inr (r, pool')"
    and new: "\<And>a. mem = Some a \<Longrightarrow> a \<notin> mm_id ` set (mm_entries pool)"
  shows "pool_ok pool' \<and> (r = None \<longrightarrow> pool' = pool) \<and>
    (\<forall>nn. r = Some nn \<longrightarrow> allocated pool' = insert nn (allocated pool) \<and> nn \<notin> allocated pool)"
proof (cases r)
  case None
  then have "pool' = pool"
    using al by (auto simp: tee_mm_alloc_flags_def cbind_def Let_def split: if_splits option.splits sum.splits prod.splits)
  then show ?thesis using ok None by simp
next
  case (Some nn)
  from alloc_split [OF ok al [unfolded Some]] obtain before rest where
    es: "mm_entries pool = before @ rest" "before \<noteq> []" and p: "mm_entries pool' = before @ nn # rest"
      "pool' = update_max_allocated (pool\<lparr>mm_entries := before @ nn # rest\<rparr>)"
    and id: "mem = Some (mm_id nn)" and f: "follows (mm_hi pool) (last before) nn"
      "rest \<noteq> [] \<longrightarrow> follows (mm_hi pool) nn (hd rest)" "mm_end nn \<le> mm_pages pool" by metis
  have "pool_ok pool'" unfolding p(2) using insert_ok [OF ok es f new [OF id]] by simp
  moreover have "nn \<notin> allocated pool"
    using new [OF id] pool_okD(5) [OF ok] by (auto simp: allocated_def dest: list.set_sel(2))
  ultimately show ?thesis using Some es p by (cases before) (auto simp: allocated_def)
qed

text \<open>
  An address request of zero bytes at the very start of the pool wraps around: it can only end
  with an empty range there.
\<close>

lemma alloc2_nothing_at_start:
  assumes ok: "pool_ok pool" and al: "tee_mm_alloc2 mem (mm_lo pool) 0 pool = (Some mm, pool')"
  obtains before rest where "mm_entries pool = before @ rest" "before \<noteq> []"
    "pool' = update_max_allocated (pool\<lparr>mm_entries := before @ mm # rest\<rparr>)" "mem = Some (mm_id mm)"
    "follows (mm_hi pool) (last before) mm" "rest \<noteq> [] \<longrightarrow> follows (mm_hi pool) mm (hd rest)" "mm_end mm \<le> mm_pages pool"
proof -
  let ?s = "mm_shift pool"
  let ?hi = "drop_bit ?s (- 1) + 1 :: u64"
  have s: "?s < 32" by (rule pool_okD(1) [OF ok])
  have wrap: "?hi = 2 ^ (64 - ?s)" by (simp add: drop_bit_minus_one mask_eq_exp_minus_1)
  have "push_bit ?s ?hi = 0" unfolding wrap using s by (simp add: push_bit_eq_mult power_add [symmetric])
  then have top: "push_bit ?s ?hi - 1 = - 1" by simp
  have none: "(ucast ?hi :: u32) = 0" unfolding wrap using s by (intro bit_word_eqI) (auto simp: bit_simps)
  define go :: "tee_mm_entry \<Rightarrow> tee_mm_entry \<Rightarrow> bool" where
    "go = (\<lambda>e n. if mm_hi pool then ?hi < ucast (mm_offset n + mm_size n) else 0 > (ucast (mm_offset n) :: u64))"
  obtain before rest where w: "mm_walk go (mm_entries pool) = (before, rest)" by force
  note sp = mm_walk_split [OF w pool_okD(5) [OF ok]]
  then have es: "mm_entries pool = before @ rest" "before \<noteq> []" by auto
  have fit: "fit_in_gap pool (last before) rest 0 ?hi"
    and mm: "mm = \<lparr>mm_id = mm_id mm, mm_offset = 0, mm_size = ucast ?hi\<rparr>" "mem = Some (mm_id mm)"
      "pool' = update_max_allocated (pool\<lparr>mm_entries := before @ mm # rest\<rparr>)"
    using al w es by (auto simp: tee_mm_alloc2_def Let_def go_def split: if_splits option.splits)
  have low: "\<not> mm_hi pool"
  proof
    assume "mm_hi pool"
    then have "\<not> mm_psize pool < push_bit ?s ?hi - 1" using fit unfolding fit_in_gap_def by (simp only: if_True) blast
    then have "\<not> mm_psize pool < - 1" unfolding top .
    moreover have "mm_psize pool < - 1" unfolding word_less_nat_alt by (rule less_trans [OF pool_okD(3) [OF ok]]) (simp add: unsigned_minus_1_eq_mask mask_eq_exp_minus_1)
    ultimately show False ..
  qed
  have "mm_end (last before) < 2 ^ 32"
    using pool_okD(9) [OF ok, of "last before"] mm_pages_small [OF ok] es by simp
  then have "unat (mm_offset (last before) + mm_size (last before)) = mm_end (last before)" by (simp add: unat_word_ariths)
  then have "mm_end (last before) = 0"
    using fit low by (simp add: fit_in_gap_def word_less_nat_alt del: add_is_0 add_eq_0_iff_both_eq_0)
  moreover have "mm_off mm = 0" "mm_len mm = 0" using none by (subst mm(1), simp)+
  ultimately show thesis using low by (intro that [OF es mm(3,2)]) (simp_all add: follows_def)
qed

lemma alloc2_placed:
  assumes ok: "pool_ok pool" and al: "tee_mm_alloc2 mem base n pool = (Some mm, pool')"
    and lo: "2 ^ mm_shift pool \<le> unat (mm_lo pool)"
  obtains before rest where "mm_entries pool = before @ rest" "before \<noteq> []"
    "pool' = update_max_allocated (pool\<lparr>mm_entries := before @ mm # rest\<rparr>)" "mem = Some (mm_id mm)"
    "follows (mm_hi pool) (last before) mm" "rest \<noteq> [] \<longrightarrow> follows (mm_hi pool) mm (hd rest)" "mm_end mm \<le> mm_pages pool"
proof (cases "base = mm_lo pool \<and> n = 0")
  case True
  with al that show thesis by (auto elim: alloc2_nothing_at_start [OF ok])
next
  case False
  have "\<not> base + n < base" "mm_lo pool \<le> base" using al by (auto simp: tee_mm_alloc2_def split: if_splits)
  then have "unat base - unat (mm_lo pool) + unat n + 2 ^ mm_shift pool \<le> 2 ^ 64"
    using lo no_wrap_sum(1) [of base n] unfolding word_le_nat_alt by linarith
  note split = alloc2_split [OF ok al _ this]
  have "base \<noteq> mm_lo pool \<or> n \<noteq> 0" using False by blast
  then show thesis by (rule split) (rule that)
qed

lemma alloc2_keeps_ok:
  assumes ok: "pool_ok pool" and al: "tee_mm_alloc2 mem base n pool = (r, pool')"
    and new: "\<And>a. mem = Some a \<Longrightarrow> a \<notin> mm_id ` set (mm_entries pool)"
    and lo: "2 ^ mm_shift pool \<le> unat (mm_lo pool)"
  shows "pool_ok pool' \<and> (r = None \<longrightarrow> pool' = pool) \<and>
    (\<forall>mm. r = Some mm \<longrightarrow> allocated pool' = insert mm (allocated pool) \<and> mm \<notin> allocated pool)"
proof (cases r)
  case None
  then show ?thesis
    using al ok by (auto simp: tee_mm_alloc2_def Let_def split: if_splits option.splits prod.splits)
next
  case (Some mm)
  from alloc2_placed [OF ok al [unfolded Some] lo] obtain before rest where
    es: "mm_entries pool = before @ rest" "before \<noteq> []" and p: "pool' = update_max_allocated (pool\<lparr>mm_entries := before @ mm # rest\<rparr>)"
    and id: "mem = Some (mm_id mm)" and f: "follows (mm_hi pool) (last before) mm"
      "rest \<noteq> [] \<longrightarrow> follows (mm_hi pool) mm (hd rest)" "mm_end mm \<le> mm_pages pool" by metis
  have "pool_ok pool'" unfolding p using insert_ok [OF ok es f new [OF id]] by simp
  moreover have "mm \<notin> allocated pool"
    using new [OF id] pool_okD(5) [OF ok] by (auto simp: allocated_def dest: list.set_sel(2))
  ultimately show ?thesis using Some es p by (cases before) (auto simp: allocated_def)
qed

lemma mm_step_ok: "mm_step pool pool' \<Longrightarrow> pool_ok pool \<Longrightarrow> 2 ^ mm_shift pool \<le> unat (mm_lo pool) \<Longrightarrow> pool_ok pool'"
proof (induction rule: mm_step.induct)
  case (step_alloc mem n pool r pool')
  from alloc_keeps_ok [OF step_alloc(3,1,2)] show ?case by (rule conjunct1)
next
  case (step_alloc2 mem base n pool r pool')
  from alloc2_keeps_ok [OF step_alloc2(3,1,2,4)] show ?case by (rule conjunct1)
next
  case (step_free p pool pool')
  then show ?case
  proof (cases p)
    case (Some a)
    with free_split [OF step_free(2), of a] step_free(1) show ?thesis by auto
  qed (simp add: tee_mm_free_def)
next
  case (step_stats reset pool st pool')
  then show ?case by (cases reset) (auto simp: tee_mm_get_pool_stats_def pool_ok_def mm_pages_def)
qed

text \<open>What never changes in a pool.\<close>

definition mm_frame :: "tee_mm_pool \<Rightarrow> u64 \<times> u64 \<times> nat \<times> bool" where
  "mm_frame pool = (mm_lo pool, mm_psize pool, mm_shift pool, mm_hi pool)"

lemma update_max_frame [simp]: "mm_frame (update_max_allocated pool) = mm_frame pool"
  by (simp add: update_max_allocated_def Let_def mm_frame_def)

lemma frame_entries [simp]: "mm_frame (pool\<lparr>mm_entries := es\<rparr>) = mm_frame pool"
  by (simp add: mm_frame_def)

lemma mm_step_frame: "mm_step pool pool' \<Longrightarrow> mm_frame pool' = mm_frame pool"
proof (induction rule: mm_step.induct)
  case (step_alloc mem n pool r pool')
  then show ?case
    by (auto simp: tee_mm_alloc_flags_def cbind_def Let_def split: if_splits option.splits sum.splits prod.splits)
next
  case (step_alloc2 mem base n pool r pool')
  then show ?case by (auto simp: tee_mm_alloc2_def Let_def split: if_splits option.splits prod.splits)
next
  case (step_free p pool pool')
  then show ?case by (auto simp: tee_mm_free_def split: option.splits prod.splits list.splits)
next
  case (step_stats reset pool st pool')
  then show ?case by (cases reset) (auto simp: tee_mm_get_pool_stats_def mm_frame_def)
qed

lemma mm_steps_frame: "mm_step\<^sup>*\<^sup>* pool pool' \<Longrightarrow> mm_frame pool' = mm_frame pool"
  by (induction rule: rtranclp_induct) (auto dest: mm_step_frame)

lemma mm_steps_ok:
  assumes "mm_step\<^sup>*\<^sup>* pool pool'" "pool_ok pool" "2 ^ mm_shift pool \<le> unat (mm_lo pool)"
  shows "pool_ok pool'"
  using assms(1)
proof (induction rule: rtranclp_induct)
  case (step p p')
  have "mm_frame p = mm_frame pool" by (rule mm_steps_frame [OF step(1)])
  then show ?case using mm_step_ok [OF step(2,3)] assms(3) by (simp add: mm_frame_def)
qed (rule assms(2))

section \<open>Contract\<close>

text \<open>
  What a client of an allocator of page ranges relies on: \<open>held\<close> are the ranges handed out, \<open>lo\<close> and \<open>hi\<close>
  the first page of a range and the one behind it.
\<close>

locale range_allocator =
  fixes ok :: "'s \<Rightarrow> bool" and held :: "'s \<Rightarrow> 'r set" and lo hi :: "'r \<Rightarrow> nat"
    and get :: "'k \<Rightarrow> 's \<Rightarrow> 'r option \<Rightarrow> 's \<Rightarrow> bool" and put :: "'r \<Rightarrow> 's \<Rightarrow> 's \<Rightarrow> bool"
  assumes get_some: "ok s \<Longrightarrow> get k s (Some r) s' \<Longrightarrow> ok s' \<and> r \<notin> held s \<and> held s' = insert r (held s)"
    and get_none: "ok s \<Longrightarrow> get k s None s' \<Longrightarrow> s' = s"
    and put_held: "ok s \<Longrightarrow> r \<in> held s \<Longrightarrow> put r s s' \<Longrightarrow> ok s' \<and> held s' = held s - {r}"
    and put_possible: "ok s \<Longrightarrow> r \<in> held s \<Longrightarrow> \<exists>s'. put r s s'"
    and disjoint: "ok s \<Longrightarrow> r \<in> held s \<Longrightarrow> q \<in> held s \<Longrightarrow> r \<noteq> q \<Longrightarrow> hi r \<le> lo q \<or> hi q \<le> lo r"
begin

text \<open>What is given out can be given back, and then the pool holds what it held before.\<close>

lemma get_put_back:
  assumes "ok s" "get k s (Some r) s'"
  shows "\<exists>s''. put r s' s'' \<and> ok s'' \<and> held s'' = held s"
proof -
  have g: "ok s'" "r \<notin> held s" "held s' = insert r (held s)" using get_some [OF assms] by auto
  then obtain s'' where p: "put r s' s''" using put_possible by blast
  with put_held [OF g(1) _ p] g show ?thesis by auto
qed

text \<open>A range stays clear of the ones given out before it.\<close>

lemma get_clear:
  assumes "ok s" "get k s (Some r) s'" "q \<in> held s"
  shows "hi r \<le> lo q \<or> hi q \<le> lo r"
proof -
  have g: "ok s'" "r \<notin> held s" "held s' = insert r (held s)" using get_some [OF assms(1,2)] by auto
  then show ?thesis using disjoint [OF g(1), of r q] assms(3) by auto
qed

end

definition mm_get :: "nat \<times> u64 \<Rightarrow> tee_mm_pool \<Rightarrow> tee_mm_entry option \<Rightarrow> tee_mm_pool \<Rightarrow> bool" where
  "mm_get = (\<lambda>(a, n) pool r pool'. a \<notin> mm_id ` set (mm_entries pool) \<and> tee_mm_alloc_flags (Some a) n pool = Inr (r, pool'))"

definition mm_put :: "tee_mm_entry \<Rightarrow> tee_mm_pool \<Rightarrow> tee_mm_pool \<Rightarrow> bool" where
  "mm_put e pool pool' \<longleftrightarrow> tee_mm_free (Some (mm_id e)) pool = Inr pool'"

lemma free_held:
  assumes ok: "pool_ok pool" and e: "e \<in> allocated pool"
  shows "\<exists>pool'. tee_mm_free (Some (mm_id e)) pool = Inr pool' \<and> pool_ok pool' \<and> allocated pool' = allocated pool - {e}"
proof -
  have in_ids: "mm_id e \<in> mm_id ` set (tl (mm_entries pool))" using e by (simp add: allocated_def)
  obtain pool' xs f ys where f: "tee_mm_free (Some (mm_id e)) pool = Inr pool'" "mm_entries pool = xs @ f # ys" "xs \<noteq> []"
    "mm_id f = mm_id e" "pool' = pool\<lparr>mm_entries := xs @ ys\<rparr>" "pool_ok pool'"
    using free_split [OF ok, of "mm_id e"] in_ids by (auto split: sum.splits)
  have d: "distinct (map mm_id (xs @ f # ys))" using pool_okD(10) [OF ok] by (simp add: f(2))
  have "e \<in> set (xs @ f # ys)" using e f(2) by (auto simp: allocated_def dest: list.set_sel(2) [rotated])
  then have "f = e" using d f(4) by (auto simp: image_iff)
  moreover have "allocated pool' = allocated pool - {f}"
    using d f(2,3,5) by (cases xs) (auto simp: allocated_def)
  ultimately show ?thesis using f by blast
qed

interpretation mm_pool: range_allocator pool_ok allocated mm_off mm_end mm_get mm_put
proof (unfold_locales, goal_cases)
  case (1 s k r s')
  obtain a n where k: "k = (a, n)" by force
  from 1 k have "tee_mm_alloc_flags (Some a) n s = Inr (Some r, s')" "a \<notin> mm_id ` set (mm_entries s)"
    by (auto simp: mm_get_def)
  from alloc_keeps_ok [OF 1(1) this(1)] this(2) show ?case by simp
next
  case (2 s k s')
  obtain a n where k: "k = (a, n)" by force
  from 2 k have "tee_mm_alloc_flags (Some a) n s = Inr (None, s')" "a \<notin> mm_id ` set (mm_entries s)"
    by (auto simp: mm_get_def)
  from alloc_keeps_ok [OF 2(1) this(1)] this(2) show ?case by simp
next
  case (3 s r s')
  from free_held [OF 3(1,2)] 3(3) show ?case by (auto simp: mm_put_def)
next
  case (4 s r)
  from free_held [OF 4] show ?case by (auto simp: mm_put_def)
next
  case (5 s r q)
  then have "apart r q"
    using entries_apart [OF 5(1)] pool_okD(5) [OF 5(1)] by (auto simp: allocated_def dest: list.set_sel(2) [rotated])
  then show ?case by (simp add: apart_def)
qed

section \<open>Properties\<close>

lemma bytes_exact:
  assumes ok: "pool_ok pool" and e: "e \<in> set (mm_entries pool)" and top: "unat (mm_lo pool) + unat (mm_psize pool) < 2 ^ 64"
  shows "unat (tee_mm_get_smem pool e) = unat (mm_lo pool) + mm_off e * 2 ^ mm_shift pool"
    "unat (tee_mm_get_bytes pool (Some e)) = mm_len e * 2 ^ mm_shift pool"
    "mm_end e * 2 ^ mm_shift pool \<le> unat (mm_psize pool)"
proof -
  let ?s = "mm_shift pool"
  have le: "mm_end e * 2 ^ ?s \<le> unat (mm_psize pool)"
    using mult_le_mono1 [OF pool_okD(9) [OF ok e], of "2 ^ ?s"] mm_pages_bytes [OF ok] by simp
  then have sum: "mm_off e * 2 ^ ?s + mm_len e * 2 ^ ?s \<le> unat (mm_psize pool)" by (simp only: add_mult_distrib)
  note lt = pool_okD(3) [OF ok]
  have off: "unat (ucast (push_bit ?s (mm_offset e)) :: u64) = mm_off e * 2 ^ ?s"
    by (subst unat_ucast_size, rule unat_shift32, rule le_less_trans [OF add_leD1 [OF sum] lt])
  have "mm_off e * 2 ^ ?s + unat (mm_lo pool) < 2 ^ 64"
    using add_leD1 [OF sum] top by linarith
  then show "unat (tee_mm_get_smem pool e) = unat (mm_lo pool) + mm_off e * 2 ^ ?s"
    unfolding tee_mm_get_smem_def unat_word_ariths(1) off by (subst mod_less) simp_all
  show "unat (tee_mm_get_bytes pool (Some e)) = mm_len e * 2 ^ ?s"
    unfolding tee_mm_get_bytes_def option.simps unat_ucast_size
    by (rule unat_shift32, rule le_less_trans [OF add_leD2 [OF sum] lt])
  show "mm_end e * 2 ^ ?s \<le> unat (mm_psize pool)" by (rule le)
qed

lemma init_lo:
  assumes "tee_mm_init (Some a) lo n shift hi = Inr (True, pool)" "mm_lo pool \<noteq> 0"
  shows "2 ^ mm_shift pool \<le> unat (mm_lo pool)"
proof -
  have "2 ^ mm_shift pool dvd unat (mm_lo pool)"
    using assms(1) round_down_dvd by (auto simp: tee_mm_init_def Let_def split: if_splits)
  then show ?thesis using assms(2) by (intro dvd_imp_le) (simp_all add: unat_gt_0)
qed

text \<open>Claim C3: in every pool that is not empty, is smaller than 4 GiB, has pages smaller than that, does not start at address 0
  and ends before the end of the address space, after any sequence of allocations (of any size,
  anywhere or at any address), releases and readings of the statistics, the bytes of an allocated
  range lie inside the pool and share none with the bytes of another allocated range.\<close>

theorem mm_ranges_stay_apart:
  assumes "tee_mm_init (Some a) lo n shift hi = Inr (True, pool0)" "shift < 32"
    and "mm_psize pool0 \<noteq> 0" "unat (mm_psize pool0) < 2 ^ 32" "unat (mm_lo pool0) + unat (mm_psize pool0) < 2 ^ 64"
    and "mm_lo pool0 \<noteq> 0"
    and "mm_step\<^sup>*\<^sup>* pool0 pool" and "e \<in> allocated pool" "f \<in> allocated pool" "e \<noteq> f"
  shows "unat (mm_lo pool0) \<le> unat (tee_mm_get_smem pool e) \<and>
    unat (tee_mm_get_smem pool e) + unat (tee_mm_get_bytes pool (Some e)) \<le> unat (mm_lo pool0) + unat (mm_psize pool0) \<and>
    (unat (tee_mm_get_smem pool e) + unat (tee_mm_get_bytes pool (Some e)) \<le> unat (tee_mm_get_smem pool f) \<or>
     unat (tee_mm_get_smem pool f) + unat (tee_mm_get_bytes pool (Some f)) \<le> unat (tee_mm_get_smem pool e))"
proof -
  have ok: "pool_ok pool" by (rule mm_steps_ok [OF assms(7) init_ok [OF assms(1-4)] init_lo [OF assms(1,6)]])
  have fr: "mm_lo pool = mm_lo pool0" "mm_psize pool = mm_psize pool0"
    using mm_steps_frame [OF assms(7)] by (simp_all add: mm_frame_def)
  have mem: "x \<in> set (mm_entries pool)" if "x \<in> allocated pool" for x
    using that pool_okD(5) [OF ok] by (auto simp: allocated_def dest: list.set_sel(2) [rotated])
  note b = bytes_exact [OF ok mem, unfolded fr, OF _ assms(5)]
  have mono: "x * 2 ^ mm_shift pool \<le> y * 2 ^ mm_shift pool" if "x \<le> y" for x y :: nat using that by simp
  from mm_pool.disjoint [OF ok assms(8-10)] show ?thesis
    using b(1,2,3) [OF assms(8)] b(1,2) [OF assms(9)] mono [of "mm_end e" "mm_off f"] mono [of "mm_end f" "mm_off e"]
    by (simp add: add_mult_distrib) linarith
qed

definition some_pool :: "tee_mm_entry list \<Rightarrow> tee_mm_pool" where
  "some_pool es = \<lparr>mm_entries = \<lparr>mm_id = 0, mm_offset = 0, mm_size = 0\<rparr> # es, mm_lo = 0x10000, mm_psize = 0x8000,
     mm_hi = False, mm_shift = 12, mm_max_allocated = 0\<rparr>"

definition some_range :: "nat \<Rightarrow> u32 \<Rightarrow> u32 \<Rightarrow> tee_mm_entry" where
  "some_range a offs n = \<lparr>mm_id = a, mm_offset = offs, mm_size = n\<rparr>"

lemma some_pool_init: "tee_mm_init (Some 0) 0xF800 0x9000 12 False = Inr (True, some_pool [])"
  by (simp add: tee_mm_init_def Let_def some_pool_def)

lemma some_pool_ok: "pool_ok (some_pool [])"
  by (rule init_ok [OF some_pool_init]) (simp_all add: some_pool_def)

theorem mm_ranges_stay_apart_witness:
  "\<exists>pool e f. mm_step\<^sup>*\<^sup>* (some_pool []) pool \<and> e \<in> allocated pool \<and> f \<in> allocated pool \<and> e \<noteq> f \<and>
     unat (tee_mm_get_smem pool e) + unat (tee_mm_get_bytes pool (Some e)) \<le> 0x18000"
proof -
  let ?e = "some_range 1 0 2" and ?f = "some_range 2 2 1"
  let ?p1 = "(some_pool [?e])\<lparr>mm_max_allocated := 0x2000\<rparr>" and ?p2 = "(some_pool [?e, ?f])\<lparr>mm_max_allocated := 0x3000\<rparr>"
  note ev = tee_mm_alloc_flags_def some_pool_def some_range_def pages_of_def no_memory_def Let_def
    too_small_def update_max_allocated_def tee_mm_stats_allocated_def
  have 1: "tee_mm_alloc_flags (Some 1) 0x1800 (some_pool []) = Inr (Some ?e, ?p1)" by (simp add: ev)
  have 2: "tee_mm_alloc_flags (Some 2) 0x1000 ?p1 = Inr (Some ?f, ?p2)" by (simp add: ev)
  have "mm_step (some_pool []) ?p1" by (rule step_alloc [OF 1]) (simp add: some_pool_def)
  moreover have "mm_step ?p1 ?p2" by (rule step_alloc [OF 2]) (simp add: some_pool_def some_range_def)
  ultimately have run: "mm_step\<^sup>*\<^sup>* (some_pool []) ?p2" by (meson converse_rtranclp_into_rtranclp rtranclp.rtrancl_refl)
  have "?e \<in> allocated ?p2" "?f \<in> allocated ?p2" "?e \<noteq> ?f" by (simp_all add: some_range_def some_pool_def allocated_def)
  with mm_ranges_stay_apart [OF some_pool_init _ _ _ _ _ run this] run show ?thesis
    by (intro exI [of _ ?p2] exI [of _ ?e] exI [of _ ?f]) (simp add: some_pool_def)
qed

lemma alloc_total:
  assumes ok: "pool_ok pool"
  shows "\<exists>r pool'. tee_mm_alloc_flags mem n pool = Inr (r, pool')"
proof -
  obtain before rest where w: "mm_walk (too_small pool (pages_of pool n)) (mm_entries pool) = (before, rest)" by force
  have e: "last before \<in> set (mm_entries pool)" using mm_walk_split [OF w pool_okD(5) [OF ok]] by simp
  show ?thesis
    using w by (cases mem) (auto simp: tee_mm_alloc_flags_def Let_def no_memory_iff [OF ok e])
qed

lemma alloc_was_free:
  assumes ok: "pool_ok pool" and al: "tee_mm_alloc_flags (Some a) n pool = Inr (Some nn, pool')"
    and new: "a \<notin> mm_id ` set (mm_entries pool)"
  shows "free_run pool (mm_off nn) (ceil_pages (mm_shift pool) (unat n))"
proof -
  from alloc_split [OF ok al] obtain before rest where s: "mm_entries pool = before @ rest" "mm_entries pool' = before @ nn # rest"
    "mm_id nn = a" "mm_len nn = ceil_pages (mm_shift pool) (unat n)" "mm_end nn \<le> mm_pages pool" by (metis option.inject)
  have ok': "pool_ok pool'" using alloc_keeps_ok [OF ok al] new by simp
  have "apart nn e" if "e \<in> set (mm_entries pool)" for e
    using that s new by (intro entries_apart [OF ok']) auto
  then show ?thesis using s by (auto simp: free_run_def mm_ranges_def apart_def)
qed

text \<open>Claim C18: in a pool that is not empty, is smaller than 4 GiB and whose ranges are in order, as every operation keeps
  them, an allocation of at least one byte never panics. It succeeds exactly when memory for the
  list element can be allocated and the pool has enough consecutive free pages. It then returns a
  range of exactly the pages needed, at a place that was free; otherwise the pool is unchanged.\<close>

theorem mm_alloc_succeeds_iff_room:
  assumes "pool_ok pool" "\<forall>a. mem = Some a \<longrightarrow> a \<notin> mm_id ` set (mm_entries pool)" "n \<noteq> 0"
  shows "\<exists>r pool'. tee_mm_alloc_flags mem n pool = Inr (r, pool') \<and>
    (r \<noteq> None \<longleftrightarrow> mem \<noteq> None \<and> (\<exists>k. free_run pool k (ceil_pages (mm_shift pool) (unat n)))) \<and>
    (r = None \<longrightarrow> pool' = pool) \<and>
    (\<forall>nn. r = Some nn \<longrightarrow> mm_len nn = ceil_pages (mm_shift pool) (unat n) \<and> free_run pool (mm_off nn) (mm_len nn) \<and>
      allocated pool' = insert nn (allocated pool))"
proof -
  obtain r pool' where al: "tee_mm_alloc_flags mem n pool = Inr (r, pool')" using alloc_total [OF assms(1)] by blast
  note kept = alloc_keeps_ok [OF assms(1) al assms(2) [rule_format]]
  show ?thesis
  proof (cases r)
    case None
    have "\<not> free_run pool k (ceil_pages (mm_shift pool) (unat n))" if "mem = Some a" for a k
      using alloc_fails [OF assms(1) _ assms(3)] al None that by blast
    then show ?thesis using al None kept by auto
  next
    case (Some nn)
    from alloc_split [OF assms(1) al [unfolded Some]] obtain a where a: "mem = Some a" and
      len: "mm_len nn = ceil_pages (mm_shift pool) (unat n)" by metis
    have "free_run pool (mm_off nn) (ceil_pages (mm_shift pool) (unat n))"
      by (rule alloc_was_free [OF assms(1) al [unfolded Some a]]) (use assms(2) a in blast)
    then show ?thesis using al Some a len kept by auto
  qed
qed

theorem mm_alloc_succeeds_iff_room_witness:
  "\<exists>r pool'. tee_mm_alloc_flags (Some 1) 0x9000 (some_pool []) = Inr (r, pool') \<and>
     (r \<noteq> None \<longleftrightarrow> (\<exists>k. free_run (some_pool []) k (ceil_pages 12 0x9000)))"
proof -
  have "\<forall>a. Some 1 = Some a \<longrightarrow> a \<notin> mm_id ` set (mm_entries (some_pool []))" "(0x9000 :: u64) \<noteq> 0"
    by (simp_all add: some_pool_def)
  from mm_alloc_succeeds_iff_room [OF some_pool_ok this] show ?thesis by (auto simp: some_pool_def)
qed



text \<open>
  In a larger pool the page number is cut to 16 bits: an address in the second half of the pool
  is attributed to a range in the first.
\<close>

theorem mm_find_wrong_range:
  "\<exists>pool addr e. pool_ok pool \<and> allocated pool = {e} \<and> tee_mm_find pool addr = Some e \<and> mm_end e \<le> page_of pool addr"
proof -
  let ?e = "some_range 1 0 1"
  let ?pool = "(some_pool [?e])\<lparr>mm_lo := 0, mm_psize := 0x20000000\<rparr>"
  have "pool_ok ?pool"
    by (simp add: pool_ok_def some_pool_def some_range_def mm_pages_def follows_def)
  moreover have "tee_mm_find ?pool 0x10000000 = Some ?e"
    by (simp add: tee_mm_find_def tee_mm_addr_is_within_range_def some_pool_def some_range_def Let_def)
  ultimately show ?thesis
    by (intro exI [of _ ?pool] exI [of _ "0x10000000"] exI [of _ ?e])
       (simp add: allocated_def some_pool_def some_range_def page_of_def)
qed

text \<open>
  Byte offsets are computed in 32 bits: in a pool above 4 GiB an allocation behind a range that
  fills the whole pool succeeds, outside the pool.
\<close>

theorem mm_alloc_beyond_large_pool:
  "\<exists>pool nn pool'. mm_psize pool = 0x100001000 \<and> tee_mm_alloc_flags (Some 2) 0x1000 pool = Inr (Some nn, pool') \<and>
     mm_pages pool \<le> mm_off nn"
proof -
  let ?pool = "(some_pool [some_range 1 0 0x100001])\<lparr>mm_psize := 0x100001000\<rparr>"
  have "tee_mm_alloc_flags (Some 2) 0x1000 ?pool =
      Inr (Some (some_range 2 0x100001 1), update_max_allocated ((some_pool [some_range 1 0 0x100001, some_range 2 0x100001 1])\<lparr>mm_psize := 0x100001000\<rparr>))"
    by (simp add: tee_mm_alloc_flags_def some_pool_def some_range_def pages_of_def no_memory_def Let_def too_small_def)
  then show ?thesis
    by (intro exI [of _ ?pool] exI conjI) (auto simp: some_pool_def some_range_def mm_pages_def)
qed

text \<open>
  In a pool that starts at address 0 an address request that reaches the last page of the address
  space passes the check against the end of the pool, because the end of the request is shifted
  out of the word: the range it gets is outside the pool.
\<close>

theorem mm_alloc2_beyond_pool_at_zero:
  "\<exists>pool mm pool'. pool_ok pool \<and> mm_lo pool = 0 \<and>
     tee_mm_alloc2 (Some 1) 0xFFFFFFFFFFFFF000 0xFFF pool = (Some mm, pool') \<and> mm_pages pool \<le> mm_off mm"
proof -
  let ?pool = "(some_pool [])\<lparr>mm_lo := 0\<rparr>"
  have "pool_ok ?pool" using some_pool_ok by (simp add: pool_ok_def mm_pages_def some_pool_def)
  moreover obtain pool' where "tee_mm_alloc2 (Some 1) 0xFFFFFFFFFFFFF000 0xFFF ?pool = (Some (some_range 1 0xFFFFFFFF 1), pool')"
    by (simp add: tee_mm_alloc2_def some_pool_def some_range_def fit_in_gap_def Let_def)
  moreover have "mm_pages ?pool \<le> mm_off (some_range 1 0xFFFFFFFF 1)" by (simp add: some_pool_def some_range_def mm_pages_def)
  moreover have "mm_lo ?pool = 0" by simp
  ultimately show ?thesis by blast
qed

end
