(* ===== verification/Tee_Misc.thy ===== *)
theory Tee_Misc
  imports Optee_Prelude
begin

text \<open>
  The helpers of \<open>core/kernel/tee_misc.c\<close>: hexadecimal encoding and decoding of byte buffers, and
  the predicates that compare two ranges of physical memory, whose sums wrap at 64 bits.
\<close>

unbundle bit_operations_syntax

section \<open>Hexadecimal strings\<close>

definition tee_b2hs_add_base :: "u8 \<Rightarrow> u8" where
  "tee_b2hs_add_base x = (if x > 9 then x + 55 else x + 48)"

definition tee_hs2b_rem_base :: "u8 \<Rightarrow> u8 option" where
  "tee_hs2b_rem_base x =
     (if x < 48 \<or> x > 70 \<or> (x > 57 \<and> x < 65) then None
      else if x < 58 then Some (x - 48) else Some (x - 55))"

text \<open>The index expressions are evaluated in \<open>uint32_t\<close>.\<close>

abbreviation (input) even_index :: "nat \<Rightarrow> nat" where "even_index i \<equiv> unat (of_nat i * 2 :: u32)"
abbreviation (input) odd_index :: "nat \<Rightarrow> nat" where "odd_index i \<equiv> unat (of_nat i * 2 + 1 :: u32)"

definition tee_b2hs :: "u8 list \<Rightarrow> u8 list \<Rightarrow> u32 \<Rightarrow> u32 \<Rightarrow> (u32 \<times> u8 list) res" where
  "tee_b2hs b hs blen hslen =
     (if blen * 2 + 1 > hslen then Inr (0, hs)
      else cbind (cfor [0..<unat blen] (\<lambda>i hs.
             cbind (aread b i) (\<lambda>x.
             cbind (awrite hs (odd_index i) (tee_b2hs_add_base (x AND 0xF))) (\<lambda>hs.
             awrite hs (even_index i) (tee_b2hs_add_base (drop_bit 4 x))))) hs) (\<lambda>hs.
           cbind (awrite hs (unat (blen * 2)) 0) (\<lambda>hs. Inr (blen * 2, hs))))"

text \<open>The loop of the decoder stops at the first character that is no upper-case digit.\<close>

fun hs2b_loop :: "u8 list \<Rightarrow> nat list \<Rightarrow> u8 list \<Rightarrow> (bool \<times> u8 list) res" where
  "hs2b_loop hs [] b = Inr (True, b)"
| "hs2b_loop hs (i # is) b =
     cbind (aread hs (even_index i)) (\<lambda>h. case tee_hs2b_rem_base h of
       None \<Rightarrow> Inr (False, b)
     | Some hi \<Rightarrow> cbind (aread hs (odd_index i)) (\<lambda>l. case tee_hs2b_rem_base l of
         None \<Rightarrow> Inr (False, b)
       | Some lo \<Rightarrow> cbind (awrite b i (push_bit 4 hi + lo)) (hs2b_loop hs is)))"

definition tee_hs2b :: "u8 list \<Rightarrow> u8 list \<Rightarrow> u32 \<Rightarrow> u32 \<Rightarrow> (u32 \<times> u8 list) res" where
  "tee_hs2b hs b hslen blen =
     (let len = drop_bit 1 (hslen + 1) in
      if len > blen then Inr (0, b)
      else cbind (hs2b_loop hs [0..<unat len] b) (\<lambda>(ok, b). Inr (if ok then len else 0, b)))"

section \<open>Ranges of memory\<close>

definition is_valid_conf_and_notnull_size :: "u64 \<Rightarrow> u64 \<Rightarrow> u64 \<Rightarrow> u64 \<Rightarrow> bool" where
  "is_valid_conf_and_notnull_size b bl a al =
     (if b - 1 + bl < b \<or> a - 1 + al < a then False
      else if bl = 0 \<or> al = 0 then False
      else True)"

definition core_is_buffer_inside :: "u64 \<Rightarrow> u64 \<Rightarrow> u64 \<Rightarrow> u64 \<Rightarrow> bool" where
  "core_is_buffer_inside b bl a al =
     (if \<not> is_valid_conf_and_notnull_size b bl a al then False
      else b \<ge> a \<and> b - 1 + bl \<le> a - 1 + al)"

definition core_is_buffer_outside :: "u64 \<Rightarrow> u64 \<Rightarrow> u64 \<Rightarrow> u64 \<Rightarrow> bool" where
  "core_is_buffer_outside b bl a al =
     (if \<not> is_valid_conf_and_notnull_size b bl a al then False
      else b + bl - 1 < a \<or> b > a + al - 1)"

definition core_is_buffer_intersect :: "u64 \<Rightarrow> u64 \<Rightarrow> u64 \<Rightarrow> u64 \<Rightarrow> bool" where
  "core_is_buffer_intersect b bl a al =
     (if \<not> is_valid_conf_and_notnull_size b bl a al then False
      else if b + bl - 1 < a \<or> b > a + al - 1 then False
      else True)"

text \<open>
  \<open>ROUNDUP2_OVERFLOW\<close> to the cache line; \<open>mem\<close> is what \<open>memalign\<close> returns for a size, the address of a
  block and what it holds. The block is returned with its first \<open>size\<close> bytes cleared.
\<close>

definition alloc_cache_aligned :: "u64 \<Rightarrow> (u64 \<Rightarrow> (nat \<times> u8 list) option) \<Rightarrow> u64 \<Rightarrow> (nat \<times> u8 list) option res" where
  "alloc_cache_aligned line mem sz =
     (let m = sz AND (line - 1); add = (if m \<noteq> 0 then line - m else 0) in
      if unat sz + unat add \<ge> 2 ^ 64 then Inr None
      else case mem (sz + add) of
        None \<Rightarrow> Inr None
      | Some (p, b) \<Rightarrow> cbind (mem_write b 0 (replicate (unat sz) 0)) (\<lambda>b. Inr (Some (p, b))))"

lemma alloc_cache_aligned_clears:
  assumes mem: "\<And>s p b. mem s = Some (p, b) \<Longrightarrow> length b = unat s"
  shows "\<exists>r. alloc_cache_aligned line mem sz = Inr r \<and>
    (\<forall>p b. r = Some (p, b) \<longrightarrow> unat sz \<le> length b \<and> take (unat sz) b = replicate (unat sz) 0)"
proof -
  define add where "add = (if sz AND (line - 1) \<noteq> 0 then line - (sz AND (line - 1)) else 0)"
  show ?thesis
  proof (cases "unat sz + unat add < 2 ^ 64 \<and> mem (sz + add) \<noteq> None")
    case True
    then obtain p b where b: "mem (sz + add) = Some (p, b)" by auto
    have "length b = unat sz + unat add" using mem [OF b] True by (simp add: unat_word_ariths)
    then show ?thesis
      using True b by (simp add: alloc_cache_aligned_def Let_def add_def [symmetric] mem_write_ok)
  next
    case False
    then show ?thesis by (cases "mem (sz + add)") (auto simp: alloc_cache_aligned_def Let_def add_def [symmetric])
  qed
qed

section \<open>Encoding and decoding\<close>

text \<open>The string of a buffer.\<close>

definition hex_of :: "u8 list \<Rightarrow> u8 list" where
  "hex_of bs = concat (map (\<lambda>x. [tee_b2hs_add_base (drop_bit 4 x), tee_b2hs_add_base (x AND 0xF)]) bs)"

lemma length_hex_of [simp]: "length (hex_of bs) = 2 * length bs"
  by (induction bs) (simp_all add: hex_of_def)

lemma hex_of_snoc: "hex_of (bs @ [x]) = hex_of bs @ [tee_b2hs_add_base (drop_bit 4 x), tee_b2hs_add_base (x AND 0xF)]"
  by (simp add: hex_of_def)

lemma nth_hex_of:
  "i < length bs \<Longrightarrow> hex_of bs ! (2 * i) = tee_b2hs_add_base (drop_bit 4 (bs ! i)) \<and>
     hex_of bs ! Suc (2 * i) = tee_b2hs_add_base (bs ! i AND 0xF)"
proof (induction bs arbitrary: i)
  case (Cons x bs)
  then show ?case by (cases i) (simp_all add: hex_of_def)
qed simp

lemma rem_add_base:
  assumes "unat v < 16"
  shows "tee_hs2b_rem_base (tee_b2hs_add_base v) = Some v"
proof -
  have "unat (v + 55) = unat v + 55" "unat (v + 48) = unat v + 48" using assms by (simp_all add: unat_word_ariths)
  with assms show ?thesis
    by (auto simp: tee_hs2b_rem_base_def tee_b2hs_add_base_def word_less_nat_alt)
qed

lemma nibbles: "unat (drop_bit 4 (x :: u8)) < 16" "unat (x AND 0xF) < 16" "push_bit 4 (drop_bit 4 x) + (x AND 0xF) = x"
proof -
  have m: "x AND 0xF = take_bit 4 x" by (simp add: take_bit_eq_mask mask_eq_exp_minus_1)
  show "unat (drop_bit 4 x) < 16"
    using unsigned_less [of x, where 'a = nat] by (simp only: unat_drop_bit) (simp add: div_less_iff_less_mult)
  show "unat (x AND 0xF) < 16" unfolding m by (simp add: unsigned_take_bit_eq take_bit_nat_def)
  show "push_bit 4 (drop_bit 4 x) + (x AND 0xF) = x" unfolding m by (rule bits_ident)
qed

lemma index_exact:
  assumes "i < unat blen" "unat blen < 2 ^ 31"
  shows "even_index i = 2 * i" "odd_index i = Suc (2 * i)"
  using assms by (simp_all add: unat_word_ariths unat_of_nat_32)

lemma b2hs_loop:
  assumes n: "unat blen \<le> length b" "unat blen < 2 ^ 31" and hs: "2 * unat blen < length hs"
  shows "cfor [0..<unat blen] (\<lambda>i hs.
      cbind (aread b i) (\<lambda>x.
      cbind (awrite hs (odd_index i) (tee_b2hs_add_base (x AND 0xF))) (\<lambda>hs.
      awrite hs (even_index i) (tee_b2hs_add_base (drop_bit 4 x))))) hs =
    Inr (hex_of (take (unat blen) b) @ drop (2 * unat blen) hs)" (is "cfor _ ?f hs = _")
proof -
  have "\<exists>t. cfor [0..<unat blen] ?f hs = Inr t \<and> t = hex_of (take (unat blen) b) @ drop (2 * unat blen) hs"
  proof (rule cfor_invariant [where P = "\<lambda>i t. t = hex_of (take i b) @ drop (2 * i) hs"], simp)
    show "hs = hex_of (take 0 b) @ drop (2 * 0) hs" by (simp add: hex_of_def)
    fix i t assume i: "i < unat blen" and t: "t = hex_of (take i b) @ drop (2 * i) hs"
    have l: "length t = length hs" "length (hex_of (take i b)) = 2 * i" using i n hs by (simp_all add: t)
    have "take (Suc i) b = take i b @ [b ! i]" using i n by (simp add: take_Suc_conv_app_nth)
    moreover have "drop (2 * i) hs = hs ! (2 * i) # hs ! Suc (2 * i) # drop (2 * Suc i) hs"
      using i hs by (simp add: Cons_nth_drop_Suc)
    ultimately show "\<exists>t'. ?f i t = Inr t' \<and> t' = hex_of (take (Suc i) b) @ drop (2 * Suc i) hs"
      using i n hs l index_exact [OF i n(2)] by (simp add: t hex_of_snoc list_update_append)
  qed
  then show ?thesis by simp
qed

lemma hs2b_loop_inv:
  assumes "\<forall>i<n. hs ! (2 * i) = tee_b2hs_add_base (drop_bit 4 (b ! i)) \<and> hs ! Suc (2 * i) = tee_b2hs_add_base (b ! i AND 0xF)"
    and "2 * n \<le> length hs" "n \<le> length b" "n \<le> length out" "n < 2 ^ 31" "k \<le> n" "take k out = take k b"
  shows "hs2b_loop hs [k..<n] out = Inr (True, take n b @ drop n out)"
  using assms(4,6,7)
proof (induction "n - k" arbitrary: k out)
  case 0
  then have "k = n" by simp
  moreover from this have "take n b @ drop n out = out" using 0(4) append_take_drop_id [of n out] by simp
  ultimately show ?case by simp
next
  case (Suc d)
  then have k: "k < n" by simp
  then have ix: "even_index k = 2 * k" "odd_index k = Suc (2 * k)"
    using assms(5) by (simp_all add: unat_word_ariths unat_of_nat_32)
  let ?out = "out[k := b ! k]"
  have "take (Suc k) ?out = take (Suc k) b"
    using Suc.prems k assms(3) by (simp add: take_Suc_conv_app_nth)
  then have "hs2b_loop hs [Suc k..<n] ?out = Inr (True, take n b @ drop n ?out)"
    using Suc.hyps Suc.prems k by (intro Suc.hyps(1)) auto
  then show ?case
    using k ix assms(1-3) Suc.prems by (simp add: upt_conv_Cons rem_add_base nibbles)
qed

section \<open>Sums that wrap\<close>

lemma last_byte:
  fixes b bl :: u64
  assumes "bl \<noteq> 0"
  shows "\<not> b - 1 + bl < b \<longleftrightarrow> unat b + unat bl \<le> 2 ^ 64"
    and "unat b + unat bl \<le> 2 ^ 64 \<Longrightarrow> unat (b - 1 + bl) = unat b + unat bl - 1"
    and "b + bl - 1 = b - 1 + bl"
proof -
  have pos: "0 < unat bl" using assms by (simp add: unat_gt_0)
  have m: "unat (bl - 1) = unat bl - 1" using assms by (simp add: unat_minus_one)
  have eq: "b - 1 + bl = b + (bl - 1)" by simp
  have u: "unat (b - 1 + bl) = (unat b + (unat bl - 1)) mod 2 ^ 64" unfolding eq by (simp add: unat_word_ariths m)
  have lt: "unat b < 2 ^ 64" "unat bl < 2 ^ 64" using unsigned_less [of b, where 'a = nat] unsigned_less [of bl, where 'a = nat] by simp_all
  show "\<not> b - 1 + bl < b \<longleftrightarrow> unat b + unat bl \<le> 2 ^ 64"
  proof (cases "unat b + unat bl \<le> 2 ^ 64")
    case True
    then show ?thesis using pos by (simp add: word_less_nat_alt u)
  next
    case False
    then have "unat (b - 1 + bl) = unat b + (unat bl - 1) - 2 ^ 64"
      using lt pos unfolding u by (subst mod_if) simp
    then show ?thesis using False lt pos by (simp add: word_less_nat_alt)
  qed
  show "unat b + unat bl \<le> 2 ^ 64 \<Longrightarrow> unat (b - 1 + bl) = unat b + unat bl - 1" using pos by (simp add: u)
  show "b + bl - 1 = b - 1 + bl" by simp
qed

definition ranges_valid :: "u64 \<Rightarrow> u64 \<Rightarrow> u64 \<Rightarrow> u64 \<Rightarrow> bool" where
  "ranges_valid b bl a al \<longleftrightarrow> bl \<noteq> 0 \<and> al \<noteq> 0 \<and> unat b + unat bl \<le> 2 ^ 64 \<and> unat a + unat al \<le> 2 ^ 64"

definition byte_range :: "u64 \<Rightarrow> u64 \<Rightarrow> nat set" where
  "byte_range b bl = {unat b..<unat b + unat bl}"

lemma valid_conf_iff: "is_valid_conf_and_notnull_size b bl a al \<longleftrightarrow> ranges_valid b bl a al"
  using last_byte(1) [of bl b] last_byte(1) [of al a]
  by (auto simp: is_valid_conf_and_notnull_size_def ranges_valid_def)

lemma buffers_exact:
  "(core_is_buffer_inside b bl a al \<longleftrightarrow> ranges_valid b bl a al \<and> byte_range b bl \<subseteq> byte_range a al) \<and>
   (core_is_buffer_outside b bl a al \<longleftrightarrow> ranges_valid b bl a al \<and> byte_range b bl \<inter> byte_range a al = {}) \<and>
   (core_is_buffer_intersect b bl a al \<longleftrightarrow> ranges_valid b bl a al \<and> byte_range b bl \<inter> byte_range a al \<noteq> {})"
proof (cases "ranges_valid b bl a al")
  case True
  then have v: "bl \<noteq> 0" "al \<noteq> 0" "unat b + unat bl \<le> 2 ^ 64" "unat a + unat al \<le> 2 ^ 64" by (auto simp: ranges_valid_def)
  then have pos: "0 < unat bl" "0 < unat al" by (simp_all add: unat_gt_0)
  note u = last_byte(2) [OF v(1,3)] last_byte(2) [OF v(2,4)] and c = last_byte(3) [OF v(1), of b] last_byte(3) [OF v(2), of a]
  have sub: "byte_range b bl \<subseteq> byte_range a al \<longleftrightarrow> unat a \<le> unat b \<and> unat b + unat bl \<le> unat a + unat al"
    using pos by (simp add: byte_range_def ivl_subset)
  have dis: "byte_range b bl \<inter> byte_range a al = {} \<longleftrightarrow> unat b + unat bl \<le> unat a \<or> unat a + unat al \<le> unat b"
    using pos unfolding byte_range_def Int_atLeastLessThan atLeastLessThan_empty_iff not_less
    by (simp add: min_le_iff_disj le_max_iff_disj) linarith
  show ?thesis
    unfolding sub dis core_is_buffer_inside_def core_is_buffer_outside_def core_is_buffer_intersect_def valid_conf_iff c
    using True pos by (auto simp: word_le_nat_alt word_less_nat_alt u)
next
  case False
  then show ?thesis
    by (simp add: core_is_buffer_inside_def core_is_buffer_outside_def core_is_buffer_intersect_def valid_conf_iff)
qed

section \<open>Properties\<close>

text \<open>For all 64-bit arguments, wrapping sums included, the three predicates on memory ranges
  are what their names say of the sets of bytes, and are all false when a range is empty or
  passes the end of the address space.\<close>

theorem buffer_predicates_exact:
  "(core_is_buffer_inside b bl a al \<longleftrightarrow> ranges_valid b bl a al \<and> byte_range b bl \<subseteq> byte_range a al) \<and>
   (core_is_buffer_outside b bl a al \<longleftrightarrow> ranges_valid b bl a al \<and> byte_range b bl \<inter> byte_range a al = {}) \<and>
   (core_is_buffer_intersect b bl a al \<longleftrightarrow> ranges_valid b bl a al \<and> byte_range b bl \<inter> byte_range a al \<noteq> {})"
  by (rule buffers_exact)

text \<open>Claim C37: decoding the hexadecimal string of a buffer gives the buffer back, for every buffer below
  2 GiB and every string buffer that holds twice its length and the terminator; nothing behind the
  decoded bytes is touched.\<close>

theorem hex_roundtrip:
  assumes "length b = unat blen" "unat blen < 2 ^ 31" "2 * unat blen + 1 \<le> unat hslen" "unat hslen \<le> length hs"
    and "unat blen \<le> length out"
  shows "\<exists>hs'. tee_b2hs b hs blen hslen = Inr (blen * 2, hs') \<and> take (2 * unat blen) hs' = hex_of b \<and> hs' ! (2 * unat blen) = 0 \<and>
    tee_hs2b hs' out (blen * 2) blen = Inr (blen, b @ drop (unat blen) out)"
proof -
  let ?n = "unat blen"
  have two: "unat (blen * 2) = 2 * ?n" "unat (blen * 2 + 1) = 2 * ?n + 1" using assms(2) by (simp_all add: unat_word_ariths)
  then have fits: "\<not> blen * 2 + 1 > hslen" using assms(3) by (simp add: word_less_nat_alt)
  let ?hs = "(hex_of b @ drop (2 * ?n) hs)[2 * ?n := 0]"
  have enc: "tee_b2hs b hs blen hslen = Inr (blen * 2, ?hs)"
    using fits b2hs_loop [of blen b hs] assms two by (simp add: tee_b2hs_def)
  have "unat (drop_bit 1 (blen * 2 + 1)) = ?n" unfolding unat_drop_bit two by simp
  then have len: "drop_bit 1 (blen * 2 + 1) = blen" by (simp add: word_unat_eq_iff)
  have "hs2b_loop ?hs [0..<?n] out = Inr (True, take ?n b @ drop ?n out)"
    by (rule hs2b_loop_inv) (use assms nth_hex_of [of _ b] in \<open>auto simp: nth_append nth_list_update\<close>)
  then have "tee_hs2b ?hs out (blen * 2) blen = Inr (blen, b @ drop ?n out)"
    using len assms(1) by (simp add: tee_hs2b_def Let_def)
  then show ?thesis using enc assms by (intro exI [of _ ?hs]) (simp add: nth_list_update)
qed

theorem hex_roundtrip_witness:
  "\<exists>hs'. tee_b2hs [0x1F, 0xA0] [7, 7, 7, 7, 7, 7] 2 6 = Inr (4, hs') \<and> tee_hs2b hs' [9, 9, 9] 4 2 = Inr (2, [0x1F, 0xA0, 9])"
  using hex_roundtrip [of "[0x1F, 0xA0]" 2 6 "[7, 7, 7, 7, 7, 7]" "[9, 9, 9]"] by auto

text \<open>
  Outside those bounds: the check on the string length is made in 32 bits, so a length of 2 GiB
  passes it with a string buffer of one byte; and a string of odd length is read one byte past
  its end.
\<close>

lemma b2hs_first_write:
  assumes "0 < unat blen" "\<not> blen * 2 + 1 > 1"
  shows "tee_b2hs [0x1F] [7] blen 1 = Inl Out_of_bounds"
proof -
  have "[0..<unat blen] = 0 # [1..<unat blen]" using assms(1) by (simp add: upt_conv_Cons)
  then show ?thesis using assms(2) by (simp add: tee_b2hs_def awrite_def)
qed

theorem b2hs_length_check_wraps: "tee_b2hs [0x1F] [7] 0x80000000 1 = Inl Out_of_bounds"
  by (rule b2hs_first_write) simp_all

theorem hs2b_odd_length_overreads: "tee_hs2b [0x31] [0] 1 1 = Inl Out_of_bounds"
  by (simp add: tee_hs2b_def aread_def tee_hs2b_rem_base_def Let_def)

end
