(* ===== verification/Phys_Mem.thy ===== *)
theory Phys_Mem
  imports Tee_Mm Tee_Misc
begin

text \<open>
  The physical memory of the secure world, \<open>core/mm/phys_mem.c\<close>: one pool for the core and one for
  applications, each possibly absent, both managed by the range allocator. Modelled is the
  configuration without virtualization, in which the pools of the nexus are the only ones.
\<close>

section \<open>The pools\<close>

record phys_mem =
  nex_core_pool :: "tee_mm_pool option"
  nex_ta_pool :: "tee_mm_pool option"

text \<open>\<open>mem\<close> is whether the pool structure can be allocated and \<open>a\<close> the address of its first element.\<close>

definition init_pool :: "bool \<Rightarrow> nat option \<Rightarrow> u64 \<Rightarrow> u64 \<Rightarrow> tee_mm_pool option res" where
  "init_pool mem a b sz =
     (if b = 0 \<and> sz = 0 then Inr None
      else if b = 0 \<or> b AND 0xFFF \<noteq> 0 \<or> sz = 0 \<or> sz AND 0xFFF \<noteq> 0 then Inl Panic
      else if \<not> mem then Inl Panic
      else cbind (tee_mm_init a b sz 12 False) (\<lambda>(ok, pool). if ok then Inr (Some pool) else Inl Panic))"

definition nex_phys_mem_init ::
  "bool \<Rightarrow> nat option \<Rightarrow> nat option \<Rightarrow> u64 \<Rightarrow> u64 \<Rightarrow> u64 \<Rightarrow> u64 \<Rightarrow> phys_mem \<Rightarrow> phys_mem res" where
  "nex_phys_mem_init mem ca ta core_base core_size ta_base ta_size pm =
     (if \<not> (nex_core_pool pm = None \<and> nex_ta_pool pm = None) then Inl Panic
      else cbind (init_pool mem ca core_base core_size) (\<lambda>core.
           cbind (init_pool mem ta ta_base ta_size) (\<lambda>ta.
           Inr \<lparr>nex_core_pool = core, nex_ta_pool = ta\<rparr>)))"

text \<open>\<open>ram\<close> is \<open>TEE_RAM_VA_SIZE\<close>, a constant of the platform.\<close>

definition nex_phys_mem_get_ta_size :: "u64 \<Rightarrow> phys_mem \<Rightarrow> u64 res" where
  "nex_phys_mem_get_ta_size ram pm = (case nex_ta_pool pm of
     Some p \<Rightarrow> Inr (mm_psize p)
   | None \<Rightarrow> (case nex_core_pool pm of None \<Rightarrow> Inl Panic | Some p \<Rightarrow> Inr (mm_psize p - ram)))"

definition nex_phys_mem_get_ta_base :: "phys_mem \<Rightarrow> u64 res" where
  "nex_phys_mem_get_ta_base pm = (case nex_ta_pool pm of
     Some p \<Rightarrow> Inr (mm_lo p)
   | None \<Rightarrow> (case nex_core_pool pm of None \<Rightarrow> Inl Panic | Some p \<Rightarrow> Inr (mm_lo p)))"

definition is_in_pool_range :: "tee_mm_pool option \<Rightarrow> u64 \<Rightarrow> bool" where
  "is_in_pool_range pool addr = (case pool of
     None \<Rightarrow> False
   | Some p \<Rightarrow> core_is_buffer_inside addr 1 (mm_lo p) (mm_psize p))"

definition mm_find :: "tee_mm_pool option \<Rightarrow> tee_mm_pool option \<Rightarrow> u64 \<Rightarrow> tee_mm_entry option" where
  "mm_find p0 p1 addr =
     (if is_in_pool_range p0 addr then tee_mm_find (the p0) addr
      else if is_in_pool_range p1 addr then tee_mm_find (the p1) addr
      else None)"

definition nex_phys_mem_mm_find :: "phys_mem \<Rightarrow> u64 \<Rightarrow> tee_mm_entry option" where
  "nex_phys_mem_mm_find pm addr = mm_find (nex_core_pool pm) (nex_ta_pool pm) addr"

text \<open>Allocation from the first pool, or else from the second.\<close>

definition pool_alloc :: "nat option \<Rightarrow> u64 \<Rightarrow> tee_mm_pool option \<Rightarrow> (tee_mm_entry option \<times> tee_mm_pool option) res" where
  "pool_alloc mem n p = (case p of
     None \<Rightarrow> Inr (None, None)
   | Some p \<Rightarrow> cbind (tee_mm_alloc_flags mem n p) (\<lambda>(r, p). Inr (r, Some p)))"

definition mm_alloc ::
  "nat option \<Rightarrow> nat option \<Rightarrow> u64 \<Rightarrow> tee_mm_pool option \<Rightarrow> tee_mm_pool option \<Rightarrow>
   (tee_mm_entry option \<times> tee_mm_pool option \<times> tee_mm_pool option) res" where
  "mm_alloc mem0 mem1 n p0 p1 =
     cbind (pool_alloc mem0 n p0) (\<lambda>(r, p0).
       if r \<noteq> None then Inr (r, p0, p1)
       else cbind (pool_alloc mem1 n p1) (\<lambda>(r, p1). Inr (r, p0, p1)))"

definition nex_phys_mem_core_alloc :: "nat option \<Rightarrow> u64 \<Rightarrow> phys_mem \<Rightarrow> (tee_mm_entry option \<times> phys_mem) res" where
  "nex_phys_mem_core_alloc mem n pm =
     cbind (mm_alloc mem None n (nex_core_pool pm) None) (\<lambda>(r, core, _). Inr (r, pm\<lparr>nex_core_pool := core\<rparr>))"

definition nex_phys_mem_ta_alloc :: "nat option \<Rightarrow> nat option \<Rightarrow> u64 \<Rightarrow> phys_mem \<Rightarrow> (tee_mm_entry option \<times> phys_mem) res" where
  "nex_phys_mem_ta_alloc mem0 mem1 n pm =
     cbind (mm_alloc mem0 mem1 n (nex_ta_pool pm) (nex_core_pool pm)) (\<lambda>(r, ta, core).
       Inr (r, \<lparr>nex_core_pool = core, nex_ta_pool = ta\<rparr>))"

definition mm_alloc2 ::
  "nat option \<Rightarrow> tee_mm_pool option \<Rightarrow> tee_mm_pool option \<Rightarrow> u64 \<Rightarrow> u64 \<Rightarrow>
   tee_mm_entry option \<times> tee_mm_pool option \<times> tee_mm_pool option" where
  "mm_alloc2 mem p0 p1 base n =
     (if is_in_pool_range p0 base then (let (r, p) = tee_mm_alloc2 mem base n (the p0) in (r, Some p, p1))
      else if is_in_pool_range p1 base then (let (r, p) = tee_mm_alloc2 mem base n (the p1) in (r, p0, Some p))
      else (None, p0, p1))"

definition nex_phys_mem_alloc2 :: "nat option \<Rightarrow> u64 \<Rightarrow> u64 \<Rightarrow> phys_mem \<Rightarrow> tee_mm_entry option \<times> phys_mem" where
  "nex_phys_mem_alloc2 mem base n pm =
     (let (r, core, ta) = mm_alloc2 mem (nex_core_pool pm) (nex_ta_pool pm) base n
      in (r, \<lparr>nex_core_pool = core, nex_ta_pool = ta\<rparr>))"

text \<open>The part of an area that lies in a pool is taken out of it; the assertion is that this succeeds.\<close>

definition partial_carve_out :: "nat option \<Rightarrow> u64 \<Rightarrow> u64 \<Rightarrow> tee_mm_pool option \<Rightarrow> tee_mm_pool option res" where
  "partial_carve_out mem base n pool = (case pool of
     None \<Rightarrow> Inr None
   | Some p \<Rightarrow>
       if \<not> core_is_buffer_intersect base n (mm_lo p) (mm_psize p) then Inr (Some p)
       else
         let pa = max base (mm_lo p);
             end_pa = min (base + n - 1) (mm_lo p + mm_psize p - 1);
             sz = end_pa - pa + 1;
             (mm, p) = tee_mm_alloc2 mem pa sz p
         in if mm = None then Inl Panic else Inr (Some p))"

definition nex_phys_mem_partial_carve_out :: "nat option \<Rightarrow> nat option \<Rightarrow> u64 \<Rightarrow> u64 \<Rightarrow> phys_mem \<Rightarrow> phys_mem res" where
  "nex_phys_mem_partial_carve_out mem0 mem1 base n pm =
     cbind (partial_carve_out mem0 base n (nex_core_pool pm)) (\<lambda>core.
     cbind (partial_carve_out mem1 base n (nex_ta_pool pm)) (\<lambda>ta.
     Inr \<lparr>nex_core_pool = core, nex_ta_pool = ta\<rparr>))"

text \<open>Statistics: sizes and allocations are added up, the high-water mark is the larger one.\<close>

definition add_pool_stats ::
  "bool \<Rightarrow> tee_mm_pool option \<Rightarrow> u64 \<times> u64 \<times> u64 \<Rightarrow> (u64 \<times> u64 \<times> u64) \<times> tee_mm_pool option" where
  "add_pool_stats reset pool stats = (case pool of
     None \<Rightarrow> (stats, None)
   | Some p \<Rightarrow>
       let ((sz, top, used), p) = tee_mm_get_pool_stats reset p; (sz0, top0, used0) = stats
       in ((sz0 + sz, if top > top0 then top else top0, used0 + used), Some p))"

definition nex_phys_mem_stats :: "bool \<Rightarrow> phys_mem \<Rightarrow> (u64 \<times> u64 \<times> u64) \<times> phys_mem" where
  "nex_phys_mem_stats reset pm =
     (let (stats, core) = add_pool_stats reset (nex_core_pool pm) (0, 0, 0);
          (stats, ta) = add_pool_stats reset (nex_ta_pool pm) stats
      in (stats, \<lparr>nex_core_pool = core, nex_ta_pool = ta\<rparr>))"

definition phys_mem_alloc_flags :: "bool \<Rightarrow> nat option \<Rightarrow> nat option \<Rightarrow> u64 \<Rightarrow> phys_mem \<Rightarrow> (tee_mm_entry option \<times> phys_mem) res" where
  "phys_mem_alloc_flags core_mem mem0 mem1 n pm =
     (if core_mem then nex_phys_mem_core_alloc mem0 n pm else nex_phys_mem_ta_alloc mem0 mem1 n pm)"

section \<open>Carving out an area\<close>

text \<open>The bytes of an allocated range.\<close>

definition range_bytes :: "tee_mm_pool \<Rightarrow> tee_mm_entry \<Rightarrow> nat set" where
  "range_bytes p e = {unat (mm_lo p) + mm_off e * 2 ^ mm_shift p..<unat (mm_lo p) + mm_end e * 2 ^ mm_shift p}"

lemma page_bounds:
  fixes x lo a z s :: nat
  assumes "lo \<le> a" "a \<le> x" "x < a + z"
  shows "lo + (a - lo) div 2 ^ s * 2 ^ s \<le> x" "x < lo + ((a - lo + z - 1) div 2 ^ s + 1) * 2 ^ s"
proof -
  have "(a - lo) div 2 ^ s * 2 ^ s \<le> a - lo" by simp
  then show "lo + (a - lo) div 2 ^ s * 2 ^ s \<le> x" using assms by linarith
  have "k < (k div 2 ^ s + 1) * 2 ^ s" for k :: nat
    by (simp add: dividend_less_times_div mult.commute)
  from this [of "a - lo + z - 1"]
  show "x < lo + ((a - lo + z - 1) div 2 ^ s + 1) * 2 ^ s" using assms by linarith
qed

text \<open>A pool in order, in the address space and not at its start.\<close>

definition pool_placed :: "tee_mm_pool \<Rightarrow> bool" where
  "pool_placed p \<longleftrightarrow> pool_ok p \<and> 2 ^ mm_shift p \<le> unat (mm_lo p) \<and> unat (mm_lo p) + unat (mm_psize p) \<le> 2 ^ 64"

lemma placed_frame: "pool_placed p \<Longrightarrow> pool_ok p' \<Longrightarrow> mm_frame p' = mm_frame p \<Longrightarrow> pool_placed p'"
  by (simp add: pool_placed_def mm_frame_def)

lemma carve_pool:
  assumes p: "pool_placed p" and area: "unat base + unat n \<le> 2 ^ 64"
    and new: "\<And>a. mem = Some a \<Longrightarrow> a \<notin> mm_id ` set (mm_entries p)"
    and c: "partial_carve_out mem base n (Some p) = Inr (Some p')"
  shows "\<forall>x\<in>byte_range base n \<inter> byte_range (mm_lo p) (mm_psize p).
    \<exists>e\<in>allocated p' - allocated p. mem = Some (mm_id e) \<and> x \<in> range_bytes p' e"
proof (cases "core_is_buffer_intersect base n (mm_lo p) (mm_psize p)")
  case False
  then have "\<not> ranges_valid base n (mm_lo p) (mm_psize p) \<or> byte_range base n \<inter> byte_range (mm_lo p) (mm_psize p) = {}"
    using buffers_exact [of base n "mm_lo p" "mm_psize p"] by blast
  then have "byte_range base n \<inter> byte_range (mm_lo p) (mm_psize p) = {}"
    using area p by (auto simp: ranges_valid_def byte_range_def pool_placed_def)
  then show ?thesis by simp
next
  case True
  let ?pa = "max base (mm_lo p)" and ?fin = "min (base + n - 1) (mm_lo p + mm_psize p - 1)"
  let ?E = "min (unat base + unat n) (unat (mm_lo p) + unat (mm_psize p))"
  have ok: "pool_ok p" and lo: "2 ^ mm_shift p \<le> unat (mm_lo p)" using p by (simp_all add: pool_placed_def)
  have pa: "unat ?pa = max (unat base) (unat (mm_lo p))" by (simp add: max_def word_le_nat_alt)
  have v: "ranges_valid base n (mm_lo p) (mm_psize p)" "byte_range base n \<inter> byte_range (mm_lo p) (mm_psize p) \<noteq> {}"
    using True buffers_exact [of base n "mm_lo p" "mm_psize p"] by blast+
  then have nz: "n \<noteq> 0" "mm_psize p \<noteq> 0" and le: "unat base + unat n \<le> 2 ^ 64" "unat (mm_lo p) + unat (mm_psize p) \<le> 2 ^ 64"
    by (auto simp: ranges_valid_def)
  have lt: "unat ?pa < ?E" using v(2) pa by (auto simp: byte_range_def)
  have e: "unat ?fin = ?E - 1"
    unfolding last_byte(3) [OF nz(1)] last_byte(3) [OF nz(2)]
    using last_byte(2) [OF nz(1) le(1)] last_byte(2) [OF nz(2) le(2)] nz by (auto simp: min_def word_le_nat_alt)
  have "?pa \<le> ?fin" unfolding word_le_nat_alt e using lt by linarith
  then have "unat (?fin - ?pa) + 1 = ?E - unat ?pa" using lt by (simp only: unat_sub e)
  moreover have "?E - unat ?pa < 2 ^ 64" using le lt lo pa zero_less_power [of "2 :: nat" "mm_shift p"] by linarith
  moreover have "unat (?fin - ?pa + 1) = (unat (?fin - ?pa) + 1) mod 2 ^ 64" by (simp add: unat_word_ariths)
  ultimately have sz: "unat (?fin - ?pa + 1) = ?E - unat ?pa" by (simp only: mod_less)
  obtain mm where al: "tee_mm_alloc2 mem ?pa (?fin - ?pa + 1) p = (Some mm, p')"
    using c True by (auto simp: partial_carve_out_def Let_def split: prod.splits if_splits)
  have "?fin - ?pa + 1 \<noteq> 0" using lt sz by auto
  moreover have "(2 :: nat) ^ mm_shift p \<le> 2 ^ 32" using pool_okD(1) [OF ok] by (intro power_increasing) simp_all
  moreover have "unat ?pa - unat (mm_lo p) + unat (?fin - ?pa + 1) \<le> unat (mm_psize p)"
    unfolding sz using lt pa by linarith
  moreover have "(2 :: nat) ^ 32 + 2 ^ 32 \<le> 2 ^ 64" by simp
  ultimately have "?fin - ?pa + 1 \<noteq> 0" "unat ?pa - unat (mm_lo p) + unat (?fin - ?pa + 1) + 2 ^ mm_shift p \<le> 2 ^ 64"
    using pool_okD(3) [OF ok] by (blast, linarith)
  then obtain before rest where s: "p' = update_max_allocated (p\<lparr>mm_entries := before @ mm # rest\<rparr>)"
    "mem = Some (mm_id mm)" "mm_off mm = (unat ?pa - unat (mm_lo p)) div 2 ^ mm_shift p"
    "mm_end mm = (unat ?pa - unat (mm_lo p) + unat (?fin - ?pa + 1) - 1) div 2 ^ mm_shift p + 1"
    by (metis alloc2_split [OF ok al])
  have m: "mm \<in> allocated p' - allocated p" using alloc2_keeps_ok [OF ok al new lo] by simp
  have fr: "mm_lo p' = mm_lo p" "mm_shift p' = mm_shift p"
    using update_max_frame [of "p\<lparr>mm_entries := before @ mm # rest\<rparr>"] s(1) by (simp_all add: mm_frame_def)
  have "x \<in> range_bytes p' mm" if "x \<in> byte_range base n \<inter> byte_range (mm_lo p) (mm_psize p)" for x
    unfolding range_bytes_def fr unfolding s(4) unfolding s(3)
    using that pa sz page_bounds [of "unat (mm_lo p)" "unat ?pa" x "unat (?fin - ?pa + 1)" "mm_shift p"]
    by (auto simp: byte_range_def)
  then show ?thesis using m s(2) by blast
qed

section \<open>Composition\<close>

text \<open>The pools there are, and that an address is not one of their elements.\<close>

definition pools :: "phys_mem \<Rightarrow> tee_mm_pool set" where
  "pools pm = set_option (nex_core_pool pm) \<union> set_option (nex_ta_pool pm)"

definition fresh_in :: "nat option \<Rightarrow> phys_mem \<Rightarrow> bool" where
  "fresh_in mem pm \<longleftrightarrow> (\<forall>p\<in>pools pm. \<forall>a. mem = Some a \<longrightarrow> a \<notin> mm_id ` set (mm_entries p))"

lemma range_in_pool:
  assumes "pool_ok p" "e \<in> allocated p"
  shows "range_bytes p e \<subseteq> byte_range (mm_lo p) (mm_psize p)"
proof -
  have "e \<in> set (mm_entries p)"
    using assms(2) pool_okD(5) [OF assms(1)] by (auto simp: allocated_def dest: list.set_sel(2) [rotated])
  from mult_le_mono1 [OF pool_okD(9) [OF assms(1) this], of "2 ^ mm_shift p"] mm_pages_bytes [OF assms(1)]
  show ?thesis by (auto simp: range_bytes_def byte_range_def)
qed

lemma ranges_apart:
  assumes "pool_ok p" "e \<in> allocated p" "f \<in> allocated p" "e \<noteq> f"
  shows "range_bytes p e \<inter> range_bytes p f = {}"
proof -
  have m: "x * 2 ^ mm_shift p \<le> y * 2 ^ mm_shift p" if "x \<le> y" for x y :: nat using that by simp
  from mm_pool.disjoint [OF assms] show ?thesis
    using m [of "mm_end e" "mm_off f"] m [of "mm_end f" "mm_off e"] by (auto simp: range_bytes_def)
qed

text \<open>
  What every operation does to one pool: it stays in place and in order, and the elements with the
  addresses in \<open>K\<close>, which are not released, stay.
\<close>

definition pool_kept :: "nat set \<Rightarrow> tee_mm_pool \<Rightarrow> tee_mm_pool \<Rightarrow> bool" where
  "pool_kept K p p' \<longleftrightarrow> (pool_placed p \<longrightarrow> pool_placed p' \<and> mm_frame p' = mm_frame p \<and>
     (\<forall>e\<in>allocated p. mm_id e \<in> K \<longrightarrow> e \<in> allocated p'))"

lemma pool_kept_refl [simp]: "pool_kept K p p"
  by (simp add: pool_kept_def)

lemma pool_kept_trans: "pool_kept K p q \<Longrightarrow> pool_kept K q r \<Longrightarrow> pool_kept K p r"
  by (simp add: pool_kept_def)

lemma alloc_kept:
  assumes "tee_mm_alloc_flags mem n p = Inr (r, p')" "\<And>a. mem = Some a \<Longrightarrow> a \<notin> mm_id ` set (mm_entries p)"
  shows "pool_kept K p p'"
proof (cases "pool_placed p")
  case True
  then have "pool_ok p" by (simp add: pool_placed_def)
  note k = alloc_keeps_ok [OF this assms]
  have "mm_frame p' = mm_frame p" by (rule mm_step_frame [OF step_alloc [OF assms]])
  moreover have "allocated p \<subseteq> allocated p'" using k by (cases r) auto
  ultimately show ?thesis using placed_frame [OF True] k by (auto simp: pool_kept_def)
qed (simp add: pool_kept_def)

lemma alloc2_kept:
  assumes "tee_mm_alloc2 mem base n p = (r, p')" "\<And>a. mem = Some a \<Longrightarrow> a \<notin> mm_id ` set (mm_entries p)"
  shows "pool_kept K p p'"
proof (cases "pool_placed p")
  case True
  then have "pool_ok p" "2 ^ mm_shift p \<le> unat (mm_lo p)" by (simp_all add: pool_placed_def)
  note k = alloc2_keeps_ok [OF this(1) assms this(2)]
  have "mm_frame p' = mm_frame p" by (rule mm_step_frame [OF step_alloc2 [OF assms]])
  moreover have "allocated p \<subseteq> allocated p'" using k by (cases r) auto
  ultimately show ?thesis using placed_frame [OF True] k by (auto simp: pool_kept_def)
qed (simp add: pool_kept_def)

lemma free_kept:
  assumes "tee_mm_free (Some a) p = Inr p'" "a \<notin> K"
  shows "pool_kept K p p'"
proof (cases "pool_placed p")
  case True
  then have "pool_ok p" by (simp add: pool_placed_def)
  from free_split [OF this, of a] assms(1) obtain xs e ys where
    s: "mm_entries p = xs @ e # ys" "xs \<noteq> []" "mm_id e = a" "p' = p\<lparr>mm_entries := xs @ ys\<rparr>" "pool_ok p'" by auto
  have "allocated p - {e} \<subseteq> allocated p'" using s(1,2,4) by (cases xs) (auto simp: allocated_def)
  then show ?thesis
    using placed_frame [OF True s(5)] s(3,4) assms(2) by (auto simp: pool_kept_def)
qed (simp add: pool_kept_def)

lemma stats_kept: "tee_mm_get_pool_stats reset p = (st, p') \<Longrightarrow> pool_kept K p p'"
  by (cases reset) (auto simp: tee_mm_get_pool_stats_def pool_kept_def pool_placed_def pool_ok_def mm_pages_def mm_frame_def allocated_def)

lemma carve_kept:
  assumes "partial_carve_out mem base n (Some p) = Inr q" "\<And>a. mem = Some a \<Longrightarrow> a \<notin> mm_id ` set (mm_entries p)"
  shows "\<exists>p'. q = Some p' \<and> pool_kept K p p'"
  using assms alloc2_kept [OF _ assms(2), of mem]
  by (auto simp: partial_carve_out_def Let_def split: if_splits prod.splits)

text \<open>
  The requests of the core and of applications for physical memory, with fresh addresses for list
  elements, and the release of any element that is not in \<open>K\<close>.
\<close>

inductive phys_step :: "nat set \<Rightarrow> phys_mem \<Rightarrow> phys_mem \<Rightarrow> bool" for K where
  ps_alloc: "phys_mem_alloc_flags core_mem mem0 mem1 n pm = Inr (r, pm') \<Longrightarrow> fresh_in mem0 pm \<Longrightarrow> fresh_in mem1 pm \<Longrightarrow>
    phys_step K pm pm'"
| ps_alloc2: "nex_phys_mem_alloc2 mem base n pm = (r, pm') \<Longrightarrow> fresh_in mem pm \<Longrightarrow> phys_step K pm pm'"
| ps_carve: "nex_phys_mem_partial_carve_out mem0 mem1 base n pm = Inr pm' \<Longrightarrow> fresh_in mem0 pm \<Longrightarrow> fresh_in mem1 pm \<Longrightarrow>
    phys_step K pm pm'"
| ps_free_core: "nex_core_pool pm = Some p \<Longrightarrow> a \<notin> K \<Longrightarrow> tee_mm_free (Some a) p = Inr p' \<Longrightarrow>
    phys_step K pm (pm\<lparr>nex_core_pool := Some p'\<rparr>)"
| ps_free_ta: "nex_ta_pool pm = Some p \<Longrightarrow> a \<notin> K \<Longrightarrow> tee_mm_free (Some a) p = Inr p' \<Longrightarrow>
    phys_step K pm (pm\<lparr>nex_ta_pool := Some p'\<rparr>)"
| ps_stats: "nex_phys_mem_stats reset pm = (st, pm') \<Longrightarrow> phys_step K pm pm'"

definition phys_kept :: "nat set \<Rightarrow> phys_mem \<Rightarrow> phys_mem \<Rightarrow> bool" where
  "phys_kept K pm pm' \<longleftrightarrow> rel_option (pool_kept K) (nex_core_pool pm) (nex_core_pool pm') \<and>
     rel_option (pool_kept K) (nex_ta_pool pm) (nex_ta_pool pm')"

lemma kept_refl [simp]: "rel_option (pool_kept K) p p"
  by (cases p) simp_all

lemma pool_alloc_kept:
  assumes "pool_alloc mem n p = Inr (r, p')" "\<And>q a. p = Some q \<Longrightarrow> mem = Some a \<Longrightarrow> a \<notin> mm_id ` set (mm_entries q)"
  shows "rel_option (pool_kept K) p p'"
  using assms alloc_kept by (cases p) (auto simp: pool_alloc_def cbind_def split: sum.splits)

lemma fresh_core: "fresh_in mem pm \<Longrightarrow> nex_core_pool pm = Some q \<Longrightarrow> mem = Some a \<Longrightarrow> a \<notin> mm_id ` set (mm_entries q)"
  by (auto simp: fresh_in_def pools_def)

lemma fresh_ta: "fresh_in mem pm \<Longrightarrow> nex_ta_pool pm = Some q \<Longrightarrow> mem = Some a \<Longrightarrow> a \<notin> mm_id ` set (mm_entries q)"
  by (auto simp: fresh_in_def pools_def)

lemma pool_stats_kept: "add_pool_stats reset p s = (s', p') \<Longrightarrow> rel_option (pool_kept K) p p'"
  using stats_kept by (cases p) (auto simp: add_pool_stats_def Let_def split: prod.splits)

lemma phys_step_kept: "phys_step K pm pm' \<Longrightarrow> phys_kept K pm pm'"
proof (induction rule: phys_step.induct)
  case (ps_alloc core_mem mem0 mem1 n pm r pm')
  note f = pool_alloc_kept [OF _ fresh_core [OF ps_alloc(2)]] pool_alloc_kept [OF _ fresh_core [OF ps_alloc(3)]]
    pool_alloc_kept [OF _ fresh_ta [OF ps_alloc(2)]]
  show ?case
  proof (cases core_mem)
    case True
    then show ?thesis
      using ps_alloc(1) f(1)
      by (auto simp: phys_kept_def phys_mem_alloc_flags_def nex_phys_mem_core_alloc_def mm_alloc_def cbind_def
          pool_alloc_def [of None] split: sum.splits prod.splits if_splits)
  next
    case False
    then show ?thesis
      using ps_alloc(1) f(2,3)
      by (auto simp: phys_kept_def phys_mem_alloc_flags_def nex_phys_mem_ta_alloc_def mm_alloc_def cbind_def
          split: sum.splits prod.splits if_splits)
  qed
next
  case (ps_alloc2 mem base n pm r pm')
  note f = alloc2_kept [OF _ fresh_core [OF ps_alloc2(2)]] alloc2_kept [OF _ fresh_ta [OF ps_alloc2(2)]]
  show ?case
    using ps_alloc2(1) f
    by (cases "nex_core_pool pm"; cases "nex_ta_pool pm")
      (auto simp: phys_kept_def nex_phys_mem_alloc2_def mm_alloc2_def is_in_pool_range_def Let_def split: prod.splits if_splits)
next
  case (ps_carve mem0 mem1 base n pm pm')
  have none: "partial_carve_out m base n None = Inr None" for m by (simp add: partial_carve_out_def)
  note f = carve_kept [OF _ fresh_core [OF ps_carve(2)]] carve_kept [OF _ fresh_ta [OF ps_carve(3)]]
  show ?case
    using ps_carve(1) f none
    by (cases "nex_core_pool pm"; cases "nex_ta_pool pm")
      (fastforce simp: phys_kept_def nex_phys_mem_partial_carve_out_def cbind_def split: sum.splits)+
next
  case (ps_stats reset pm st pm')
  then show ?case by (auto simp: phys_kept_def nex_phys_mem_stats_def dest!: pool_stats_kept split: prod.splits)
qed (auto simp: phys_kept_def free_kept)

lemma phys_kept_trans: "phys_kept K pm pm' \<Longrightarrow> phys_kept K pm' pm'' \<Longrightarrow> phys_kept K pm pm''"
  by (auto simp: phys_kept_def option_rel_Some1 option_rel_Some2 elim!: option.rel_cases intro: pool_kept_trans)

lemma phys_run_kept: "(phys_step K)\<^sup>*\<^sup>* pm pm' \<Longrightarrow> phys_kept K pm pm'"
proof (induction rule: rtranclp_induct)
  case (step pm' pm'')
  then show ?case using phys_kept_trans phys_step_kept by blast
qed (simp add: phys_kept_def)

lemma kept_pool:
  assumes "phys_kept K pm pm'" "p' \<in> pools pm'"
  shows "\<exists>p\<in>pools pm. pool_kept K p p'"
  using assms by (auto simp: phys_kept_def pools_def elim!: option.rel_cases)

text \<open>The pools as the initialisation leaves them.\<close>

lemma aligned_rounds:
  fixes w m :: u64
  assumes "w AND m = 0"
  shows "(w + m) AND NOT m = w" "w AND NOT m = w"
proof -
  have b: "\<not> (bit w k \<and> bit m k)" for k
    using arg_cong [OF assms, of "\<lambda>x. bit x k"] by (simp add: bit_and_iff)
  have "w + m = w OR m" by (rule disjunctive_add_eq_or [OF assms])
  then show "(w + m) AND NOT m = w" using b by (auto intro!: bit_word_eqI simp: bit_simps)
  show "w AND NOT m = w" using b by (auto intro!: bit_word_eqI simp: bit_simps)
qed

lemmas page_aligned = aligned_rounds [of _ "0xFFF"]

lemma init_pool_placed:
  assumes "init_pool mem a b sz = Inr (Some p)" "unat sz < 2 ^ 32" "unat b + unat sz \<le> 2 ^ 64"
  shows "pool_placed p"
proof -
  have al: "b \<noteq> 0" "b AND 0xFFF = 0" "sz \<noteq> 0" "sz AND 0xFFF = 0"
    and i: "tee_mm_init a b sz 12 False = Inr (True, p)"
    using assms(1) by (auto simp: init_pool_def cbind_def split: if_splits sum.splits)
  then obtain x where x: "a = Some x" "mm_lo p = b" "mm_psize p = sz" "mm_shift p = 12"
    using page_aligned [OF al(2)] page_aligned [OF al(4)] by (auto simp: tee_mm_init_def Let_def split: if_splits option.splits)
  have "pool_ok p" by (rule init_ok [OF i [unfolded x(1)]]) (use x al assms(2) in simp_all)
  moreover have "2 ^ mm_shift p \<le> unat (mm_lo p)" by (rule init_lo [OF i [unfolded x(1)]]) (use x al in simp)
  ultimately show ?thesis using assms(3) x by (simp add: pool_placed_def)
qed

lemma init_placed:
  assumes "nex_phys_mem_init mem ca ta cb cs tb ts pm = Inr pm0"
    and "unat cs < 2 ^ 32" "unat cb + unat cs \<le> 2 ^ 64" "unat ts < 2 ^ 32" "unat tb + unat ts \<le> 2 ^ 64"
    and "p \<in> pools pm0"
  shows "pool_placed p"
  using assms init_pool_placed
  by (auto simp: nex_phys_mem_init_def pools_def cbind_def split: if_splits sum.splits)

lemma carve_source:
  assumes "nex_phys_mem_partial_carve_out mem0 mem1 base n pm = Inr pm1" "p1 \<in> pools pm1"
  shows "\<exists>p\<in>pools pm. \<exists>m\<in>{mem0, mem1}. partial_carve_out m base n (Some p) = Inr (Some p1)"
proof -
  have none: "partial_carve_out m base n None = Inr None" for m by (simp add: partial_carve_out_def)
  show ?thesis
    using assms none
    by (cases "nex_core_pool pm"; cases "nex_ta_pool pm")
       (auto simp: nex_phys_mem_partial_carve_out_def cbind_def pools_def split: sum.splits)
qed

text \<open>All ranges that are allocated, and the ones that carving out has added.\<close>

definition held :: "phys_mem \<Rightarrow> tee_mm_entry set" where
  "held pm = (\<Union>p\<in>pools pm. allocated p)"

definition carved :: "phys_mem \<Rightarrow> phys_mem \<Rightarrow> tee_mm_entry set" where
  "carved pm pm1 = held pm1 - held pm"

lemma carved_covers:
  assumes placed: "\<And>p. p \<in> pools pm \<Longrightarrow> pool_placed p" and area: "unat base + unat n \<le> 2 ^ 64"
    and new: "fresh_in mem0 pm" "fresh_in mem1 pm"
    and c: "nex_phys_mem_partial_carve_out mem0 mem1 base n pm = Inr pm1" and p1: "p1 \<in> pools pm1"
  shows "pool_placed p1"
    and "x \<in> byte_range base n \<inter> byte_range (mm_lo p1) (mm_psize p1) \<Longrightarrow>
      \<exists>f\<in>allocated p1. f \<in> carved pm pm1 \<and> x \<in> range_bytes p1 f"
proof -
  from carve_source [OF c p1] obtain p m where p: "p \<in> pools pm" "m \<in> {mem0, mem1}"
    and cp: "partial_carve_out m base n (Some p) = Inr (Some p1)" by blast
  have fresh: "a \<notin> mm_id ` set (mm_entries q)" if "m = Some a" "q \<in> pools pm" for a q
    using new p(2) that by (auto simp: fresh_in_def)
  from carve_kept [OF cp fresh, of "{}"] p(1) placed [OF p(1)]
  show k: "pool_placed p1" by (auto simp: pool_kept_def)
  from carve_kept [OF cp fresh, of "{}"] p(1) placed [OF p(1)] have "mm_frame p1 = mm_frame p" by (auto simp: pool_kept_def)
  then have fr: "mm_lo p1 = mm_lo p" "mm_psize p1 = mm_psize p" by (simp_all add: mm_frame_def)
  assume "x \<in> byte_range base n \<inter> byte_range (mm_lo p1) (mm_psize p1)"
  with carve_pool [OF placed [OF p(1)] area fresh cp] p(1) fr obtain f where
    f: "f \<in> allocated p1" "m = Some (mm_id f)" "x \<in> range_bytes p1 f" by auto
  have "f \<notin> allocated q" if "q \<in> pools pm" for q
    using fresh [OF f(2) that] placed [OF that] pool_okD(5) [of q]
    by (auto simp: pool_placed_def allocated_def dest: list.set_sel(2))
  then have "f \<in> carved pm pm1" using f(1) p1 by (auto simp: carved_def held_def)
  then show "\<exists>f\<in>allocated p1. f \<in> carved pm pm1 \<and> x \<in> range_bytes p1 f" using f by blast
qed

section \<open>Properties\<close>

text \<open>Claim C19: take physical memory whose pools are smaller than 4 GiB and in the address space, in any state that requests
  and releases lead to from its initialisation, and carve out an area that does not pass the end
  of the address space. After any further requests of the core and of applications (anywhere or at
  an address), carve-outs, readings of the statistics, and releases of anything but the carved-out ranges, no
  other allocated range has a byte of the area, whichever pool it is in, and wherever the area
  lies relative to the pools.\<close>

theorem carved_out_never_allocated:
  assumes init: "nex_phys_mem_init mem ca ta core_base core_size ta_base ta_size pm_none = Inr pm0"
    and sizes: "unat core_size < 2 ^ 32" "unat core_base + unat core_size \<le> 2 ^ 64"
      "unat ta_size < 2 ^ 32" "unat ta_base + unat ta_size \<le> 2 ^ 64"
    and before: "(phys_step {})\<^sup>*\<^sup>* pm0 pm"
    and area: "unat base + unat n \<le> 2 ^ 64" and new: "fresh_in mem0 pm" "fresh_in mem1 pm"
    and carve: "nex_phys_mem_partial_carve_out mem0 mem1 base n pm = Inr pm1"
    and later: "(phys_step (mm_id ` carved pm pm1))\<^sup>*\<^sup>* pm1 pm2"
    and e: "p \<in> pools pm2" "e \<in> allocated p" "e \<notin> carved pm pm1"
  shows "range_bytes p e \<inter> byte_range base n = {}"
proof -
  have placed: "pool_placed q" if q: "q \<in> pools pm" for q
    using kept_pool [OF phys_run_kept [OF before] q] init_placed [OF init sizes] by (auto simp: pool_kept_def)
  obtain p1 where p1: "p1 \<in> pools pm1" and k: "pool_kept (mm_id ` carved pm pm1) p1 p"
    using kept_pool [OF phys_run_kept [OF later] e(1)] by blast
  note cov = carved_covers [OF placed area new carve p1]
  have pl: "pool_placed p" and fr: "mm_frame p = mm_frame p1" using k cov(1) by (simp_all add: pool_kept_def)
  have stay: "f \<in> allocated p" if "f \<in> allocated p1" "f \<in> carved pm pm1" for f
    using k cov(1) that by (auto simp: pool_kept_def)
  have False if x: "x \<in> range_bytes p e" "x \<in> byte_range base n" for x
  proof -
    have ok: "pool_ok p" using pl by (simp add: pool_placed_def)
    have "x \<in> byte_range (mm_lo p1) (mm_psize p1)"
      using range_in_pool [OF ok e(2)] x(1) fr by (auto simp: mm_frame_def)
    with cov(2) x(2) obtain f where f: "f \<in> allocated p1" "f \<in> carved pm pm1" "x \<in> range_bytes p1 f" by blast
    have "x \<in> range_bytes p f" using f(3) fr by (simp add: range_bytes_def mm_frame_def)
    moreover have "range_bytes p e \<inter> range_bytes p f = {}"
      by (rule ranges_apart [OF ok e(2) stay [OF f(1,2)]]) (use e(3) f(2) in blast)
    ultimately show False using x(1) by blast
  qed
  then show ?thesis by blast
qed

theorem carved_out_never_allocated_witness:
  "\<exists>pm0 pm1 pm2 p e. nex_phys_mem_init True (Some 0) None 0x10000 0x8000 0 0 \<lparr>nex_core_pool = None, nex_ta_pool = None\<rparr> = Inr pm0 \<and>
     nex_phys_mem_partial_carve_out (Some 9) None 0xF000 0x1800 pm0 = Inr pm1 \<and>
     phys_mem_alloc_flags False None (Some 10) 0x1000 pm1 = Inr (Some e, pm2) \<and>
     p \<in> pools pm2 \<and> e \<in> allocated p \<and> range_bytes p e \<inter> byte_range 0xF000 0x1800 = {}"
proof -
  let ?none = "\<lparr>nex_core_pool = None, nex_ta_pool = None\<rparr>"
  let ?pm = "\<lparr>nex_core_pool = Some (some_pool []), nex_ta_pool = None\<rparr>"
  let ?p1 = "(some_pool [some_range 9 0 1])\<lparr>mm_max_allocated := 0x1000\<rparr>"
  let ?pm1 = "\<lparr>nex_core_pool = Some ?p1, nex_ta_pool = None\<rparr>"
  let ?p2 = "(some_pool [some_range 9 0 1, some_range 10 1 1])\<lparr>mm_max_allocated := 0x2000\<rparr>"
  let ?pm2 = "\<lparr>nex_core_pool = Some ?p2, nex_ta_pool = None\<rparr>"
  note ev = some_pool_def some_range_def Let_def update_max_allocated_def tee_mm_stats_allocated_def
  have i: "nex_phys_mem_init True (Some 0) None 0x10000 0x8000 0 0 ?none = Inr ?pm"
    by (simp add: nex_phys_mem_init_def init_pool_def tee_mm_init_def ev)
  have c: "nex_phys_mem_partial_carve_out (Some 9) None 0xF000 0x1800 ?pm = Inr ?pm1"
    by (simp add: nex_phys_mem_partial_carve_out_def partial_carve_out_def ev core_is_buffer_intersect_def
        is_valid_conf_and_notnull_size_def tee_mm_alloc2_def fit_in_gap_def max_def min_def)
  have al: "phys_mem_alloc_flags False None (Some 10) 0x1000 ?pm1 = Inr (Some (some_range 10 1 1), ?pm2)"
    by (simp add: phys_mem_alloc_flags_def nex_phys_mem_ta_alloc_def mm_alloc_def pool_alloc_def ev tee_mm_alloc_flags_def
        pages_of_def no_memory_def too_small_def)
  have later: "(phys_step (mm_id ` carved ?pm ?pm1))\<^sup>*\<^sup>* ?pm1 ?pm2"
    by (intro r_into_rtranclp ps_alloc [OF al]) (simp_all add: fresh_in_def pools_def some_pool_def some_range_def)
  have e: "?p2 \<in> pools ?pm2" "some_range 10 1 1 \<in> allocated ?p2" "some_range 10 1 1 \<notin> carved ?pm ?pm1"
    by (simp_all add: pools_def allocated_def some_pool_def some_range_def carved_def held_def)
  have "range_bytes ?p2 (some_range 10 1 1) \<inter> byte_range 0xF000 0x1800 = {}"
    by (rule carved_out_never_allocated [OF i _ _ _ _ rtranclp.rtrancl_refl _ _ _ c later e])
       (simp_all add: fresh_in_def pools_def some_pool_def)
  with i c al e show ?thesis by blast
qed

end
