(* ===== verification/Tee_Time_Ta.thy ===== *)
theory Tee_Time_Ta
  imports Optee_Prelude
begin

text \<open>
  The clocks of applications, \<open>core/tee/tee_time_generic.c\<close>: each application has an offset to the
  system time, kept in a table by identifier, and the time macros of \<open>utee_defines.h\<close>. System
  time readings are arguments.
\<close>

section \<open>Times\<close>

abbreviation (input) TEE_ERROR_TIME_NOT_SET :: u32 where "TEE_ERROR_TIME_NOT_SET \<equiv> 0xFFFF5000"
abbreviation (input) TEE_TIME_MILLIS_BASE :: u32 where "TEE_TIME_MILLIS_BASE \<equiv> 1000"

definition TEE_TIME_LT :: "TEE_Time \<Rightarrow> TEE_Time \<Rightarrow> bool" where
  "TEE_TIME_LT t1 t2 =
     (if tt_seconds t1 = tt_seconds t2 then tt_millis t1 < tt_millis t2 else tt_seconds t1 < tt_seconds t2)"

definition TEE_TIME_LE :: "TEE_Time \<Rightarrow> TEE_Time \<Rightarrow> bool" where
  "TEE_TIME_LE t1 t2 =
     (if tt_seconds t1 = tt_seconds t2 then tt_millis t1 \<le> tt_millis t2 else tt_seconds t1 \<le> tt_seconds t2)"

definition TEE_TIME_ADD :: "TEE_Time \<Rightarrow> TEE_Time \<Rightarrow> TEE_Time" where
  "TEE_TIME_ADD t1 t2 =
     (let s = tt_seconds t1 + tt_seconds t2; m = tt_millis t1 + tt_millis t2 in
      if m \<ge> TEE_TIME_MILLIS_BASE then \<lparr>tt_seconds = s + 1, tt_millis = m - TEE_TIME_MILLIS_BASE\<rparr>
      else \<lparr>tt_seconds = s, tt_millis = m\<rparr>)"

definition TEE_TIME_SUB :: "TEE_Time \<Rightarrow> TEE_Time \<Rightarrow> TEE_Time" where
  "TEE_TIME_SUB t1 t2 =
     (let s = tt_seconds t1 - tt_seconds t2 in
      if tt_millis t1 < tt_millis t2
      then \<lparr>tt_seconds = s - 1, tt_millis = tt_millis t1 + TEE_TIME_MILLIS_BASE - tt_millis t2\<rparr>
      else \<lparr>tt_seconds = s, tt_millis = tt_millis t1 - tt_millis t2\<rparr>)"

section \<open>The table of offsets\<close>

record 'u tee_ta_time_offs =
  to_uuid :: 'u
  to_offs :: TEE_Time
  to_positive :: bool

type_synonym 'u tee_time_offs = "'u tee_ta_time_offs list"

fun tee_time_ta_get_offs :: "'u \<Rightarrow> 'u tee_time_offs \<Rightarrow> (TEE_Time \<times> bool) option" where
  "tee_time_ta_get_offs uuid [] = None"
| "tee_time_ta_get_offs uuid (o1 # tab) =
     (if to_uuid o1 = uuid then Some (to_offs o1, to_positive o1) else tee_time_ta_get_offs uuid tab)"

text \<open>The search for an entry to overwrite.\<close>

fun overwrite_offs :: "'u \<Rightarrow> TEE_Time \<Rightarrow> bool \<Rightarrow> 'u tee_time_offs \<Rightarrow> 'u tee_time_offs option" where
  "overwrite_offs uuid offs positive [] = None"
| "overwrite_offs uuid offs positive (o1 # tab) =
     (if to_uuid o1 = uuid then Some (o1\<lparr>to_offs := offs, to_positive := positive\<rparr> # tab)
      else map_option ((#) o1) (overwrite_offs uuid offs positive tab))"

text \<open>\<open>mem\<close> is whether the table can be enlarged.\<close>

definition tee_time_ta_set_offs :: "bool \<Rightarrow> 'u \<Rightarrow> TEE_Time \<Rightarrow> bool \<Rightarrow> 'u tee_time_offs \<Rightarrow> u32 \<times> 'u tee_time_offs" where
  "tee_time_ta_set_offs mem uuid offs positive tab = (case overwrite_offs uuid offs positive tab of
     Some tab \<Rightarrow> (TEE_SUCCESS, tab)
   | None \<Rightarrow> if \<not> mem then (TEE_ERROR_OUT_OF_MEMORY, tab)
       else (TEE_SUCCESS, tab @ [\<lparr>to_uuid = uuid, to_offs = offs, to_positive = positive\<rparr>]))"

definition tee_time_get_ta_time :: "u32 \<times> TEE_Time \<Rightarrow> 'u \<Rightarrow> 'u tee_time_offs \<Rightarrow> u32 \<times> TEE_Time option" where
  "tee_time_get_ta_time sys uuid tab = (case tee_time_ta_get_offs uuid tab of
     None \<Rightarrow> (TEE_ERROR_TIME_NOT_SET, None)
   | Some (offs, positive) \<Rightarrow>
       let (res, t) = sys in
       if res \<noteq> TEE_SUCCESS then (res, None)
       else if positive then
         let t2 = TEE_TIME_ADD t offs in (if TEE_TIME_LT t2 t then TEE_ERROR_OVERFLOW else res, Some t2)
       else
         let t2 = TEE_TIME_SUB t offs in (if TEE_TIME_LE t t2 then TEE_ERROR_OVERFLOW else res, Some t2))"

definition tee_time_set_ta_time ::
  "u32 \<times> TEE_Time \<Rightarrow> bool \<Rightarrow> 'u \<Rightarrow> TEE_Time \<Rightarrow> 'u tee_time_offs \<Rightarrow> u32 \<times> 'u tee_time_offs" where
  "tee_time_set_ta_time sys mem uuid time tab =
     (if tt_millis time \<ge> TEE_TIME_MILLIS_BASE then (TEE_ERROR_BAD_PARAMETERS, tab)
      else
        let (res, t) = sys in
        if res \<noteq> TEE_SUCCESS then (res, tab)
        else if TEE_TIME_LT t time then tee_time_ta_set_offs mem uuid (TEE_TIME_SUB time t) True tab
        else tee_time_ta_set_offs mem uuid (TEE_TIME_SUB t time) False tab)"

text \<open>
  Waiting: the readings are the successive results of the clock. The value says whether the wait
  ended, which is none while the readings given do not reach the end.
\<close>

fun busy_loop :: "TEE_Time \<Rightarrow> TEE_Time \<Rightarrow> (u32 \<times> TEE_Time) list \<Rightarrow> TEE_Time option res" where
  "busy_loop now end_time [] = Inr (if TEE_TIME_LT now end_time then None else Some now)"
| "busy_loop now end_time ((res, t) # rs) =
     (if \<not> TEE_TIME_LT now end_time then Inr (Some now)
      else if res \<noteq> TEE_SUCCESS then Inl Panic
      else busy_loop t end_time rs)"

definition tee_time_busy_wait :: "u32 \<Rightarrow> (u32 \<times> TEE_Time) list \<Rightarrow> TEE_Time option res" where
  "tee_time_busy_wait ms readings = (case readings of
     [] \<Rightarrow> Inr None
   | (res, now) # rs \<Rightarrow>
       if res \<noteq> TEE_SUCCESS then Inl Panic
       else
         let delta = \<lparr>tt_seconds = ms div 1000, tt_millis = ms mod 1000\<rparr>
         in busy_loop now (TEE_TIME_ADD now delta) rs)"

text \<open>
  The time of the normal world, from the result and the values of the remote call; \<open>dest\<close> is
  whether the caller passed a place for the time.
\<close>

definition tee_time_get_ree_time :: "bool \<Rightarrow> u32 \<times> u64 \<times> u64 \<Rightarrow> u32 \<times> TEE_Time option" where
  "tee_time_get_ree_time dest rpc =
     (if \<not> dest then (TEE_ERROR_BAD_PARAMETERS, None)
      else
        let (res, a, b) = rpc in
        (res, if res = TEE_SUCCESS then Some \<lparr>tt_seconds = ucast a, tt_millis = ucast (b div 1000000)\<rparr> else None))"

section \<open>Arithmetic\<close>

definition normal :: "TEE_Time \<Rightarrow> bool" where
  "normal t \<longleftrightarrow> unat (tt_millis t) < 1000"

definition ms_of :: "TEE_Time \<Rightarrow> nat" where
  "ms_of t = 1000 * unat (tt_seconds t) + unat (tt_millis t)"

abbreviation (input) time_range :: nat where "time_range \<equiv> 1000 * 2 ^ 32"

lemma ms_of_less: "normal t \<Longrightarrow> ms_of t < time_range"
  using unsigned_less [of "tt_seconds t", where 'a = nat] by (simp add: normal_def ms_of_def)

lemma time_lt_iff:
  assumes "normal t1" "normal t2"
  shows "TEE_TIME_LT t1 t2 \<longleftrightarrow> ms_of t1 < ms_of t2" "TEE_TIME_LE t1 t2 \<longleftrightarrow> ms_of t1 \<le> ms_of t2"
  using assms by (auto simp: TEE_TIME_LT_def TEE_TIME_LE_def normal_def ms_of_def word_less_nat_alt word_le_nat_alt word_unat_eq_iff)

lemma carry_mod:
  assumes "b < 1000"
  shows "(1000 * a + b) mod time_range = 1000 * (a mod 2 ^ 32) + (b :: nat)"
proof -
  have "1000 * (r + 2 ^ 32 * q) + b = (1000 * r + b) + q * time_range" for q r :: nat by simp
  from this [of "a mod 2 ^ 32" "a div 2 ^ 32"] have "1000 * a + b = (1000 * (a mod 2 ^ 32) + b) + a div 2 ^ 32 * time_range"
    by (simp only: mod_mult_div_eq)
  moreover have "1000 * (a mod 2 ^ 32) + b < time_range" using assms mod_less_divisor [of "2 ^ 32" a] by simp
  ultimately show ?thesis by (simp only: mod_mult_self1 mod_less)
qed

lemma wrap_detected:
  assumes "x < n" "y < (n :: nat)"
  shows "(x + y) mod n < x \<longleftrightarrow> \<not> x + y < n"
proof (cases "x + y < n")
  case False
  then have "(x + y) mod n = x + y - n" using assms by (simp add: le_mod_geq)
  then show ?thesis using False assms by linarith
qed simp

lemma time_add:
  assumes "normal t1" "normal t2"
  shows "normal (TEE_TIME_ADD t1 t2)" "ms_of (TEE_TIME_ADD t1 t2) = (ms_of t1 + ms_of t2) mod time_range"
proof -
  let ?s1 = "unat (tt_seconds t1)" and ?s2 = "unat (tt_seconds t2)" and ?m1 = "unat (tt_millis t1)" and ?m2 = "unat (tt_millis t2)"
  have m: "unat (tt_millis t1 + tt_millis t2) = ?m1 + ?m2" "?m1 < 1000" "?m2 < 1000"
    using assms by (simp_all add: normal_def unat_word_ariths)
  show "normal (TEE_TIME_ADD t1 t2)"
    using m by (auto simp: TEE_TIME_ADD_def Let_def normal_def word_le_nat_alt unat_sub)
  show "ms_of (TEE_TIME_ADD t1 t2) = (ms_of t1 + ms_of t2) mod time_range"
  proof (cases "?m1 + ?m2 \<ge> 1000")
    case True
    then have d: "unat (tt_millis t1 + tt_millis t2 - 1000) = ?m1 + ?m2 - 1000"
      using m by (simp add: unat_sub word_le_nat_alt)
    have "ms_of t1 + ms_of t2 = 1000 * (?s1 + ?s2 + 1) + (?m1 + ?m2 - 1000)" using True by (simp add: ms_of_def)
    then have "(ms_of t1 + ms_of t2) mod time_range = 1000 * ((?s1 + ?s2 + 1) mod 2 ^ 32) + (?m1 + ?m2 - 1000)"
      using carry_mod [of "?m1 + ?m2 - 1000" "?s1 + ?s2 + 1"] m by simp
    moreover have "unat (tt_seconds t1 + tt_seconds t2 + 1) = (?s1 + ?s2 + 1) mod 2 ^ 32"
      by (simp add: unat_word_ariths mod_simps)
    ultimately show ?thesis using True m d by (simp add: TEE_TIME_ADD_def Let_def ms_of_def word_le_nat_alt)
  next
    case False
    have "ms_of t1 + ms_of t2 = 1000 * (?s1 + ?s2) + (?m1 + ?m2)" by (simp add: ms_of_def)
    then have "(ms_of t1 + ms_of t2) mod time_range = 1000 * ((?s1 + ?s2) mod 2 ^ 32) + (?m1 + ?m2)"
      using carry_mod [of "?m1 + ?m2" "?s1 + ?s2"] False by simp
    moreover have "unat (tt_seconds t1 + tt_seconds t2) = (?s1 + ?s2) mod 2 ^ 32" by (simp add: unat_word_ariths)
    ultimately show ?thesis using False m by (simp add: TEE_TIME_ADD_def Let_def ms_of_def word_le_nat_alt)
  qed
qed

lemma time_sub:
  assumes "normal t1" "normal t2" "ms_of t2 \<le> ms_of t1"
  shows "normal (TEE_TIME_SUB t1 t2)" "ms_of (TEE_TIME_SUB t1 t2) = ms_of t1 - ms_of t2"
proof -
  let ?s1 = "unat (tt_seconds t1)" and ?s2 = "unat (tt_seconds t2)" and ?m1 = "unat (tt_millis t1)" and ?m2 = "unat (tt_millis t2)"
  have m: "?m1 < 1000" "?m2 < 1000" using assms by (simp_all add: normal_def)
  have le: "1000 * ?s2 + ?m2 \<le> 1000 * ?s1 + ?m1" using assms(3) by (simp add: ms_of_def)
  have s: "?s2 \<le> ?s1" using le m by linarith
  then have sub: "unat (tt_seconds t1 - tt_seconds t2) = ?s1 - ?s2" by (simp add: unat_sub word_le_nat_alt)
  have "normal (TEE_TIME_SUB t1 t2) \<and> ms_of (TEE_TIME_SUB t1 t2) = ms_of t1 - ms_of t2"
  proof (cases "?m1 < ?m2")
    case True
    have lt: "?s2 < ?s1" using le True by linarith
    have one: "unat (tt_seconds t1 - tt_seconds t2 - 1) = ?s1 - ?s2 - 1"
      using sub lt by (subst unat_sub) (simp_all add: word_le_nat_alt)
    have up: "unat (tt_millis t1 + 1000) = ?m1 + 1000" using m by (simp add: unat_word_ariths)
    have mm: "unat (tt_millis t1 + 1000 - tt_millis t2) = ?m1 + 1000 - ?m2"
      using m up by (subst unat_sub) (simp_all add: word_le_nat_alt)
    have "1000 * (?s1 - ?s2 - 1) + (?m1 + 1000 - ?m2) = 1000 * ?s1 + ?m1 - (1000 * ?s2 + ?m2)"
      using True m lt by (simp add: diff_mult_distrib2)
    then show ?thesis
      using True m one mm by (simp add: TEE_TIME_SUB_def Let_def normal_def ms_of_def word_less_nat_alt)
  next
    case False
    have mm: "unat (tt_millis t1 - tt_millis t2) = ?m1 - ?m2" using False by (subst unat_sub) (simp_all add: word_le_nat_alt)
    have "1000 * (?s1 - ?s2) + (?m1 - ?m2) = 1000 * ?s1 + ?m1 - (1000 * ?s2 + ?m2)"
      using False s by (simp add: diff_mult_distrib2)
    moreover have "?m1 - ?m2 < 1000" using m by linarith
    ultimately show ?thesis
      using False sub mm by (simp add: TEE_TIME_SUB_def Let_def normal_def ms_of_def word_less_nat_alt)
  qed
  then show "normal (TEE_TIME_SUB t1 t2)" "ms_of (TEE_TIME_SUB t1 t2) = ms_of t1 - ms_of t2" by simp_all
qed

section \<open>The table\<close>

lemma overwrite_lookup:
  "overwrite_offs u offs p tab = Some tab' \<Longrightarrow>
   tee_time_ta_get_offs v tab' = (if v = u then Some (offs, p) else tee_time_ta_get_offs v tab)"
  by (induction tab arbitrary: tab') (auto split: if_splits)

lemma append_lookup:
  "overwrite_offs u offs p tab = None \<Longrightarrow>
   tee_time_ta_get_offs v (tab @ [\<lparr>to_uuid = u, to_offs = offs, to_positive = p\<rparr>])
     = (if v = u then Some (offs, p) else tee_time_ta_get_offs v tab)"
  by (induction tab) (auto split: if_splits)

lemma set_offs_lookup:
  assumes "tee_time_ta_set_offs mem u offs p tab = (TEE_SUCCESS, tab')"
  shows "tee_time_ta_get_offs v tab' = (if v = u then Some (offs, p) else tee_time_ta_get_offs v tab)"
  using assms overwrite_lookup [of u offs p tab] append_lookup [of u offs p tab]
  by (auto simp: tee_time_ta_set_offs_def split: option.splits if_splits)

text \<open>The offset a successful set leaves, by sign.\<close>

lemma set_ta_time_lookup:
  assumes "tee_time_set_ta_time (TEE_SUCCESS, t) mem u time tab = (TEE_SUCCESS, tab')" "normal t"
  obtains offs p where
    "\<And>v. tee_time_ta_get_offs v tab' = (if v = u then Some (offs, p) else tee_time_ta_get_offs v tab)"
    "normal offs" "normal time"
    "p \<Longrightarrow> ms_of time = ms_of t + ms_of offs \<and> 0 < ms_of offs"
    "\<not> p \<Longrightarrow> ms_of t = ms_of time + ms_of offs"
proof -
  have n: "normal time"
    using assms(1) by (auto simp: tee_time_set_ta_time_def normal_def word_le_nat_alt split: if_splits)
  then have m: "\<not> TEE_TIME_MILLIS_BASE \<le> tt_millis time" by (simp add: normal_def word_le_nat_alt)
  note lt = time_lt_iff(1) [OF assms(2) n]
  show thesis
  proof (cases "TEE_TIME_LT t time")
    case True
    then have set: "tee_time_ta_set_offs mem u (TEE_TIME_SUB time t) True tab = (TEE_SUCCESS, tab')"
      using assms(1) m by (simp add: tee_time_set_ta_time_def)
    have le: "ms_of t < ms_of time" using True lt by simp
    show thesis
      by (rule that [OF set_offs_lookup [OF set] _ n]) (use time_sub [OF n assms(2)] le in simp_all)
  next
    case False
    then have set: "tee_time_ta_set_offs mem u (TEE_TIME_SUB t time) False tab = (TEE_SUCCESS, tab')"
      using assms(1) m by (simp add: tee_time_set_ta_time_def)
    have le: "ms_of time \<le> ms_of t" using False lt by simp
    show thesis
      by (rule that [OF set_offs_lookup [OF set] _ n]) (use time_sub [OF assms(2) n] le in simp_all)
  qed
qed

section \<open>Properties\<close>

text \<open>Claim C26: once an application has set its clock to a time other than the present system time,
  reading it later gives the time set plus the system time that has passed: with success when that
  sum can be represented, and otherwise with the overflow error and the sum modulo the range of the
  structure. The clocks of other applications read as before.\<close>

theorem ta_time_set_get:
  assumes "tee_time_set_ta_time (TEE_SUCCESS, t) mem u time tab = (TEE_SUCCESS, tab')"
    and "normal t" "normal t'" "ms_of t \<le> ms_of t'" "ms_of time \<noteq> ms_of t"
  shows "(\<exists>r. tee_time_get_ta_time (TEE_SUCCESS, t') u tab' =
             (if ms_of time + (ms_of t' - ms_of t) < time_range then TEE_SUCCESS else TEE_ERROR_OVERFLOW, Some r)
           \<and> normal r \<and> ms_of r = (ms_of time + (ms_of t' - ms_of t)) mod time_range)
       \<and> (\<forall>v sys. v \<noteq> u \<longrightarrow> tee_time_get_ta_time sys v tab' = tee_time_get_ta_time sys v tab)"
proof -
  obtain offs p where
    look: "\<And>v. tee_time_ta_get_offs v tab' = (if v = u then Some (offs, p) else tee_time_ta_get_offs v tab)"
    and n: "normal offs" "normal time"
    and pos: "p \<Longrightarrow> ms_of time = ms_of t + ms_of offs \<and> 0 < ms_of offs"
    and neg: "\<not> p \<Longrightarrow> ms_of t = ms_of time + ms_of offs"
    by (rule set_ta_time_lookup [OF assms(1,2)]) (rule that; assumption)
  have others: "v \<noteq> u \<Longrightarrow> tee_time_get_ta_time sys v tab' = tee_time_get_ta_time sys v tab" for v sys
    by (simp add: tee_time_get_ta_time_def look)
  have rng: "ms_of t' < time_range" "ms_of offs < time_range" by (rule ms_of_less [OF assms(3)], rule ms_of_less [OF n(1)])
  show ?thesis
  proof (cases p)
    case True
    let ?r = "TEE_TIME_ADD t' offs"
    have r: "normal ?r" "ms_of ?r = (ms_of t' + ms_of offs) mod time_range" by (rule time_add [OF assms(3) n(1)])+
    have v: "ms_of time + (ms_of t' - ms_of t) = ms_of t' + ms_of offs" using pos [OF True] assms(4) by simp
    have "TEE_TIME_LT ?r t' \<longleftrightarrow> \<not> ms_of t' + ms_of offs < time_range"
      unfolding time_lt_iff(1) [OF r(1) assms(3)] r(2) using rng by (rule wrap_detected)
    then show ?thesis using r v True others by (simp add: tee_time_get_ta_time_def look Let_def)
  next
    case False
    let ?r = "TEE_TIME_SUB t' offs"
    have le: "ms_of offs \<le> ms_of t'" and gt: "0 < ms_of offs" using neg [OF False] assms(4,5) by simp_all
    have r: "normal ?r" "ms_of ?r = ms_of t' - ms_of offs" using time_sub [OF assms(3) n(1) le] by simp_all
    have v: "ms_of time + (ms_of t' - ms_of t) = ms_of t' - ms_of offs" using neg [OF False] assms(4) by simp
    have "\<not> TEE_TIME_LE t' ?r" using time_lt_iff(2) [OF assms(3) r(1)] r(2) gt le by simp
    then show ?thesis using r v False others rng by (simp add: tee_time_get_ta_time_def look Let_def)
  qed
qed

theorem ta_time_set_get_witness:
  "let t = \<lparr>tt_seconds = 100, tt_millis = 900\<rparr>; t' = \<lparr>tt_seconds = 130, tt_millis = 100\<rparr>;
       time = \<lparr>tt_seconds = 50, tt_millis = 950\<rparr>;
       tab' = snd (tee_time_set_ta_time (0, t) True (7 :: nat) time [])
   in tee_time_get_ta_time (0, t') 7 tab' = (0, Some \<lparr>tt_seconds = 80, tt_millis = 150\<rparr>)
    \<and> (\<exists>r. tee_time_get_ta_time (0, t') 7 tab' = (0, Some r) \<and> ms_of r = 80150)"
  using ta_time_set_get [of "\<lparr>tt_seconds = 100, tt_millis = 900\<rparr>" True "7 :: nat" "\<lparr>tt_seconds = 50, tt_millis = 950\<rparr>" "[]"
      "[\<lparr>to_uuid = 7, to_offs = \<lparr>tt_seconds = 49, tt_millis = 950\<rparr>, to_positive = False\<rparr>]"
      "\<lparr>tt_seconds = 130, tt_millis = 100\<rparr>"]
  by (simp add: tee_time_set_ta_time_def tee_time_ta_set_offs_def tee_time_get_ta_time_def TEE_TIME_LT_def
      TEE_TIME_LE_def TEE_TIME_SUB_def Let_def normal_def ms_of_def)

text \<open>
  The excluded case: a clock set to exactly the present system time gets the offset zero with a
  negative sign, and every later reading reports an overflow although the time it returns is right.
\<close>

theorem ta_time_set_now_overflows:
  assumes "tee_time_set_ta_time (TEE_SUCCESS, t) mem u t tab = (TEE_SUCCESS, tab')" "normal t" "normal t'"
  shows "\<exists>r. tee_time_get_ta_time (TEE_SUCCESS, t') u tab' = (TEE_ERROR_OVERFLOW, Some r) \<and> ms_of r = ms_of t'"
proof -
  obtain offs p where
    look: "\<And>v. tee_time_ta_get_offs v tab' = (if v = u then Some (offs, p) else tee_time_ta_get_offs v tab)"
    and n: "normal offs" and "normal t" and pos: "p \<Longrightarrow> ms_of t = ms_of t + ms_of offs \<and> 0 < ms_of offs"
    and neg: "\<not> p \<Longrightarrow> ms_of t = ms_of t + ms_of offs"
    by (rule set_ta_time_lookup [OF assms(1,2)]) (rule that; assumption)
  have p: "\<not> p" using pos by auto
  then have z: "ms_of offs = 0" using neg by simp
  have r: "normal (TEE_TIME_SUB t' offs)" "ms_of (TEE_TIME_SUB t' offs) = ms_of t'"
    using time_sub [OF assms(3) n] z by simp_all
  then have "TEE_TIME_LE t' (TEE_TIME_SUB t' offs)" using time_lt_iff(2) [OF assms(3) r(1)] by simp
  then show ?thesis using p r by (simp add: tee_time_get_ta_time_def look Let_def)
qed

text \<open>A wait that ends, ends at a reading of the clock that is not before the requested end.\<close>

lemma busy_loop_end: "busy_loop now e rs = Inr (Some t) \<Longrightarrow> \<not> TEE_TIME_LT t e"
  by (induction now e rs rule: busy_loop.induct) (auto split: if_splits)

lemma busy_loop_reading: "busy_loop now e rs = Inr (Some t) \<Longrightarrow> t = now \<or> t \<in> snd ` set rs"
  by (induction now e rs rule: busy_loop.induct) (auto split: if_splits)

lemma busy_loop_done: "\<not> TEE_TIME_LT now e \<Longrightarrow> busy_loop now e rs = Inr (Some now)"
  by (cases rs) auto

lemma busy_loop_reaches:
  "(0, t) \<in> set rs \<Longrightarrow> \<not> TEE_TIME_LT t e \<Longrightarrow> \<forall>(r, _) \<in> set rs. r = 0 \<Longrightarrow> \<exists>t'. busy_loop now e rs = Inr (Some t')"
  by (induction now e rs rule: busy_loop.induct) (auto simp: busy_loop_done)

text \<open>
  Claim C38: the busy wait returns as soon as the clock has a reading at or after the start plus the
  delay, and never before: with readings that succeed, it returns a reading at least the delay later
  than the first if some reading is, provided the end of the wait can be represented.
\<close>

theorem busy_wait_waits:
  assumes "\<forall>(r, t) \<in> set readings. r = TEE_SUCCESS \<and> normal t"
    and "readings = (TEE_SUCCESS, t0) # rs" "ms_of t0 + unat ms < time_range"
  shows "((\<exists>t \<in> snd ` set rs. ms_of t0 + unat ms \<le> ms_of t) \<longrightarrow> (\<exists>t. tee_time_busy_wait ms readings = Inr (Some t)))
       \<and> (\<forall>t. tee_time_busy_wait ms readings = Inr (Some t) \<longrightarrow> ms_of t0 + unat ms \<le> ms_of t)"
proof -
  let ?d = "\<lparr>tt_seconds = ms div 1000, tt_millis = ms mod 1000\<rparr>"
  let ?e = "TEE_TIME_ADD t0 ?d"
  have d: "normal ?d" "ms_of ?d = unat ms"
    by (simp_all add: normal_def ms_of_def unat_div unat_mod)
  have n0: "normal t0" using assms(1,2) by auto
  have e: "normal ?e" "ms_of ?e = ms_of t0 + unat ms" using time_add [OF n0 d(1)] d(2) assms(3) by simp_all
  have ok: "\<forall>(r, t) \<in> set rs. r = 0" "\<And>t. t \<in> snd ` set rs \<Longrightarrow> normal t \<and> (0, t) \<in> set rs"
    using assms(1,2) by auto
  have w: "tee_time_busy_wait ms readings = busy_loop t0 ?e rs" using assms(2) by (simp add: tee_time_busy_wait_def)
  have nt: "normal t" if "busy_loop t0 ?e rs = Inr (Some t)" for t
    using busy_loop_reading [OF that] n0 ok(2) by auto
  show ?thesis
    using busy_loop_reaches [OF _ _ ok(1)] busy_loop_end nt ok(2) time_lt_iff(1) [OF _ e(1)] e(2) w
    by (metis linorder_not_less)
qed

theorem busy_wait_waits_witness:
  "tee_time_busy_wait 5 [(0, \<lparr>tt_seconds = 1, tt_millis = 998\<rparr>), (0, \<lparr>tt_seconds = 2, tt_millis = 1\<rparr>),
     (0, \<lparr>tt_seconds = 2, tt_millis = 4\<rparr>), (0, \<lparr>tt_seconds = 2, tt_millis = 9\<rparr>)] = Inr (Some \<lparr>tt_seconds = 2, tt_millis = 4\<rparr>)
   \<and> (\<exists>t. tee_time_busy_wait 5 [(0, \<lparr>tt_seconds = 1, tt_millis = 998\<rparr>), (0, \<lparr>tt_seconds = 2, tt_millis = 4\<rparr>)] = Inr (Some t))"
  using busy_wait_waits [of "[(0, \<lparr>tt_seconds = 1, tt_millis = 998\<rparr>), (0, \<lparr>tt_seconds = 2, tt_millis = 4\<rparr>)]"
      "\<lparr>tt_seconds = 1, tt_millis = 998\<rparr>" "[(0, \<lparr>tt_seconds = 2, tt_millis = 4\<rparr>)]" 5]
  by (simp add: tee_time_busy_wait_def normal_def ms_of_def Let_def TEE_TIME_ADD_def TEE_TIME_LT_def)

end
