(* ===== verification/Wait_Queue.thy ===== *)
theory Wait_Queue
  imports Optee_Prelude
begin

text \<open>
  The queue of threads waiting for a mutex or a condition variable, \<open>core/kernel/wait_queue.c\<close>.
  Every access to the list is made under \<open>wq_spin_lock\<close>, so each section between taking and
  releasing it is one function of the list. An element lives on the stack of the thread that waits,
  which waits in one place at a time: within a queue its handle identifies it.
\<close>

section \<open>Elements and operations\<close>

record wait_queue_elem =
  handle :: nat
  we_done :: bool
  wait_read :: bool
  we_cv :: "nat option"

type_synonym wait_queue = "wait_queue_elem list"

definition wq_init :: wait_queue where
  "wq_init = []"

fun slist_add_tail :: "wait_queue \<Rightarrow> wait_queue_elem \<Rightarrow> wait_queue" where
  "slist_add_tail [] wqe = [wqe]"
| "slist_add_tail (e # wq) wqe = e # slist_add_tail wq wqe"

definition wq_wait_init_condvar :: "wait_queue \<Rightarrow> nat \<Rightarrow> nat option \<Rightarrow> bool \<Rightarrow> wait_queue" where
  "wq_wait_init_condvar wq thread cv read =
     slist_add_tail wq \<lparr>handle = thread, we_done = False, wait_read = read, we_cv = cv\<rparr>"

definition wq_wait_init :: "wait_queue \<Rightarrow> nat \<Rightarrow> bool \<Rightarrow> wait_queue" where
  "wq_wait_init wq thread read = wq_wait_init_condvar wq thread None read"

text \<open>The end of a wait, after the normal world has returned for whatever reason.\<close>

definition wq_wait_final :: "wait_queue \<Rightarrow> nat \<Rightarrow> u32 \<times> wait_queue" where
  "wq_wait_final wq thread =
     (if \<exists>e \<in> set wq. handle e = thread \<and> we_done e then TEE_SUCCESS else TEE_ERROR_TIMEOUT,
      filter (\<lambda>e. handle e \<noteq> thread) wq)"

text \<open>
  One pass of the loop of \<open>wq_wake_next\<close>: \<open>wt\<close> is the type of waiter it is waking, none while
  \<open>wake_type_assigned\<close> is false. The result has the handle to notify.
\<close>

fun wake_scan :: "bool option \<Rightarrow> wait_queue \<Rightarrow> wait_queue \<times> nat option \<times> bool option" where
  "wake_scan wt [] = ([], None, wt)"
| "wake_scan wt (wqe # wq) =
     (if we_cv wqe \<noteq> None \<or> we_done wqe then let (wq', h, wt') = wake_scan wt wq in (wqe # wq', h, wt')
      else
        let wake_read = (case wt of None \<Rightarrow> wait_read wqe | Some r \<Rightarrow> r) in
        if wait_read wqe \<noteq> wake_read
        then let (wq', h, wt') = wake_scan (Some wake_read) wq in (wqe # wq', h, wt')
        else (wqe\<lparr>we_done := True\<rparr> # wq, Some (handle wqe), Some wake_read))"

definition undone :: "wait_queue \<Rightarrow> nat" where
  "undone wq = length (filter (\<lambda>e. \<not> we_done e) wq)"

lemma wake_scan_undone: "wake_scan wt wq = (wq', Some h, wt') \<Longrightarrow> undone wq = Suc (undone wq')"
  by (induction wt wq arbitrary: wq' rule: wake_scan.induct) (auto simp: undone_def Let_def split: if_splits prod.splits)

text \<open>The whole loop, and the handles it notifies.\<close>

function wake_loop :: "bool option \<Rightarrow> wait_queue \<Rightarrow> wait_queue \<times> nat list" where
  "wake_loop wt wq = (case wake_scan wt wq of
     (wq', None, _) \<Rightarrow> (wq', [])
   | (wq', Some h, wt') \<Rightarrow>
       if wt' = Some True then let (wq'', hs) = wake_loop wt' wq' in (wq'', h # hs) else (wq', [h]))"
  by pat_completeness auto
termination
  by (relation "measure (\<lambda>(wt, wq). undone wq)") (auto dest!: sym [of _ "wake_scan _ _"] wake_scan_undone)

declare wake_loop.simps [simp del]

definition wq_wake_next :: "wait_queue \<Rightarrow> wait_queue \<times> nat list" where
  "wq_wake_next wq = wake_loop None wq"

fun wq_promote_condvar :: "wait_queue \<Rightarrow> nat option \<Rightarrow> bool \<Rightarrow> wait_queue" where
  "wq_promote_condvar wq None only_one = wq"
| "wq_promote_condvar [] (Some cv) only_one = []"
| "wq_promote_condvar (wqe # wq) (Some cv) only_one =
     (if we_cv wqe = Some cv
      then wqe\<lparr>we_cv := None\<rparr> # (if only_one then wq else wq_promote_condvar wq (Some cv) only_one)
      else wqe # wq_promote_condvar wq (Some cv) only_one)"

fun wq_have_condvar :: "wait_queue \<Rightarrow> nat \<Rightarrow> bool" where
  "wq_have_condvar [] cv = False"
| "wq_have_condvar (wqe # wq) cv = (if we_cv wqe = Some cv then True else wq_have_condvar wq cv)"

definition wq_is_empty :: "wait_queue \<Rightarrow> bool" where
  "wq_is_empty wq = (wq = [])"

section \<open>What the operations do to the queue\<close>

text \<open>A waiter that a wake-up may choose: not parked at a condition variable and not chosen yet.\<close>

definition eligible :: "wait_queue_elem \<Rightarrow> bool" where
  "eligible e \<longleftrightarrow> we_cv e = None \<and> \<not> we_done e"

lemma add_tail [simp]: "slist_add_tail wq e = wq @ [e]"
  by (induction wq) auto

lemma wait_init_simps [simp]:
  "wq_wait_init_condvar wq t cv r = wq @ [\<lparr>handle = t, we_done = False, wait_read = r, we_cv = cv\<rparr>]"
  "wq_wait_init wq t r = wq @ [\<lparr>handle = t, we_done = False, wait_read = r, we_cv = None\<rparr>]"
  by (simp_all add: wq_wait_init_condvar_def wq_wait_init_def)

text \<open>A pass either finds nobody it may wake, or marks the first.\<close>

definition may_wake :: "bool option \<Rightarrow> wait_queue_elem \<Rightarrow> bool" where
  "may_wake wt e \<longleftrightarrow> eligible e \<and> (\<forall>r. wt = Some r \<longrightarrow> wait_read e = r)"

definition woken_first :: "bool option \<Rightarrow> wait_queue \<Rightarrow> wait_queue \<Rightarrow> nat \<Rightarrow> bool option \<Rightarrow> bool" where
  "woken_first wt wq wq' h wt' \<longleftrightarrow> (\<exists>p e q. wq = p @ e # q \<and> may_wake wt e \<and> (\<forall>x \<in> set p. \<not> may_wake wt x) \<and>
     wq' = p @ e\<lparr>we_done := True\<rparr> # q \<and> h = handle e \<and> wt' = Some (wait_read e))"

lemma woken_first_Cons: "woken_first wt wq wq' h wt' \<Longrightarrow> \<not> may_wake wt e \<Longrightarrow> woken_first wt (e # wq) (e # wq') h wt'"
  unfolding woken_first_def by (elim exE conjE, rule_tac x = "e # p" in exI) auto

lemma wake_scan_cases:
  "wake_scan wt wq = (wq', ho, wt') \<Longrightarrow>
   (case ho of None \<Rightarrow> wq' = wq \<and> (\<forall>e \<in> set wq. \<not> may_wake wt e) | Some h \<Rightarrow> woken_first wt wq wq' h wt')"
proof (induction wq arbitrary: wq' ho wt')
  case Nil
  then show ?case by auto
next
  case (Cons e wq)
  obtain wq1 h1 wt1 where r: "wake_scan wt wq = (wq1, h1, wt1)" by (metis prod_cases3)
  show ?case
  proof (cases "may_wake wt e")
    case True
    then have "wake_scan wt (e # wq) = (e\<lparr>we_done := True\<rparr> # wq, Some (handle e), Some (wait_read e))"
      by (cases wt) (auto simp: may_wake_def eligible_def)
    then show ?thesis using Cons.prems True by (auto simp: woken_first_def intro!: exI [of _ "[]"])
  next
    case False
    then have "wake_scan wt (e # wq) = (e # wq1, h1, wt1)"
      using r by (cases wt) (auto simp: may_wake_def eligible_def)
    then show ?thesis
      using Cons.prems Cons.IH [OF r] False by (auto split: option.splits intro: woken_first_Cons)
  qed
qed

lemmas wake_scan_None = wake_scan_cases [where ho = None, simplified]
lemmas wake_scan_Some = wake_scan_cases [where ho = "Some h" for h, simplified]

lemma wake_scan_idle: "\<forall>e \<in> set wq. \<not> may_wake (Some r) e \<Longrightarrow> wake_scan (Some r) wq = (wq, None, Some r)"
  by (induction wq) (auto simp: may_wake_def eligible_def)

text \<open>The specification of the whole loop.\<close>

definition mark :: "(wait_queue_elem \<Rightarrow> bool) \<Rightarrow> wait_queue \<Rightarrow> wait_queue" where
  "mark P = map (\<lambda>e. if P e then e\<lparr>we_done := True\<rparr> else e)"

lemma mark_none: "\<forall>e \<in> set wq. \<not> P e \<Longrightarrow> mark P wq = wq"
  by (simp add: mark_def map_idI)

lemma wake_loop_readers:
  "wake_loop (Some True) wq = (mark (may_wake (Some True)) wq, map handle (filter (may_wake (Some True)) wq))"
proof (induction "undone wq" arbitrary: wq)
  case (0 wq)
  then have "\<forall>e \<in> set wq. we_done e" by (auto simp: undone_def filter_empty_conv)
  then have n: "\<forall>e \<in> set wq. \<not> may_wake (Some True) e" by (auto simp: may_wake_def eligible_def)
  then have "wake_scan (Some True) wq = (wq, None, Some True)" 
    by (rule wake_scan_idle)
  then show ?case using n by (simp add: wake_loop.simps mark_none filter_empty_conv [THEN iffD2])
next
  case (Suc n wq)
  obtain wq' ho wt' where s: "wake_scan (Some True) wq = (wq', ho, wt')" by (metis prod_cases3)
  show ?case
  proof (cases ho)
    case None
    then show ?thesis
      using wake_scan_None [of "Some True" wq wq' wt'] s by (simp add: wake_loop.simps mark_none filter_empty_conv [THEN iffD2])
  next
    case (Some h)
    have s': "wake_scan (Some True) wq = (wq', Some h, wt')" using s Some by simp
    obtain p e q where w: "wq = p @ e # q" "may_wake (Some True) e" "\<forall>x \<in> set p. \<not> may_wake (Some True) x"
      "wq' = p @ e\<lparr>we_done := True\<rparr> # q" "h = handle e" "wt' = Some (wait_read e)"
      using wake_scan_Some [OF s'] unfolding woken_first_def by blast
    have r: "wait_read e" "\<not> may_wake (Some True) (e\<lparr>we_done := True\<rparr>)" using w(2) by (auto simp: may_wake_def eligible_def)
    have "wake_loop (Some True) wq' = (mark (may_wake (Some True)) wq', map handle (filter (may_wake (Some True)) wq'))"
      using Suc wake_scan_undone [OF s'] by simp
    then have "wake_loop (Some True) wq =
        (mark (may_wake (Some True)) wq', handle e # map handle (filter (may_wake (Some True)) wq'))"
      using s' w(5,6) r(1) by (simp add: wake_loop.simps [of "Some True" wq])
    then show ?thesis using w r by (simp add: mark_def filter_empty_conv [THEN iffD2])
  qed
qed

text \<open>
  Claim C39: waking chooses by the first waiter that is neither parked at a condition variable nor
  already woken: when it wants to write, it alone is woken; when it wants to read, all such readers
  are, in the order of the queue; when there is none, nobody is. Exactly the woken elements are
  marked, and the queue is otherwise unchanged.
\<close>

theorem wake_next_exact:
  "wq_wake_next wq = (case filter eligible wq of
     [] \<Rightarrow> (wq, [])
   | e # _ \<Rightarrow>
       if wait_read e
       then (mark (\<lambda>x. eligible x \<and> wait_read x) wq, map handle (filter (\<lambda>x. eligible x \<and> wait_read x) wq))
       else (takeWhile (\<lambda>x. \<not> eligible x) wq @ e\<lparr>we_done := True\<rparr> # tl (dropWhile (\<lambda>x. \<not> eligible x) wq), [handle e]))"
proof -
  obtain wq' ho wt' where s: "wake_scan None wq = (wq', ho, wt')" by (metis prod_cases3)
  have any: "may_wake None = eligible" by (simp add: may_wake_def fun_eq_iff)
  show ?thesis
  proof (cases ho)
    case None
    then have "wq' = wq" "filter eligible wq = []"
      using wake_scan_cases [OF s] by (simp_all add: any filter_empty_conv)
    then show ?thesis using s None by (simp add: wq_wake_next_def wake_loop.simps)
  next
    case (Some h)
    obtain p e q where w: "wq = p @ e # q" "eligible e" "\<forall>x \<in> set p. \<not> eligible x"
      "wq' = p @ e\<lparr>we_done := True\<rparr> # q" "h = handle e" "wt' = Some (wait_read e)"
      using wake_scan_cases [OF s] Some unfolding woken_first_def any by auto
    have f: "filter eligible wq = e # filter eligible q" using w by (simp add: filter_empty_conv [THEN iffD2])
    have p: "takeWhile (\<lambda>x. \<not> eligible x) wq = p" "dropWhile (\<lambda>x. \<not> eligible x) wq = e # q"
      using w by (simp_all add: takeWhile_append2 dropWhile_append2)
    have rd: "may_wake (Some True) = (\<lambda>x. eligible x \<and> wait_read x)" by (auto simp: may_wake_def fun_eq_iff)
    show ?thesis
    proof (cases "wait_read e")
      case True
      have m: "\<not> eligible (e\<lparr>we_done := True\<rparr>)" "filter (\<lambda>x. eligible x \<and> wait_read x) p = []"
        using w(3) by (auto simp: eligible_def filter_empty_conv)
      have "wq_wake_next wq = (mark (may_wake (Some True)) wq', handle e # map handle (filter (may_wake (Some True)) wq'))"
        using s Some w(5,6) True by (simp add: wq_wake_next_def wake_loop.simps [of None] wake_loop_readers)
      then show ?thesis using f m w True by (simp add: rd mark_def)
    next
      case False
      then show ?thesis using s Some w f p by (simp add: wq_wake_next_def wake_loop.simps)
    qed
  qed
qed

end
