(* ===== verification/Mutex.thy ===== *)
theory Mutex
  imports Wait_Queue
begin

text \<open>
  Sleeping mutexes, read-write locks and condition variables, \<open>core/kernel/mutex.c\<close>. The section a
  function runs under the spin lock of the mutex is one function of the state; the threads are
  program counters that run these sections one at a time in any order. A wait for the normal world
  may end at any time, with or without a notification. The checks of the lock-order debugger are not
  built in.
\<close>

section \<open>State\<close>

record mutex =
  m_wq :: wait_queue
  m_state :: int

definition mutex_init :: mutex where
  "mutex_init = \<lparr>m_wq = wq_init, m_state = 0\<rparr>"

text \<open>Storing an \<open>int\<close> in the field of type \<open>short\<close>.\<close>

definition short_of :: "int \<Rightarrow> int" where
  "short_of x = (x + 2 ^ 15) mod 2 ^ 16 - 2 ^ 15"

text \<open>
  Where a thread is: in its own code, about to try for the lock, in the wait for the normal world,
  in the loop that wakes others, or sending a notification. The last two remember whether the thread
  goes to sleep afterwards, which it does from a condition variable.
\<close>

datatype pc =
  Run
| Locking bool
| Asleep bool
| Waking "bool option" "bool option"
| Notifying nat "bool option" "bool option"

datatype hold = Free | Read | Write

text \<open>
  The system of one mutex with the address \<open>mx_addr\<close>: \<open>mx_cv\<close> is the mutex each condition variable
  is linked to, \<open>mx_notified\<close> the notifications the normal world has not delivered yet, and
  \<open>mx_holds\<close> what each thread has been granted.
\<close>

record mx =
  mx_m :: mutex
  mx_addr :: nat
  mx_cv :: "nat \<Rightarrow> nat option"
  mx_pc :: "nat \<Rightarrow> pc"
  mx_notified :: "nat set"
  mx_holds :: "nat \<Rightarrow> hold"

definition goto :: "nat \<Rightarrow> pc \<Rightarrow> mx \<Rightarrow> mx" where
  "goto t p s = s\<lparr>mx_pc := (mx_pc s)(t := p)\<rparr>"

definition granted :: "nat \<Rightarrow> hold \<Rightarrow> mx \<Rightarrow> mx" where
  "granted t h s = s\<lparr>mx_holds := (mx_holds s)(t := h)\<rparr>"

definition with_mutex :: "mutex \<Rightarrow> mx \<Rightarrow> mx" where
  "with_mutex m s = s\<lparr>mx_m := m\<rparr>"

section \<open>Locking\<close>

definition mutex_lock_section :: "nat \<Rightarrow> mutex \<Rightarrow> bool \<times> mutex" where
  "mutex_lock_section t m =
     (let can_lock = (m_state m = 0) in
      (can_lock, if \<not> can_lock then m\<lparr>m_wq := wq_wait_init (m_wq m) t False\<rparr> else m\<lparr>m_state := -1\<rparr>))"

text \<open>The body of the loop of \<open>__mutex_lock\<close>, up to the wait.\<close>

definition mutex_lock_step :: "nat \<Rightarrow> mx \<Rightarrow> mx" where
  "mutex_lock_step t s =
     (let (can_lock, m) = mutex_lock_section t (mx_m s) in
      if \<not> can_lock then goto t (Asleep False) (with_mutex m s)
      else goto t Run (granted t Write (with_mutex m s)))"

definition mutex_read_lock_section :: "nat \<Rightarrow> mutex \<Rightarrow> bool \<times> mutex" where
  "mutex_read_lock_section t m =
     (let can_lock = (m_state m \<noteq> -1) in
      (can_lock, if \<not> can_lock then m\<lparr>m_wq := wq_wait_init (m_wq m) t True\<rparr>
                 else m\<lparr>m_state := short_of (m_state m + 1)\<rparr>))"

definition mutex_read_lock_step :: "nat \<Rightarrow> mx \<Rightarrow> mx" where
  "mutex_read_lock_step t s =
     (let (can_lock, m) = mutex_read_lock_section t (mx_m s) in
      if \<not> can_lock then goto t (Asleep True) (with_mutex m s)
      else goto t Run (granted t Read (with_mutex m s)))"

definition mutex_trylock :: "nat \<Rightarrow> mx \<Rightarrow> bool \<times> mx" where
  "mutex_trylock t s =
     (let can_lock_write = (m_state (mx_m s) = 0) in
      (can_lock_write, if can_lock_write then granted t Write (with_mutex ((mx_m s)\<lparr>m_state := -1\<rparr>) s) else s))"

definition mutex_read_trylock :: "nat \<Rightarrow> mx \<Rightarrow> bool \<times> mx" where
  "mutex_read_trylock t s =
     (let m = mx_m s; can_lock = (m_state m \<noteq> -1) in
      (can_lock, if can_lock then granted t Read (with_mutex (m\<lparr>m_state := short_of (m_state m + 1)\<rparr>) s) else s))"

section \<open>Unlocking and waking\<close>

definition mutex_unlock :: "nat \<Rightarrow> mx \<Rightarrow> mx res" where
  "mutex_unlock t s =
     (if m_state (mx_m s) = 0 then Inl Panic
      else Inr (goto t (Waking None None) (granted t Free (with_mutex ((mx_m s)\<lparr>m_state := 0\<rparr>) s))))"

definition mutex_read_unlock :: "nat \<Rightarrow> mx \<Rightarrow> mx res" where
  "mutex_read_unlock t s =
     (let m = mx_m s in
      if m_state m \<le> 0 then Inl Panic
      else
        let new_state = short_of (m_state m - 1); s' = granted t Free (with_mutex (m\<lparr>m_state := new_state\<rparr>) s) in
        Inr (if new_state = 0 then goto t (Waking None None) s' else s'))"

definition wake_done :: "nat \<Rightarrow> bool option \<Rightarrow> mx \<Rightarrow> mx" where
  "wake_done t bk s = goto t (case bk of None \<Rightarrow> Run | Some r \<Rightarrow> Asleep r) s"

text \<open>One pass of the loop of \<open>wq_wake_next\<close> under the lock, and the notification after it.\<close>

definition wake_step :: "nat \<Rightarrow> bool option \<Rightarrow> bool option \<Rightarrow> mx \<Rightarrow> mx" where
  "wake_step t wt bk s =
     (let (wq, h, wt') = wake_scan wt (m_wq (mx_m s)); s' = with_mutex ((mx_m s)\<lparr>m_wq := wq\<rparr>) s in
      case h of None \<Rightarrow> wake_done t bk s' | Some h \<Rightarrow> goto t (Notifying h wt' bk) s')"

definition do_notif_send :: "nat \<Rightarrow> nat \<Rightarrow> bool option \<Rightarrow> bool option \<Rightarrow> mx \<Rightarrow> mx" where
  "do_notif_send t h wt bk s =
     (let s' = s\<lparr>mx_notified := insert h (mx_notified s)\<rparr> in
      if wt \<noteq> Some True then wake_done t bk s' else goto t (Waking wt bk) s')"

definition do_notif_wait :: "nat \<Rightarrow> bool \<Rightarrow> mx \<Rightarrow> u32 \<times> mx" where
  "do_notif_wait t read s =
     (let (res, wq) = wq_wait_final (m_wq (mx_m s)) t in
      (res, goto t (Locking read) (with_mutex ((mx_m s)\<lparr>m_wq := wq\<rparr>) s\<lparr>mx_notified := mx_notified s - {t}\<rparr>)))"

section \<open>Condition variables\<close>

text \<open>
  The wait up to the sleep; afterwards the thread goes for the lock again in the mode it had. Linking
  the variable and leaving the mutex are two critical sections of the code; nothing that reads the
  link can find the element before it is in the queue.
\<close>

definition condvar_wait_timeout :: "nat \<Rightarrow> nat \<Rightarrow> mx \<Rightarrow> mx res" where
  "condvar_wait_timeout t cv s =
     (let m = mx_m s in
      if mx_cv s cv \<noteq> None \<and> mx_cv s cv \<noteq> Some (mx_addr s) then Inl Panic
      else if m_state m = 0 then Inl Panic
      else
        let old_state = m_state m;
            wq = wq_wait_init_condvar (m_wq m) t (Some cv) (old_state > 0);
            new_state = (if m_state m > 1 then short_of (m_state m - 1) else 0);
            s' = granted t Free (with_mutex \<lparr>m_wq = wq, m_state = new_state\<rparr> s\<lparr>mx_cv := (mx_cv s)(cv \<mapsto> mx_addr s)\<rparr>)
        in Inr (goto t (if new_state = 0 then Waking None (Some (old_state > 0)) else Asleep (old_state > 0)) s'))"

definition cv_signal :: "nat \<Rightarrow> bool \<Rightarrow> mx \<Rightarrow> mx" where
  "cv_signal cv only_one s =
     (if mx_cv s cv = Some (mx_addr s)
      then with_mutex ((mx_m s)\<lparr>m_wq := wq_promote_condvar (m_wq (mx_m s)) (Some cv) only_one\<rparr>) s else s)"

definition condvar_init :: "nat \<Rightarrow> mx \<Rightarrow> mx" where
  "condvar_init cv s = s\<lparr>mx_cv := (mx_cv s)(cv := None)\<rparr>"

definition condvar_destroy :: "nat \<Rightarrow> mx \<Rightarrow> mx res" where
  "condvar_destroy cv s =
     (if mx_cv s cv = Some (mx_addr s) \<and> wq_have_condvar (m_wq (mx_m s)) cv then Inl Panic
      else Inr (condvar_init cv s))"

definition mutex_destroy :: "mutex \<Rightarrow> unit res" where
  "mutex_destroy m =
     (if m_state m \<noteq> 0 then Inl Panic else if \<not> wq_is_empty (m_wq m) then Inl Panic else Inr ())"

definition mutex_is_locked :: "mutex \<Rightarrow> bool" where
  "mutex_is_locked m = (m_state m = -1)"

section \<open>Threads\<close>

datatype call =
  Mutex_lock
| Mutex_read_lock
| Mutex_trylock
| Mutex_read_trylock
| Mutex_unlock
| Mutex_read_unlock
| Condvar_wait nat
| Condvar_signal nat
| Condvar_broadcast nat
| Condvar_destroy nat

fun mx_call :: "nat \<Rightarrow> call \<Rightarrow> mx \<Rightarrow> mx res" where
  "mx_call t Mutex_lock s = Inr (goto t (Locking False) s)"
| "mx_call t Mutex_read_lock s = Inr (goto t (Locking True) s)"
| "mx_call t Mutex_trylock s = Inr (snd (mutex_trylock t s))"
| "mx_call t Mutex_read_trylock s = Inr (snd (mutex_read_trylock t s))"
| "mx_call t Mutex_unlock s = mutex_unlock t s"
| "mx_call t Mutex_read_unlock s = mutex_read_unlock t s"
| "mx_call t (Condvar_wait cv) s = condvar_wait_timeout t cv s"
| "mx_call t (Condvar_signal cv) s = Inr (cv_signal cv True s)"
| "mx_call t (Condvar_broadcast cv) s = Inr (cv_signal cv False s)"
| "mx_call t (Condvar_destroy cv) s = condvar_destroy cv s"

text \<open>
  The callers' side: a thread takes the lock when it does not have it and releases or waits with
  what it has. With \<open>strict\<close>, condition variables are signalled by a thread that has the lock.
\<close>

fun may_call :: "bool \<Rightarrow> call \<Rightarrow> hold \<Rightarrow> bool" where
  "may_call strict Mutex_unlock h = (h = Write)"
| "may_call strict Mutex_read_unlock h = (h = Read)"
| "may_call strict (Condvar_wait cv) h = (h \<noteq> Free)"
| "may_call strict (Condvar_signal cv) h = (strict \<longrightarrow> h \<noteq> Free)"
| "may_call strict (Condvar_broadcast cv) h = (strict \<longrightarrow> h \<noteq> Free)"
| "may_call strict (Condvar_destroy cv) h = True"
| "may_call strict c h = (h = Free)"

definition mx_section :: "nat \<Rightarrow> mx \<Rightarrow> mx" where
  "mx_section t s = (case mx_pc s t of
     Run \<Rightarrow> s
   | Locking read \<Rightarrow> if read then mutex_read_lock_step t s else mutex_lock_step t s
   | Asleep read \<Rightarrow> snd (do_notif_wait t read s)
   | Waking wt bk \<Rightarrow> wake_step t wt bk s
   | Notifying h wt bk \<Rightarrow> do_notif_send t h wt bk s)"

text \<open>A step of one of \<open>n\<close> threads.\<close>

inductive mx_step :: "bool \<Rightarrow> nat \<Rightarrow> mx \<Rightarrow> mx \<Rightarrow> bool" for strict n where
  call: "t < n \<Longrightarrow> mx_pc s t = Run \<Longrightarrow> may_call strict c (mx_holds s t) \<Longrightarrow> mx_call t c s = Inr s' \<Longrightarrow> mx_step strict n s s'"
| run: "t < n \<Longrightarrow> mx_pc s t \<noteq> Run \<Longrightarrow> mx_step strict n s (mx_section t s)"

definition mx_start :: "nat \<Rightarrow> mx" where
  "mx_start addr = \<lparr>mx_m = mutex_init, mx_addr = addr, mx_cv = (\<lambda>_. None), mx_pc = (\<lambda>_. Run), mx_notified = {},
     mx_holds = (\<lambda>_. Free)\<rparr>"

section \<open>Exclusion\<close>

definition hold_ok :: "nat \<Rightarrow> (nat \<Rightarrow> hold) \<Rightarrow> int \<Rightarrow> bool" where
  "hold_ok n h st \<longleftrightarrow> (\<forall>t. h t \<noteq> Free \<longrightarrow> t < n) \<and> (\<forall>t u. h t = Write \<longrightarrow> h u \<noteq> Free \<longrightarrow> u = t) \<and>
     st = (if \<exists>t. h t = Write then -1 else int (card {t. h t = Read}))"

lemma readers_bounded:
  assumes "\<forall>t. h t \<noteq> Free \<longrightarrow> t < n"
  shows "finite {t. h t = Read}" "card {t. h t = Read} \<le> n"
proof -
  have "{t. h t = Read} \<subseteq> {..<n}" using assms by force
  then show "finite {t. h t = Read}" "card {t. h t = Read} \<le> n"
    using finite_subset card_mono [of "{..<n}"] by auto
qed

lemma hold_ok_free: "hold_ok n h 0 \<Longrightarrow> h t = Free"
  using readers_bounded(1) [of h n] by (cases "h t") (auto simp: hold_ok_def split: if_splits)

lemma hold_ok_range: "hold_ok n h st \<Longrightarrow> -1 \<le> st \<and> st \<le> int n"
  using readers_bounded(2) [of h n] by (auto simp: hold_ok_def)

lemma hold_ok_write:
  assumes "hold_ok n h 0" "t < n"
  shows "hold_ok n (h(t := Write)) (-1)"
proof -
  have "\<forall>u. h u = Free" using hold_ok_free [OF assms(1)] by blast
  then show ?thesis using assms(2) by (auto simp: hold_ok_def)
qed

lemma hold_ok_readers:
  "\<forall>u. h u \<noteq> Write \<Longrightarrow> \<forall>u. h u \<noteq> Free \<longrightarrow> u < n \<Longrightarrow> st = int (card {u. h u = Read}) \<Longrightarrow> hold_ok n h st"
  by (simp add: hold_ok_def)

lemma hold_okD: "hold_ok n h st \<Longrightarrow> \<forall>u. h u \<noteq> Free \<longrightarrow> u < n"
  by (simp add: hold_ok_def)

lemma hold_ok_read:
  assumes "hold_ok n h st" "st \<noteq> -1" "h t = Free" "t < n"
  shows "hold_ok n (h(t := Read)) (st + 1)"
proof -
  have nw: "\<forall>u. h u \<noteq> Write" using assms(1,2) unfolding hold_ok_def by metis
  then have st: "st = int (card {u. h u = Read})" using assms(1) by (simp add: hold_ok_def)
  have "{u. (h(t := Read)) u = Read} = insert t {u. h u = Read}" by auto
  moreover have "t \<notin> {u. h u = Read}" using assms(3) by simp
  moreover have "finite {u. h u = Read}" by (rule readers_bounded(1) [OF hold_okD [OF assms(1)]])
  ultimately have "card {u. (h(t := Read)) u = Read} = Suc (card {u. h u = Read})" by simp
  then show ?thesis using assms(4) nw st hold_okD [OF assms(1)] by (intro hold_ok_readers) simp_all
qed

lemma hold_ok_unwrite: "hold_ok n h st \<Longrightarrow> h t = Write \<Longrightarrow> st = -1 \<and> hold_ok n (h(t := Free)) 0"
proof -
  assume a: "hold_ok n h st" "h t = Write"
  then have "\<forall>u. u \<noteq> t \<longrightarrow> h u = Free" unfolding hold_ok_def by metis
  then have "\<forall>u. (h(t := Free)) u = Free" by simp
  then have "hold_ok n (h(t := Free)) 0" by (intro hold_ok_readers) simp_all
  moreover have "st = -1" using a unfolding hold_ok_def by metis
  ultimately show "st = -1 \<and> hold_ok n (h(t := Free)) 0" by simp
qed

lemma hold_ok_unread:
  assumes "hold_ok n h st" "h t = Read"
  shows "0 < st" "hold_ok n (h(t := Free)) (st - 1)"
proof -
  have excl: "\<forall>t u. h t = Write \<longrightarrow> h u \<noteq> Free \<longrightarrow> u = t" using assms(1) by (simp add: hold_ok_def)
  have nw: "\<forall>u. h u \<noteq> Write"
  proof
    fix u show "h u \<noteq> Write" using excl [rule_format, of u t] assms(2) by auto
  qed
  then have st: "st = int (card {u. h u = Read})" using assms(1) by (simp add: hold_ok_def)
  have fin: "finite {u. h u = Read}" by (rule readers_bounded(1) [OF hold_okD [OF assms(1)]])
  have t: "t \<in> {u. h u = Read}" using assms(2) by simp
  have "{u. (h(t := Free)) u = Read} = {u. h u = Read} - {t}" by auto
  then have c: "card {u. (h(t := Free)) u = Read} = card {u. h u = Read} - 1" using fin t by simp
  have "card {u. h u = Read} \<noteq> 0" using fin t by auto
  then have "0 < card {u. h u = Read}" by simp
  then show "0 < st" "hold_ok n (h(t := Free)) (st - 1)"
    using nw st c hold_okD [OF assms(1)] by (simp, intro hold_ok_readers) (simp_all del: fun_upd_apply add: of_nat_diff, simp_all)
qed

lemma short_id: "-1 \<le> x \<Longrightarrow> x \<le> 32767 \<Longrightarrow> short_of x = x"
  by (simp add: short_of_def)

text \<open>A thread whose element is in the queue.\<close>

fun queued :: "pc \<Rightarrow> bool" where
  "queued (Asleep r) = True"
| "queued (Waking wt bk) = (bk \<noteq> None)"
| "queued (Notifying h wt bk) = (bk \<noteq> None)"
| "queued p = False"

definition mx_inv :: "nat \<Rightarrow> mx \<Rightarrow> bool" where
  "mx_inv n s \<longleftrightarrow> hold_ok n (mx_holds s) (m_state (mx_m s)) \<and> (\<forall>t. mx_holds s t \<noteq> Free \<longrightarrow> mx_pc s t = Run) \<and>
     distinct (map handle (m_wq (mx_m s))) \<and> handle ` set (m_wq (mx_m s)) = {t. queued (mx_pc s t)}"

lemma promote_handles [simp]: "map handle (wq_promote_condvar wq cv b) = map handle wq"
  by (induction wq cv b rule: wq_promote_condvar.induct) auto

lemma scan_handles: "wake_scan wt wq = (wq', h, wt') \<Longrightarrow> map handle wq' = map handle wq"
  using wake_scan_cases [of wt wq wq' h wt'] by (auto simp: woken_first_def split: option.splits)

lemma promote_handle_set [simp]: "handle ` set (wq_promote_condvar wq cv b) = handle ` set wq"
  using promote_handles [of wq cv b] by (metis list.set_map)

lemmas mx_defs = goto_def granted_def with_mutex_def

text \<open>What every step is: one thread moves, its grant may change, and its element may come or go.\<close>

lemma mx_inv_move:
  assumes "mx_inv n s" "mx_pc s' = (mx_pc s)(t := p)" "mx_holds s' = (mx_holds s)(t := h)"
    and "hold_ok n ((mx_holds s)(t := h)) (m_state (mx_m s'))" "h = Free \<or> p = Run" "distinct (map handle (m_wq (mx_m s')))"
    and "handle ` set (m_wq (mx_m s')) =
      (if queued p then insert t (handle ` set (m_wq (mx_m s))) else handle ` set (m_wq (mx_m s)) - {t})"
  shows "mx_inv n s'"
proof -
  have "handle ` set (m_wq (mx_m s)) = {u. queued (mx_pc s u)}" using assms(1) by (simp add: mx_inv_def)
  then have "handle ` set (m_wq (mx_m s')) = {u. queued (mx_pc s' u)}" using assms(2,7) by auto
  moreover have "\<forall>u. mx_holds s' u \<noteq> Free \<longrightarrow> mx_pc s' u = Run" using assms(1,2,3,5) by (auto simp: mx_inv_def)
  ultimately show ?thesis using assms(3,4,6) by (simp add: mx_inv_def)
qed

lemma mx_invD:
  assumes "mx_inv n s"
  shows "hold_ok n (mx_holds s) (m_state (mx_m s))" "distinct (map handle (m_wq (mx_m s)))"
    "mx_pc s t \<noteq> Run \<Longrightarrow> mx_holds s t = Free" "t \<in> handle ` set (m_wq (mx_m s)) \<longleftrightarrow> queued (mx_pc s t)"
    "-1 \<le> m_state (mx_m s)" "m_state (mx_m s) \<le> int n"
  using assms hold_ok_range unfolding mx_inv_def by blast+

lemma cv_signal_inv: "mx_inv n s \<Longrightarrow> mx_inv n (cv_signal cv b s)"
  by (simp add: cv_signal_def mx_inv_def mx_defs)

lemma mx_call_inv:
  assumes inv: "mx_inv n s" and t: "t < n" "n < 32767" and run: "mx_pc s t = Run"
    and may: "may_call strict c (mx_holds s t)" and c: "mx_call t c s = Inr s'"
  shows "mx_inv n s'"
proof -
  note D = mx_invD [OF inv]
  have q: "t \<notin> handle ` set (m_wq (mx_m s))" using D(4) run by simp
  have free: "mx_holds s t = Free \<Longrightarrow> hold_ok n ((mx_holds s)(t := Free)) (m_state (mx_m s))"
    using D(1) by (simp add: fun_upd_idem)
  have short: "short_of (m_state (mx_m s) + 1) = m_state (mx_m s) + 1" using D(5,6) t(2) by (intro short_id) auto
  show ?thesis
  proof (cases c)
    case Mutex_lock
    show ?thesis
      by (rule mx_inv_move [OF inv, of _ t "Locking False" Free]) (use Mutex_lock c may D(1,2) q free in \<open>auto simp: mx_defs fun_upd_idem\<close>)
  next
    case Mutex_read_lock
    show ?thesis
      by (rule mx_inv_move [OF inv, of _ t "Locking True" Free]) (use Mutex_read_lock c may D(1,2) q free in \<open>auto simp: mx_defs fun_upd_idem\<close>)
  next
    case Mutex_trylock
    show ?thesis
    proof (cases "m_state (mx_m s) = 0")
      case True
      show ?thesis
        by (rule mx_inv_move [OF inv, of _ t Run Write])
          (use True Mutex_trylock c D(1,2) q run t hold_ok_write in \<open>auto simp: mutex_trylock_def mx_defs\<close>)
    qed (use Mutex_trylock c inv in \<open>simp add: mutex_trylock_def\<close>)
  next
    case Mutex_read_trylock
    show ?thesis
    proof (cases "m_state (mx_m s) = -1")
      case False
      show ?thesis
        by (rule mx_inv_move [OF inv, of _ t Run Read])
          (use False Mutex_read_trylock c may D(1,2) q run t short hold_ok_read in \<open>auto simp: mutex_read_trylock_def mx_defs Let_def\<close>)
    qed (use Mutex_read_trylock c inv in \<open>simp add: mutex_read_trylock_def Let_def\<close>)
  next
    case Mutex_unlock
    show ?thesis
      by (rule mx_inv_move [OF inv, of _ t "Waking None None" Free])
        (use Mutex_unlock c may D(1,2) q hold_ok_unwrite [OF D(1)] in \<open>auto simp: mutex_unlock_def mx_defs split: if_splits\<close>)
  next
    case Mutex_read_unlock
    have r: "mx_holds s t = Read" using may Mutex_read_unlock by simp
    note R = hold_ok_unread [OF D(1) r]
    have "short_of (m_state (mx_m s) - 1) = m_state (mx_m s) - 1" using D(6) t(2) R(1) by (intro short_id) auto
    then show ?thesis
      by (intro mx_inv_move [OF inv, of _ t "if m_state (mx_m s) = 1 then Waking None None else Run" Free])
        (use Mutex_read_unlock c D(1,2) q R run in \<open>auto simp: mutex_read_unlock_def mx_defs Let_def split: if_splits\<close>)
  next
    case (Condvar_wait cv)
    let ?r = "m_state (mx_m s) > 0"
    have ns: "(if m_state (mx_m s) > 1 then short_of (m_state (mx_m s) - 1) else 0) = (if ?r then m_state (mx_m s) - 1 else 0)"
      using D(6) t(2) by (auto intro: short_id)
    have h: "hold_ok n ((mx_holds s)(t := Free)) (if ?r then m_state (mx_m s) - 1 else 0)"
      using may Condvar_wait hold_ok_unwrite [OF D(1), of t] hold_ok_unread [OF D(1), of t] by (cases "mx_holds s t") auto
    show ?thesis
      by (rule mx_inv_move [OF inv, of _ t "if (if ?r then m_state (mx_m s) - 1 else 0) = 0 then Waking None (Some ?r) else Asleep ?r" Free])
        (use Condvar_wait c D(1,2) q h ns in \<open>auto simp: condvar_wait_timeout_def mx_defs Let_def split: if_splits\<close>)
  next
    case (Condvar_destroy cv)
    then show ?thesis using c inv by (auto simp: condvar_destroy_def condvar_init_def mx_inv_def split: if_splits)
  qed (use c cv_signal_inv [OF inv] in auto)
qed

lemma mx_section_inv:
  assumes inv: "mx_inv n s" and t: "t < n" "n < 32767" and run: "mx_pc s t \<noteq> Run"
  shows "mx_inv n (mx_section t s)"
proof -
  note D = mx_invD [OF inv]
  have free: "mx_holds s t = Free" using D(3) run by simp
  have h: "hold_ok n ((mx_holds s)(t := Free)) (m_state (mx_m s))" using D(1) free by (simp add: fun_upd_idem)
  show ?thesis
  proof (cases "mx_pc s t")
    case Run
    then show ?thesis using run by simp
  next
    case (Locking r)
    then have q: "t \<notin> handle ` set (m_wq (mx_m s))" using D(4) by simp
    have short: "short_of (m_state (mx_m s) + 1) = m_state (mx_m s) + 1" using D(5,6) t(2) by (intro short_id) auto
    show ?thesis
    proof (cases "if r then m_state (mx_m s) \<noteq> -1 else m_state (mx_m s) = 0")
      case True
      show ?thesis
        by (rule mx_inv_move [OF inv, of _ t Run "if r then Read else Write"])
          (use True Locking D(1,2) q t free short hold_ok_read [OF D(1)] hold_ok_write in \<open>auto simp: mx_section_def mutex_lock_step_def
            mutex_read_lock_step_def mutex_lock_section_def mutex_read_lock_section_def mx_defs split: if_splits\<close>)
    next
      case False
      show ?thesis
        by (rule mx_inv_move [OF inv, of _ t "Asleep r" Free])
          (use False Locking D(1,2) q h free in \<open>auto simp: mx_section_def mutex_lock_step_def mutex_read_lock_step_def
            mutex_lock_section_def mutex_read_lock_section_def mx_defs fun_upd_idem split: if_splits\<close>)
    qed
  next
    case (Asleep r)
    show ?thesis
      by (rule mx_inv_move [OF inv, of _ t "Locking r" Free])
        (use Asleep D(1,2) h free in \<open>auto simp: mx_section_def do_notif_wait_def wq_wait_final_def mx_defs fun_upd_idem distinct_map_filter\<close>)
  next
    case (Waking wt bk)
    obtain wq' ho wt' where w: "wake_scan wt (m_wq (mx_m s)) = (wq', ho, wt')" by (metis prod_cases3)
    have hs: "map handle wq' = map handle (m_wq (mx_m s))" by (rule scan_handles [OF w])
    have hset: "handle ` set wq' = handle ` set (m_wq (mx_m s))" using hs by (metis list.set_map)
    have q: "t \<in> handle ` set (m_wq (mx_m s)) \<longleftrightarrow> bk \<noteq> None" using D(4) Waking by simp
    define p where "p = (case ho of None \<Rightarrow> (case bk of None \<Rightarrow> Run | Some r \<Rightarrow> Asleep r) | Some h \<Rightarrow> Notifying h wt' bk)"
    have sec: "mx_section t s = goto t p (with_mutex ((mx_m s)\<lparr>m_wq := wq'\<rparr>) s)"
      using Waking w by (simp add: mx_section_def wake_step_def wake_done_def p_def split: option.split)
    have "queued p \<longleftrightarrow> bk \<noteq> None" by (simp add: p_def split: option.split)
    then show ?thesis
      by (intro mx_inv_move [OF inv, of _ t p Free])
        (use D(1,2) free hs hset q in \<open>auto simp: sec mx_defs fun_upd_idem\<close>)
  next
    case (Notifying hd wt bk)
    have q: "t \<in> handle ` set (m_wq (mx_m s)) \<longleftrightarrow> bk \<noteq> None" using D(4) Notifying by simp
    show ?thesis
      by (rule mx_inv_move [OF inv, of _ t "if wt \<noteq> Some True then (case bk of None \<Rightarrow> Run | Some r \<Rightarrow> Asleep r) else Waking wt bk" Free])
        (use Notifying D(1,2) h free q in \<open>auto simp: mx_section_def do_notif_send_def wake_done_def mx_defs fun_upd_idem Let_def split: option.splits\<close>)
  qed
qed

section \<open>Wake-ups\<close>

text \<open>A thread that will try for the lock, or will look for somebody to wake.\<close>

fun will_look :: "pc \<Rightarrow> bool" where
  "will_look (Locking r) = True"
| "will_look (Waking wt bk) = (wt = None)"
| "will_look p = False"

definition told :: "mx \<Rightarrow> nat \<Rightarrow> bool" where
  "told s t \<longleftrightarrow> t \<in> mx_notified s \<or> (\<exists>u wt bk. mx_pc s u = Notifying t wt bk)"

definition mx_live :: "nat \<Rightarrow> mx \<Rightarrow> bool" where
  "mx_live n s \<longleftrightarrow> (\<forall>t. mx_pc s t \<noteq> Run \<longrightarrow> t < n) \<and> (\<forall>e \<in> set (m_wq (mx_m s)). we_done e \<longrightarrow> told s (handle e)) \<and>
     (m_state (mx_m s) = 0 \<longrightarrow> (\<exists>e \<in> set (m_wq (mx_m s)). eligible e) \<longrightarrow>
        (\<exists>t. will_look (mx_pc s t)) \<or> (\<exists>e \<in> set (m_wq (mx_m s)). we_done e))"

lemma told_move:
  assumes "told s u" "mx_pc s' = (mx_pc s)(t := p)" "mx_notified s - {t} \<subseteq> mx_notified s'"
    and "\<And>h wt bk. mx_pc s t = Notifying h wt bk \<Longrightarrow> h \<in> mx_notified s'" "u \<noteq> t \<or> mx_notified s \<subseteq> mx_notified s'"
  shows "told s' u"
proof (cases "u \<in> mx_notified s")
  case True
  then have "u \<in> mx_notified s'" using assms(3,5) by blast
  then show ?thesis by (simp add: told_def)
next
  case False
  then obtain v wt bk where v: "mx_pc s v = Notifying u wt bk" using assms(1) by (auto simp: told_def)
  show ?thesis
  proof (cases "v = t")
    case True
    then show ?thesis using assms(4) v by (simp add: told_def)
  next
    case False
    then have "mx_pc s' v = Notifying u wt bk" using assms(2) v by simp
    then show ?thesis unfolding told_def by blast
  qed
qed

lemma live_move:
  assumes "mx_live n s" "t < n" "mx_pc s' = (mx_pc s)(t := p)"
    and "\<forall>e \<in> set (m_wq (mx_m s')). we_done e \<longrightarrow> told s' (handle e)"
    and "m_state (mx_m s') \<noteq> 0 \<or> will_look p \<or>
      (m_state (mx_m s) = 0 \<and> \<not> will_look (mx_pc s t) \<and> m_wq (mx_m s') = m_wq (mx_m s)) \<or>
      (\<exists>e \<in> set (m_wq (mx_m s')). we_done e) \<or> (\<forall>e \<in> set (m_wq (mx_m s')). \<not> eligible e)"
  shows "mx_live n s'"
proof -
  have "\<forall>u. mx_pc s' u \<noteq> Run \<longrightarrow> u < n" using assms(1,2,3) by (auto simp: mx_live_def)
  moreover have "(\<exists>u. will_look (mx_pc s' u)) \<or> (\<exists>e \<in> set (m_wq (mx_m s')). we_done e)"
    if free: "m_state (mx_m s') = 0" and el: "\<exists>e \<in> set (m_wq (mx_m s')). eligible e"
  proof -
    consider "will_look p" | "\<exists>e \<in> set (m_wq (mx_m s')). we_done e"
      | "m_state (mx_m s) = 0" "\<not> will_look (mx_pc s t)" "m_wq (mx_m s') = m_wq (mx_m s)"
      using assms(5) free el by blast
    then show ?thesis
    proof cases
      case 1
      then have "will_look (mx_pc s' t)" using assms(3) by simp
      then show ?thesis by blast
    next
      case 3
      then have "(\<exists>u. will_look (mx_pc s u)) \<or> (\<exists>e \<in> set (m_wq (mx_m s)). we_done e)"
        using assms(1) el unfolding mx_live_def by simp
      moreover have "will_look (mx_pc s' u)" if "will_look (mx_pc s u)" for u using that 3(2) assms(3) by (cases "u = t") auto
      ultimately show ?thesis using 3(3) by auto
    qed blast
  qed
  ultimately show ?thesis using assms(4) unfolding mx_live_def by blast
qed

lemma promote_elem:
  "e \<in> set (wq_promote_condvar wq cv b) \<Longrightarrow> \<exists>e' \<in> set wq. handle e' = handle e \<and> we_done e' = we_done e"
  by (induction wq cv b rule: wq_promote_condvar.induct) (auto split: if_splits)

lemma live_same:
  assumes "mx_live n s" "t < n" "m_wq (mx_m s') = m_wq (mx_m s)" "mx_pc s' = (mx_pc s)(t := p)" "mx_notified s' = mx_notified s"
    and "mx_pc s t = Run" "m_state (mx_m s') \<noteq> 0 \<or> will_look p \<or> m_state (mx_m s) = 0"
  shows "mx_live n s'"
proof (rule live_move [OF assms(1,2,4)])
  show "\<forall>e \<in> set (m_wq (mx_m s')). we_done e \<longrightarrow> told s' (handle e)"
    using assms told_move [of s _ s' t p] unfolding mx_live_def by auto
qed (use assms in auto)

lemma cv_signal_live:
  assumes live: "mx_live n s" and inv: "mx_inv n s" and h: "mx_holds s t \<noteq> Free"
  shows "mx_live n (cv_signal cv b s)"
proof -
  have "m_state (mx_m s) \<noteq> 0" using hold_ok_free mx_invD(1) [OF inv] h by metis
  moreover have "told (cv_signal cv b s) = told s" by (simp add: fun_eq_iff told_def cv_signal_def mx_defs)
  ultimately show ?thesis
    using live promote_elem [of _ "m_wq (mx_m s)" "Some cv" b]
    unfolding mx_live_def cv_signal_def mx_defs by (simp split: if_split) metis
qed

lemma mx_call_live:
  assumes live: "mx_live n s" and inv: "mx_inv n s" and t: "t < n" "n < 32767" and run: "mx_pc s t = Run"
    and may: "may_call True c (mx_holds s t)" and c: "mx_call t c s = Inr s'"
  shows "mx_live n s'"
proof -
  note D = mx_invD [OF inv]
  have short: "m_state (mx_m s) \<noteq> -1 \<Longrightarrow> short_of (m_state (mx_m s) + 1) \<noteq> 0"
    using D(5,6) t(2) short_id [of "m_state (mx_m s) + 1"] by auto
  have idle: "(mx_pc s)(t := Run) = mx_pc s" using run by (simp add: fun_upd_idem)
  note same = live_same [OF live t(1) _ _ _ run]
  show ?thesis
  proof (cases c)
    case Mutex_lock
    show ?thesis by (rule same [of _ "Locking False"]) (use Mutex_lock c in \<open>auto simp: mx_defs\<close>)
  next
    case Mutex_read_lock
    show ?thesis by (rule same [of _ "Locking True"]) (use Mutex_read_lock c in \<open>auto simp: mx_defs\<close>)
  next
    case Mutex_trylock
    show ?thesis
      by (cases "m_state (mx_m s) = 0"; rule same [of _ Run]) (use Mutex_trylock c idle in \<open>auto simp: mutex_trylock_def mx_defs Let_def\<close>)
  next
    case Mutex_read_trylock
    show ?thesis
      by (cases "m_state (mx_m s) = -1"; rule same [of _ Run]) (use Mutex_read_trylock c idle short in \<open>auto simp: mutex_read_trylock_def mx_defs Let_def\<close>)
  next
    case Mutex_unlock
    show ?thesis
      by (rule same [of _ "Waking None None"]) (use Mutex_unlock c in \<open>auto simp: mutex_unlock_def mx_defs split: if_splits\<close>)
  next
    case Mutex_read_unlock
    show ?thesis
      by (rule same [of _ "if short_of (m_state (mx_m s) - 1) = 0 then Waking None None else Run"])
        (use Mutex_read_unlock c idle in \<open>auto simp: mutex_read_unlock_def mx_defs Let_def split: if_splits\<close>)
  next
    case (Condvar_wait cv)
    let ?r = "m_state (mx_m s) > 0" and ?ns = "if m_state (mx_m s) > 1 then short_of (m_state (mx_m s) - 1) else 0"
    let ?p = "if ?ns = 0 then Waking None (Some ?r) else Asleep ?r"
    have s': "mx_pc s' = (mx_pc s)(t := ?p)" "m_state (mx_m s') = ?ns" "mx_notified s' = mx_notified s"
      "m_wq (mx_m s') = m_wq (mx_m s) @ [\<lparr>handle = t, we_done = False, wait_read = ?r, we_cv = Some cv\<rparr>]"
      using Condvar_wait c by (auto simp: condvar_wait_timeout_def mx_defs Let_def split: if_splits)
    show ?thesis
    proof (rule live_move [OF live t(1) s'(1)])
      show "\<forall>e \<in> set (m_wq (mx_m s')). we_done e \<longrightarrow> told s' (handle e)"
        using live told_move [of s _ s' t ?p] s'(1,3,4) run unfolding mx_live_def by auto
    qed (use s'(2) in auto)
  next
    case (Condvar_signal cv)
    then show ?thesis using c may cv_signal_live [OF live inv] by auto
  next
    case (Condvar_broadcast cv)
    then show ?thesis using c may cv_signal_live [OF live inv] by auto
  next
    case (Condvar_destroy cv)
    then show ?thesis using c live by (auto simp: condvar_destroy_def condvar_init_def mx_live_def told_def split: if_splits)
  qed
qed

lemma mx_section_live:
  assumes live: "mx_live n s" and inv: "mx_inv n s" and t: "t < n" "n < 32767" and run: "mx_pc s t \<noteq> Run"
  shows "mx_live n (mx_section t s)"
proof (cases "mx_pc s t")
  case Run
  then show ?thesis using run by simp
next
  case (Locking r)
  note D = mx_invD [OF inv]
  have short: "m_state (mx_m s) \<noteq> -1 \<Longrightarrow> short_of (m_state (mx_m s) + 1) \<noteq> 0"
    using D(5,6) t(2) short_id [of "m_state (mx_m s) + 1"] by auto
  let ?s' = "mx_section t s"
  let ?can = "if r then m_state (mx_m s) \<noteq> -1 else m_state (mx_m s) = 0"
  let ?p = "if ?can then Run else Asleep r"
  let ?e = "\<lparr>handle = t, we_done = False, wait_read = r, we_cv = None\<rparr>"
  have s': "mx_pc ?s' = (mx_pc s)(t := ?p)" "m_state (mx_m ?s') \<noteq> 0" "mx_notified ?s' = mx_notified s"
    "m_wq (mx_m ?s') = (if ?can then m_wq (mx_m s) else m_wq (mx_m s) @ [?e])"
    using Locking short
    by (cases r; cases ?can; simp add: mx_section_def mutex_lock_step_def mutex_read_lock_step_def
      mutex_lock_section_def mutex_read_lock_section_def mx_defs)+
  show ?thesis
  proof (rule live_move [OF live t(1) s'(1)])
    show "\<forall>e \<in> set (m_wq (mx_m ?s')). we_done e \<longrightarrow> told ?s' (handle e)"
      using live told_move [of s _ ?s' t ?p] s'(1,3,4) Locking unfolding mx_live_def by (auto split: if_splits)
  qed (use s'(2) in auto)
next
  case (Asleep r)
  let ?s' = "mx_section t s"
  have s': "mx_pc ?s' = (mx_pc s)(t := Locking r)" "mx_notified ?s' = mx_notified s - {t}"
    "m_wq (mx_m ?s') = filter (\<lambda>e. handle e \<noteq> t) (m_wq (mx_m s))"
    using Asleep by (simp_all add: mx_section_def do_notif_wait_def wq_wait_final_def mx_defs)
  show ?thesis
  proof (rule live_move [OF live t(1) s'(1)])
    show "\<forall>e \<in> set (m_wq (mx_m ?s')). we_done e \<longrightarrow> told ?s' (handle e)"
      using live told_move [of s _ ?s' t "Locking r"] s' Asleep unfolding mx_live_def by auto
  qed simp
next
  case (Waking wt bk)
  let ?s' = "mx_section t s"
  obtain wq' ho wt' where w: "wake_scan wt (m_wq (mx_m s)) = (wq', ho, wt')" by (metis prod_cases3)
  show ?thesis
  proof (cases ho)
    case None
    let ?p = "case bk of None \<Rightarrow> Run | Some r \<Rightarrow> Asleep r"
    have wq: "wq' = m_wq (mx_m s)" "\<forall>e \<in> set (m_wq (mx_m s)). \<not> may_wake wt e" using wake_scan_cases [OF w] None by simp_all
    have s': "mx_pc ?s' = (mx_pc s)(t := ?p)" "mx_notified ?s' = mx_notified s" "mx_m ?s' = mx_m s"
      using Waking w None wq(1) by (simp_all add: mx_section_def wake_step_def wake_done_def mx_defs)
    have "wt = None \<Longrightarrow> \<forall>e \<in> set (m_wq (mx_m s)). \<not> eligible e" using wq(2) by (simp add: may_wake_def)
    moreover have "\<forall>e \<in> set (m_wq (mx_m ?s')). we_done e \<longrightarrow> told ?s' (handle e)"
      using live told_move [of s _ ?s' t ?p] s' Waking unfolding mx_live_def by auto
    ultimately show ?thesis
      by (intro live_move [OF live t(1) s'(1)]) (use s'(3) Waking in auto)
  next
    case (Some h)
    have s': "mx_pc ?s' = (mx_pc s)(t := Notifying h wt' bk)" "mx_notified ?s' = mx_notified s" "m_wq (mx_m ?s') = wq'"
      using Waking w Some by (simp_all add: mx_section_def wake_step_def mx_defs)
    obtain p e q where wf: "m_wq (mx_m s) = p @ e # q" "wq' = p @ e\<lparr>we_done := True\<rparr> # q" "h = handle e"
      using wake_scan_cases [OF w] Some unfolding woken_first_def by auto
    have "told ?s' h" unfolding told_def s'(1) by (metis fun_upd_same)
    then have "\<forall>e \<in> set (m_wq (mx_m ?s')). we_done e \<longrightarrow> told ?s' (handle e)"
      using live told_move [of s _ ?s' t "Notifying h wt' bk"] s' wf Waking unfolding mx_live_def by auto
    then show ?thesis by (intro live_move [OF live t(1) s'(1)]) (use s'(3) wf in auto)
  qed
next
  case (Notifying h wt bk)
  let ?s' = "mx_section t s"
  let ?p = "if wt \<noteq> Some True then (case bk of None \<Rightarrow> Run | Some r \<Rightarrow> Asleep r) else Waking wt bk"
  have s': "mx_pc ?s' = (mx_pc s)(t := ?p)" "mx_notified ?s' = insert h (mx_notified s)" "mx_m ?s' = mx_m s"
    using Notifying by (simp_all add: mx_section_def do_notif_send_def wake_done_def mx_defs Let_def)
  have "\<forall>e \<in> set (m_wq (mx_m ?s')). we_done e \<longrightarrow> told ?s' (handle e)"
    using live told_move [of s _ ?s' t ?p] s' Notifying unfolding mx_live_def by auto
  then show ?thesis
    by (intro live_move [OF live t(1) s'(1)]) (use s'(3) Notifying in auto)
qed

section \<open>Reachable states\<close>

lemma mx_start_inv: "mx_inv n (mx_start a)" "mx_live n (mx_start a)"
  by (simp_all add: mx_inv_def mx_live_def hold_ok_def mx_start_def mutex_init_def wq_init_def)

lemma mx_steps_inv:
  assumes "rtranclp (mx_step strict n) s s'" "mx_inv n s" "n < 32767"
  shows "mx_inv n s'"
  using assms by (induction rule: rtranclp_induct) (auto elim!: mx_step.cases intro: mx_call_inv mx_section_inv)

lemma mx_steps_live:
  assumes "rtranclp (mx_step True n) (mx_start a) s" "n < 32767"
  shows "mx_inv n s \<and> mx_live n s"
  using assms
  by (induction rule: rtranclp_induct)
    (auto simp: mx_start_inv elim!: mx_step.cases intro: mx_call_inv mx_section_inv mx_call_live mx_section_live)

text \<open>A run given by the thread of each step and the call it makes, if it makes one.\<close>

fun mx_run :: "bool \<Rightarrow> nat \<Rightarrow> (nat \<times> call option) list \<Rightarrow> mx \<Rightarrow> mx option" where
  "mx_run strict n [] s = Some s"
| "mx_run strict n ((t, None) # ops) s =
     (if t < n \<and> mx_pc s t \<noteq> Run then mx_run strict n ops (mx_section t s) else None)"
| "mx_run strict n ((t, Some c) # ops) s =
     (if t < n \<and> mx_pc s t = Run \<and> may_call strict c (mx_holds s t)
      then case mx_call t c s of Inl e \<Rightarrow> None | Inr s' \<Rightarrow> mx_run strict n ops s' else None)"

lemma mx_run_steps: "mx_run strict n ops s = Some s' \<Longrightarrow> rtranclp (mx_step strict n) s s'"
  by (induction strict n ops s rule: mx_run.induct)
    (auto split: if_splits sum.splits intro: mx_step.intros converse_rtranclp_into_rtranclp)

section \<open>Properties\<close>

text \<open>
  Claim C2: in every interleaving of threads that lock, try, unlock, wait on and signal condition
  variables, a thread that has the mutex for writing has it alone, readers share it only with
  readers, and the state word is -1 with a writer and otherwise the number of readers; no unlock and
  no condition wait by a thread that has the mutex panics, unless the variable belongs to another
  mutex.
\<close>

theorem mutex_exclusion:
  assumes "rtranclp (mx_step strict n) (mx_start a) s" "n < 32767"
  shows "(\<forall>t u. mx_holds s t = Write \<longrightarrow> mx_holds s u \<noteq> Free \<longrightarrow> u = t)
       \<and> m_state (mx_m s) = (if \<exists>t. mx_holds s t = Write then -1 else int (card {t. mx_holds s t = Read}))
       \<and> (\<forall>t. mx_holds s t = Write \<longrightarrow> (\<exists>s'. mutex_unlock t s = Inr s'))
       \<and> (\<forall>t. mx_holds s t = Read \<longrightarrow> (\<exists>s'. mutex_read_unlock t s = Inr s'))
       \<and> (\<forall>t cv. mx_holds s t \<noteq> Free \<longrightarrow> mx_cv s cv \<in> {None, Some (mx_addr s)} \<longrightarrow> (\<exists>s'. condvar_wait_timeout t cv s = Inr s'))"
proof -
  have inv: "mx_inv n s" by (rule mx_steps_inv [OF assms(1) mx_start_inv(1) assms(2)])
  note H = mx_invD(1) [OF inv]
  have held: "mx_holds s t \<noteq> Free \<Longrightarrow> m_state (mx_m s) \<noteq> 0" for t using hold_ok_free H by metis
  have read: "mx_holds s t = Read \<Longrightarrow> 0 < m_state (mx_m s)" for t using hold_ok_unread(1) [OF H] .
  have "mx_holds s t = Write \<Longrightarrow> \<exists>s'. mutex_unlock t s = Inr s'" for t using held [of t] by (simp add: mutex_unlock_def)
  moreover have "mx_holds s t = Read \<Longrightarrow> \<exists>s'. mutex_read_unlock t s = Inr s'" for t
    using read [of t] by (simp add: mutex_read_unlock_def Let_def)
  moreover have "mx_holds s t \<noteq> Free \<Longrightarrow> mx_cv s cv \<in> {None, Some (mx_addr s)} \<Longrightarrow> \<exists>s'. condvar_wait_timeout t cv s = Inr s'" for t cv
    using held [of t] by (auto simp: condvar_wait_timeout_def Let_def)
  ultimately show ?thesis using H unfolding hold_ok_def by blast
qed

text \<open>Three threads: a reader, a second reader, and a writer that has to wait for both.\<close>

definition rw_run :: "(nat \<times> call option) list" where
  "rw_run = [(0, Some Mutex_read_lock), (0, None), (1, Some Mutex_read_trylock), (2, Some Mutex_lock), (2, None),
     (0, Some Mutex_read_unlock), (1, Some Mutex_read_unlock), (1, None), (1, None), (2, None), (2, None)]"

lemmas mx_eval = mx_start_def mutex_init_def wq_init_def mx_section_def mutex_lock_step_def mutex_lock_section_def
  mutex_read_lock_step_def mutex_read_lock_section_def mutex_trylock_def mutex_read_trylock_def mutex_unlock_def
  mutex_read_unlock_def wake_done_def wake_step_def do_notif_send_def do_notif_wait_def wq_wait_final_def
  condvar_wait_timeout_def cv_signal_def condvar_destroy_def condvar_init_def mx_defs short_of_def Let_def

theorem mutex_exclusion_witness:
  "\<exists>s. mx_run True 3 rw_run (mx_start 7) = Some s \<and> mx_holds s 2 = Write \<and> m_state (mx_m s) = -1 \<and> m_wq (mx_m s) = []
     \<and> (\<forall>u. mx_holds s u \<noteq> Free \<longrightarrow> u = 2)"
proof -
  obtain s where s: "mx_run True 3 rw_run (mx_start 7) = Some s" "mx_holds s 2 = Write" "m_state (mx_m s) = -1" "m_wq (mx_m s) = []"
    by (simp add: rw_run_def mx_eval)
  then show ?thesis using mutex_exclusion [OF mx_run_steps [OF s(1)]] by auto
qed

text \<open>
  Claim C5: no wake-up is lost: whenever the mutex is free while a thread waits for it that nobody
  has woken yet, some thread is about to try for the mutex or to look for a waiter to wake, or a
  waiter has been woken and its notification has been sent or is being sent. Condition variables are
  signalled by a thread that has the mutex.
\<close>

theorem no_lost_wakeup:
  assumes "rtranclp (mx_step True n) (mx_start a) s" "n < 32767"
    and "m_state (mx_m s) = 0" "e \<in> set (m_wq (mx_m s))" "eligible e"
  shows "\<exists>u < n. (\<exists>r. mx_pc s u = Locking r) \<or> (\<exists>bk. mx_pc s u = Waking None bk)
      \<or> (queued (mx_pc s u) \<and> (\<exists>e' \<in> set (m_wq (mx_m s)). handle e' = u \<and> we_done e')
          \<and> (u \<in> mx_notified s \<or> (\<exists>v < n. \<exists>wt bk. mx_pc s v = Notifying u wt bk)))"
proof -
  have inv: "mx_inv n s" and live: "mx_live n s" using mx_steps_live [OF assms(1,2)] by simp_all
  have lt: "mx_pc s u \<noteq> Run \<Longrightarrow> u < n" for u using live by (simp add: mx_live_def)
  consider u where "will_look (mx_pc s u)" | e' where "e' \<in> set (m_wq (mx_m s))" "we_done e'"
    using live assms(3-5) unfolding mx_live_def by blast
  then show ?thesis
  proof cases
    case 1
    then have "u < n" using lt [of u] by (cases "mx_pc s u") auto
    moreover have "(\<exists>r. mx_pc s u = Locking r) \<or> (\<exists>bk. mx_pc s u = Waking None bk)" using 1 by (cases "mx_pc s u") auto
    ultimately show ?thesis by blast
  next
    case 2
    have q: "queued (mx_pc s (handle e'))" using mx_invD(4) [OF inv, of "handle e'"] 2(1) by blast
    then have "handle e' < n" using lt [of "handle e'"] by (cases "mx_pc s (handle e')") auto
    moreover have "handle e' \<in> mx_notified s \<or> (\<exists>v < n. \<exists>wt bk. mx_pc s v = Notifying (handle e') wt bk)"
      using live 2 lt unfolding mx_live_def told_def by (metis pc.distinct(7))
    ultimately show ?thesis using q 2 by blast
  qed
qed

text \<open>A writer waits, the other unlocks and is about to look for it.\<close>

theorem no_lost_wakeup_witness:
  "\<exists>s. mx_run True 2 [(0, Some Mutex_lock), (0, None), (1, Some Mutex_lock), (1, None), (0, Some Mutex_unlock)] (mx_start 7) = Some s
     \<and> m_state (mx_m s) = 0 \<and> m_wq (mx_m s) \<noteq> [] \<and> (\<exists>u < 2. mx_pc s u \<noteq> Run)"
proof -
  obtain s where s: "mx_run True 2 [(0, Some Mutex_lock), (0, None), (1, Some Mutex_lock), (1, None), (0, Some Mutex_unlock)] (mx_start 7) = Some s"
    "m_state (mx_m s) = 0" "m_wq (mx_m s) = [\<lparr>handle = 1, we_done = False, wait_read = False, we_cv = None\<rparr>]"
    by (simp add: mx_eval)
  have "\<exists>u < 2. mx_pc s u \<noteq> Run"
    using no_lost_wakeup [OF mx_run_steps [OF s(1)] _ s(2), of "\<lparr>handle = 1, we_done = False, wait_read = False, we_cv = None\<rparr>"] s(3)
    by (auto simp: eligible_def)
  then show ?thesis using s by auto
qed

text \<open>
  A signal by a thread that does not have the mutex is different: it makes the waiter wait for the
  mutex, which may be free, and wakes nobody. In this run the waiter sleeps on without a
  notification while every other thread is outside.
\<close>

theorem signal_without_mutex_strands:
  "\<exists>s. rtranclp (mx_step False 2) (mx_start 7) s \<and> m_state (mx_m s) = 0 \<and> (\<exists>e \<in> set (m_wq (mx_m s)). eligible e)
     \<and> mx_notified s = {} \<and> mx_pc s 0 = Asleep False \<and> mx_pc s 1 = Run"
proof -
  obtain s where s: "mx_run False 2 [(0, Some Mutex_lock), (0, None), (0, Some (Condvar_wait 4)), (0, None), (1, Some (Condvar_signal 4))] (mx_start 7) = Some s"
    "m_state (mx_m s) = 0" "m_wq (mx_m s) = [\<lparr>handle = 0, we_done = False, wait_read = False, we_cv = None\<rparr>]"
    "mx_notified s = {}" "mx_pc s 0 = Asleep False" "mx_pc s 1 = Run"
    by (simp add: mx_eval)
  then show ?thesis using mx_run_steps [OF s(1)] by (auto simp: eligible_def)
qed

section \<open>Mutexes that are also used without a thread\<close>

text \<open>
  The wrapper for power transitions: a thread takes the mutex and then a spin lock that must be free;
  code without a thread only takes the spin lock and panics if either is taken. \<open>thread\<close> is whether
  the caller runs on a thread; the mutex of a thread is granted when it is free.
\<close>

record mutex_pm_aware =
  pm_mutex :: mutex
  pm_lock :: bool

definition mutex_pm_aware_init :: mutex_pm_aware where
  "mutex_pm_aware_init = \<lparr>pm_mutex = mutex_init, pm_lock = False\<rparr>"

definition mutex_pm_aware_lock :: "nat option \<Rightarrow> mutex_pm_aware \<Rightarrow> (bool \<times> mutex_pm_aware) res" where
  "mutex_pm_aware_lock thread m = (case thread of
     None \<Rightarrow> if pm_lock m \<or> m_state (pm_mutex m) \<noteq> 0 then Inl Panic else Inr (True, m\<lparr>pm_lock := True\<rparr>)
   | Some t \<Rightarrow>
       let (can_lock, mu) = mutex_lock_section t (pm_mutex m) in
       if \<not> can_lock then Inr (False, m\<lparr>pm_mutex := mu\<rparr>)
       else if pm_lock m then Inl Panic
       else Inr (True, \<lparr>pm_mutex = mu, pm_lock = True\<rparr>))"

definition mutex_pm_aware_unlock :: "nat option \<Rightarrow> mutex_pm_aware \<Rightarrow> mutex_pm_aware res" where
  "mutex_pm_aware_unlock thread m = (case thread of
     None \<Rightarrow> if m_state (pm_mutex m) \<noteq> 0 then Inl Panic else Inr (m\<lparr>pm_lock := False\<rparr>)
   | Some t \<Rightarrow>
       if m_state (pm_mutex m) = 0 then Inl Panic
       else Inr \<lparr>pm_mutex = (pm_mutex m)\<lparr>m_state := 0, m_wq := fst (wq_wake_next (m_wq (pm_mutex m)))\<rparr>, pm_lock = False\<rparr>)"

lemma pm_aware_exclusive:
  assumes "mutex_pm_aware_lock c m = Inr (True, m')"
  shows "\<not> pm_lock m" "m_state (pm_mutex m) = 0" "pm_lock m'"
    "mutex_pm_aware_lock c' m' = Inl Panic \<or> (\<exists>m''. mutex_pm_aware_lock c' m' = Inr (False, m''))"
  using assms
  by (auto simp: mutex_pm_aware_lock_def mutex_lock_section_def Let_def split: option.splits if_splits)

end
