(* ===== verification/Mutex_Recursive.thy ===== *)
theory Mutex_Recursive
  imports Mutex Refcount
begin

text \<open>
  Recursive mutexes, \<open>core/kernel/mutex.c\<close>, on top of the mutex and the reference counter: the owner
  and the depth are accessed outside the mutex, one atomic access at a time.
\<close>

section \<open>Operations\<close>

abbreviation (input) THREAD_ID_INVALID :: int where "THREAD_ID_INVALID \<equiv> -1"

text \<open>
  Where a thread is in the two operations: outside, in the inner lock, before setting the depth,
  before resetting the owner, and before the inner unlock.
\<close>

datatype rpc = R_Idle | R_Acquire | R_Depth | R_Clear | R_Unlock

text \<open>\<open>r_nest\<close> is how often each thread has locked without unlocking.\<close>

record recursive_mutex =
  r_mx :: mx
  r_owner :: int
  r_depth :: u32
  r_pc :: "nat \<Rightarrow> rpc"
  r_nest :: "nat \<Rightarrow> nat"

definition mutex_init_recursive :: "nat \<Rightarrow> recursive_mutex" where
  "mutex_init_recursive addr =
     \<lparr>r_mx = mx_start addr, r_owner = THREAD_ID_INVALID, r_depth = 0, r_pc = (\<lambda>_. R_Idle), r_nest = (\<lambda>_. 0)\<rparr>"

definition mutex_lock_recursive :: "nat \<Rightarrow> recursive_mutex \<Rightarrow> recursive_mutex res" where
  "mutex_lock_recursive ct s =
     (if r_owner s = int ct then
        let (ok, d) = refcount_inc (r_depth s) in
        if \<not> ok then Inl Panic else Inr (s\<lparr>r_depth := d, r_nest := (r_nest s)(ct := Suc (r_nest s ct))\<rparr>)
      else cbind (mx_call ct Mutex_lock (r_mx s)) (\<lambda>m. Inr (s\<lparr>r_mx := m, r_pc := (r_pc s)(ct := R_Acquire)\<rparr>)))"

definition mutex_unlock_recursive :: "nat \<Rightarrow> recursive_mutex \<Rightarrow> recursive_mutex res" where
  "mutex_unlock_recursive ct s =
     (if r_owner s \<noteq> int ct then Inl Panic
      else cbind (refcount_dec (r_depth s)) (\<lambda>(zero, d).
        Inr (s\<lparr>r_depth := d, r_nest := (r_nest s)(ct := r_nest s ct - 1),
               r_pc := (r_pc s)(ct := if zero then R_Clear else R_Idle)\<rparr>)))"

text \<open>The rest of the two operations, after the inner lock has been granted and after the last unlock.\<close>

definition recursive_section :: "nat \<Rightarrow> recursive_mutex \<Rightarrow> recursive_mutex res" where
  "recursive_section ct s = (case r_pc s ct of
     R_Idle \<Rightarrow> Inr s
   | R_Acquire \<Rightarrow>
       if r_owner s \<noteq> THREAD_ID_INVALID then Inl Panic
       else Inr (s\<lparr>r_owner := int ct, r_pc := (r_pc s)(ct := R_Depth)\<rparr>)
   | R_Depth \<Rightarrow> Inr (s\<lparr>r_depth := 1, r_pc := (r_pc s)(ct := R_Idle), r_nest := (r_nest s)(ct := 1)\<rparr>)
   | R_Clear \<Rightarrow> Inr (s\<lparr>r_owner := THREAD_ID_INVALID, r_pc := (r_pc s)(ct := R_Unlock)\<rparr>)
   | R_Unlock \<Rightarrow> cbind (mx_call ct Mutex_unlock (r_mx s)) (\<lambda>m. Inr (s\<lparr>r_mx := m, r_pc := (r_pc s)(ct := R_Idle)\<rparr>)))"

definition mutex_get_recursive_lock_depth :: "nat \<Rightarrow> recursive_mutex \<Rightarrow> u32 res" where
  "mutex_get_recursive_lock_depth ct s = (if r_owner s \<noteq> int ct then Inl Panic else Inr (r_depth s))"

text \<open>A step of one of \<open>n\<close> threads; a thread unlocks what it has locked.\<close>

inductive rmx_step :: "nat \<Rightarrow> recursive_mutex \<Rightarrow> recursive_mutex \<Rightarrow> bool" for n where
  lock: "t < n \<Longrightarrow> r_pc s t = R_Idle \<Longrightarrow> mx_pc (r_mx s) t = Run \<Longrightarrow> mutex_lock_recursive t s = Inr s' \<Longrightarrow> rmx_step n s s'"
| unlock: "t < n \<Longrightarrow> r_pc s t = R_Idle \<Longrightarrow> mx_pc (r_mx s) t = Run \<Longrightarrow> 0 < r_nest s t \<Longrightarrow>
    mutex_unlock_recursive t s = Inr s' \<Longrightarrow> rmx_step n s s'"
| outer: "t < n \<Longrightarrow> r_pc s t \<noteq> R_Idle \<Longrightarrow> mx_pc (r_mx s) t = Run \<Longrightarrow> recursive_section t s = Inr s' \<Longrightarrow> rmx_step n s s'"
| inner: "t < n \<Longrightarrow> mx_pc (r_mx s) t \<noteq> Run \<Longrightarrow> rmx_step n s (s\<lparr>r_mx := mx_section t (r_mx s)\<rparr>)"

section \<open>The invariant\<close>

fun rok :: "rpc \<Rightarrow> nat \<Rightarrow> pc \<Rightarrow> hold \<Rightarrow> bool \<Rightarrow> u32 \<Rightarrow> bool" where
  "rok R_Idle k p h own d =
     (if 0 < k then h = Write \<and> own \<and> d = of_nat k \<and> k \<le> 2 ^ 32
      else h = Free \<and> \<not> own \<and> (p = Run \<or> (\<exists>wt. p = Waking wt None) \<or> (\<exists>x wt. p = Notifying x wt None)))"
| "rok R_Acquire k p h own d =
     (k = 0 \<and> \<not> own \<and> (p = Locking False \<and> h = Free \<or> p = Asleep False \<and> h = Free \<or> p = Run \<and> h = Write))"
| "rok R_Depth k p h own d = (k = 0 \<and> own \<and> h = Write)"
| "rok R_Clear k p h own d = (k = 0 \<and> own \<and> h = Write)"
| "rok R_Unlock k p h own d = (k = 0 \<and> \<not> own \<and> h = Write)"

definition thread_ok :: "recursive_mutex \<Rightarrow> nat \<Rightarrow> bool" where
  "thread_ok s t \<longleftrightarrow> rok (r_pc s t) (r_nest s t) (mx_pc (r_mx s) t) (mx_holds (r_mx s) t) (r_owner s = int t) (r_depth s)"

definition rmx_inv :: "nat \<Rightarrow> recursive_mutex \<Rightarrow> bool" where
  "rmx_inv n s \<longleftrightarrow> mx_inv n (r_mx s) \<and> (\<forall>t. thread_ok s t) \<and> (r_owner s = THREAD_ID_INVALID \<or> (\<exists>t. r_owner s = int t))"

lemma rok_depth: "rok c k p h own d \<Longrightarrow> h \<noteq> Write \<Longrightarrow> rok c k p h own d'"
  by (cases c) (auto split: if_splits)

lemma rok_owner: "rok c k p h True d \<Longrightarrow> h = Write"
  by (cases c) (auto split: if_splits)

lemma writer_alone: "rmx_inv n s \<Longrightarrow> mx_holds (r_mx s) t = Write \<Longrightarrow> u \<noteq> t \<Longrightarrow> mx_holds (r_mx s) u = Free"
  unfolding rmx_inv_def mx_inv_def hold_ok_def by blast

text \<open>The threads that do not move keep what holds of them.\<close>

lemma others_ok:
  assumes "rmx_inv n s" "u \<noteq> t" "mx_holds (r_mx s) t = Write \<or> (r_depth s' = r_depth s \<and> r_owner s' = r_owner s)"
    and "r_owner s' \<in> {r_owner s, int t, THREAD_ID_INVALID}"
    and "r_pc s' u = r_pc s u" "r_nest s' u = r_nest s u" "mx_pc (r_mx s') u = mx_pc (r_mx s) u" "mx_holds (r_mx s') u = mx_holds (r_mx s) u"
  shows "thread_ok s' u"
proof -
  have ok: "thread_ok s u" using assms(1) by (simp add: rmx_inv_def)
  show ?thesis
  proof (cases "mx_holds (r_mx s) t = Write")
    case True
    have free: "mx_holds (r_mx s) u = Free" using writer_alone [OF assms(1) True assms(2)] .
    have "r_owner s \<noteq> int u"
    proof
      assume "r_owner s = int u"
      then have "mx_holds (r_mx s) u = Write" using ok rok_owner unfolding thread_ok_def by simp
      then show False using free by simp
    qed
    then have "(r_owner s' = int u) = (r_owner s = int u)" using assms(2,4) by auto
    then show ?thesis
      using rok_depth [OF ok [unfolded thread_ok_def], of "r_depth s'"] free assms(5-8) by (simp add: thread_ok_def)
  next
    case False
    then show ?thesis using ok assms(3,5-8) unfolding thread_ok_def by simp
  qed
qed

lemma rmx_inv_move:
  assumes "rmx_inv n s" "mx_inv n (r_mx s')" "thread_ok s' t"
    and "mx_holds (r_mx s) t = Write \<or> (r_depth s' = r_depth s \<and> r_owner s' = r_owner s)"
    and "r_owner s' \<in> {r_owner s, int t, THREAD_ID_INVALID}"
    and "\<forall>u. u \<noteq> t \<longrightarrow> r_pc s' u = r_pc s u \<and> r_nest s' u = r_nest s u \<and> mx_pc (r_mx s') u = mx_pc (r_mx s) u
      \<and> mx_holds (r_mx s') u = mx_holds (r_mx s) u"
  shows "rmx_inv n s'"
proof -
  have "thread_ok s' u" for u
  proof (cases "u = t")
    case False
    then show ?thesis using others_ok [OF assms(1) _ assms(4,5)] assms(6) by simp
  qed (use assms(3) in simp)
  then show ?thesis using assms(1,2,5) by (auto simp: rmx_inv_def)
qed

lemma mx_section_frame:
  "u \<noteq> t \<Longrightarrow> mx_pc (mx_section t m) u = mx_pc m u" "u \<noteq> t \<Longrightarrow> mx_holds (mx_section t m) u = mx_holds m u"
  by (auto simp: mx_section_def mutex_lock_step_def mutex_read_lock_step_def do_notif_wait_def wake_step_def
      do_notif_send_def wake_done_def mx_defs Let_def split: pc.splits option.splits prod.splits)

lemma count_below_top:
  assumes "k \<le> 2 ^ 32" "(of_nat k :: u32) \<noteq> 0"
  shows "k < 2 ^ 32"
proof -
  have "(of_nat (2 ^ 32) :: u32) = 0" by simp
  then have "k \<noteq> 2 ^ 32" using assms(2) by metis
  then show ?thesis using assms(1) by simp
qed

lemma count_zero_iff:
  assumes "0 < k" "k < 2 ^ 32"
  shows "(of_nat (k - 1) :: u32) = 0 \<longleftrightarrow> k = 1"
proof -
  have "unat (of_nat (k - 1) :: u32) = k - 1" using assms by (intro unat_of_nat_32) simp
  then show ?thesis using assms(1) by auto
qed

lemma lock_recursive_inv:
  assumes inv: "rmx_inv n s" and t: "t < n" "n < 32767" and idle: "r_pc s t = R_Idle" and run: "mx_pc (r_mx s) t = Run"
    and l: "mutex_lock_recursive t s = Inr s'"
  shows "rmx_inv n s'"
proof -
  have ok: "thread_ok s t" and mx: "mx_inv n (r_mx s)" using inv by (simp_all add: rmx_inv_def)
  show ?thesis
  proof (cases "r_owner s = int t")
    case True
    then have h: "0 < r_nest s t" "mx_holds (r_mx s) t = Write" "r_depth s = of_nat (r_nest s t)" "r_nest s t \<le> 2 ^ 32"
      using ok idle by (auto simp: thread_ok_def split: if_splits)
    have s': "r_depth s \<noteq> 0" "s' = s\<lparr>r_depth := r_depth s + 1, r_nest := (r_nest s)(t := Suc (r_nest s t))\<rparr>"
      using l True by (auto simp: mutex_lock_recursive_def refcount_inc_def split: if_splits)
    have "r_nest s t < 2 ^ 32" using count_below_top [OF h(4)] s'(1) h(3) by simp
    then have "thread_ok s' t" using s' h True idle by (simp add: thread_ok_def)
    then show ?thesis using s' h mx by (intro rmx_inv_move [OF inv, of s' t]) auto
  next
    case False
    then have free: "mx_holds (r_mx s) t = Free" "r_nest s t = 0" using ok idle by (auto simp: thread_ok_def split: if_splits)
    have s': "s' = s\<lparr>r_mx := goto t (Locking False) (r_mx s), r_pc := (r_pc s)(t := R_Acquire)\<rparr>"
      using l False by (simp add: mutex_lock_recursive_def)
    have "mx_inv n (goto t (Locking False) (r_mx s))" using mx_call_inv [OF mx t run, of True Mutex_lock] free by simp
    moreover have "thread_ok s' t" using s' free False by (simp add: thread_ok_def goto_def)
    ultimately show ?thesis using s' by (intro rmx_inv_move [OF inv, of s' t]) (auto simp: goto_def)
  qed
qed

lemma unlock_recursive_inv:
  assumes inv: "rmx_inv n s" and idle: "r_pc s t = R_Idle" and held: "0 < r_nest s t" and l: "mutex_unlock_recursive t s = Inr s'"
  shows "rmx_inv n s'"
proof -
  have ok: "thread_ok s t" and mx: "mx_inv n (r_mx s)" using inv by (simp_all add: rmx_inv_def)
  have h: "mx_holds (r_mx s) t = Write" "r_depth s = of_nat (r_nest s t)" "r_nest s t \<le> 2 ^ 32" "r_owner s = int t"
    using ok idle held by (auto simp: thread_ok_def)
  have nz: "r_depth s \<noteq> 0" and s': "s' = s\<lparr>r_depth := r_depth s - 1, r_nest := (r_nest s)(t := r_nest s t - 1),
      r_pc := (r_pc s)(t := if r_depth s - 1 = 0 then R_Clear else R_Idle)\<rparr>"
    using l h by (auto simp: mutex_unlock_recursive_def refcount_dec_def split: if_splits)
  have lt: "r_nest s t < 2 ^ 32" using count_below_top [OF h(3)] nz h(2) by simp
  have d: "r_depth s - 1 = of_nat (r_nest s t - 1)" using h(2) held by (simp add: of_nat_diff)
  have z: "r_depth s - 1 = 0 \<longleftrightarrow> r_nest s t = 1" unfolding d by (rule count_zero_iff [OF held lt])
  have "thread_ok s' t" using s' h z d held idle by (auto simp: thread_ok_def)
  then show ?thesis using s' h mx by (intro rmx_inv_move [OF inv, of s' t]) auto
qed

lemma recursive_section_inv:
  assumes inv: "rmx_inv n s" and t: "t < n" "n < 32767" and busy: "r_pc s t \<noteq> R_Idle" and run: "mx_pc (r_mx s) t = Run"
  shows "\<exists>s'. recursive_section t s = Inr s' \<and> rmx_inv n s'"
proof -
  have ok: "thread_ok s t" and mx: "mx_inv n (r_mx s)" using inv by (simp_all add: rmx_inv_def)
  have w: "mx_holds (r_mx s) t = Write" using ok busy run by (cases "r_pc s t") (auto simp: thread_ok_def)
  note move = rmx_inv_move [OF inv, of _ t]
  show ?thesis
  proof (cases "r_pc s t")
    case R_Idle
    then show ?thesis using busy by simp
  next
    case R_Acquire
    have "r_owner s \<noteq> int u" for u
    proof (cases "u = t")
      case False
      have "thread_ok s u" using inv by (simp add: rmx_inv_def)
      then show ?thesis using writer_alone [OF inv w False] rok_owner unfolding thread_ok_def by (metis hold.distinct(3))
    qed (use ok R_Acquire in \<open>simp add: thread_ok_def\<close>)
    then have o: "r_owner s = THREAD_ID_INVALID" using inv by (auto simp: rmx_inv_def)
    have "rmx_inv n (s\<lparr>r_owner := int t, r_pc := (r_pc s)(t := R_Depth)\<rparr>)"
      by (rule move) (use mx w ok R_Acquire in \<open>auto simp: thread_ok_def\<close>)
    then show ?thesis using R_Acquire o by (simp add: recursive_section_def)
  next
    case R_Depth
    have "rmx_inv n (s\<lparr>r_depth := 1, r_pc := (r_pc s)(t := R_Idle), r_nest := (r_nest s)(t := 1)\<rparr>)"
      by (rule move) (use mx w ok R_Depth in \<open>auto simp: thread_ok_def\<close>)
    then show ?thesis using R_Depth by (simp add: recursive_section_def)
  next
    case R_Clear
    have "rmx_inv n (s\<lparr>r_owner := THREAD_ID_INVALID, r_pc := (r_pc s)(t := R_Unlock)\<rparr>)"
      by (rule move) (use mx w ok R_Clear in \<open>auto simp: thread_ok_def\<close>)
    then show ?thesis using R_Clear by (simp add: recursive_section_def)
  next
    case R_Unlock
    let ?m = "goto t (Waking None None) (granted t Free (with_mutex ((mx_m (r_mx s))\<lparr>m_state := 0\<rparr>) (r_mx s)))"
    have st: "m_state (mx_m (r_mx s)) \<noteq> 0" using hold_ok_unwrite [OF mx_invD(1) [OF mx] w] by simp
    then have u: "mx_call t Mutex_unlock (r_mx s) = Inr ?m" by (simp add: mutex_unlock_def)
    have "mx_inv n ?m" using mx_call_inv [OF mx t run, of True Mutex_unlock ?m] w u by simp
    then have "rmx_inv n (s\<lparr>r_mx := ?m, r_pc := (r_pc s)(t := R_Idle)\<rparr>)"
      by (intro move) (use w ok R_Unlock in \<open>auto simp: thread_ok_def mx_defs\<close>)
    then show ?thesis using R_Unlock u by (simp add: recursive_section_def)
  qed
qed

lemma section_effect:
  "mx_pc m t = Locking False \<Longrightarrow> mx_holds m t = Free \<Longrightarrow>
     (mx_pc (mx_section t m) t, mx_holds (mx_section t m) t) \<in> {(Run, Write), (Asleep False, Free)}"
  "mx_pc m t = Asleep False \<Longrightarrow> mx_pc (mx_section t m) t = Locking False \<and> mx_holds (mx_section t m) t = mx_holds m t"
  "mx_pc m t = Waking wt None \<Longrightarrow>
     (mx_pc (mx_section t m) t = Run \<or> (\<exists>h wt'. mx_pc (mx_section t m) t = Notifying h wt' None)) \<and> mx_holds (mx_section t m) t = mx_holds m t"
  "mx_pc m t = Notifying h wt None \<Longrightarrow>
     (mx_pc (mx_section t m) t = Run \<or> (\<exists>wt'. mx_pc (mx_section t m) t = Waking wt' None)) \<and> mx_holds (mx_section t m) t = mx_holds m t"
  by (auto simp: mx_section_def mutex_lock_step_def mutex_lock_section_def do_notif_wait_def wake_step_def
      do_notif_send_def wake_done_def mx_defs Let_def split: option.splits prod.splits)

lemma recursive_inner_inv:
  assumes inv: "rmx_inv n s" and t: "t < n" "n < 32767" and run: "mx_pc (r_mx s) t \<noteq> Run"
  shows "rmx_inv n (s\<lparr>r_mx := mx_section t (r_mx s)\<rparr>)"
proof (rule rmx_inv_move [OF inv, of _ t])
  have ok: "thread_ok s t" and mx: "mx_inv n (r_mx s)" using inv by (simp_all add: rmx_inv_def)
  show "mx_inv n (r_mx (s\<lparr>r_mx := mx_section t (r_mx s)\<rparr>))" using mx_section_inv [OF mx t run] by simp
  have free: "mx_holds (r_mx s) t = Free" using mx_invD(3) [OF mx run] .
  show "thread_ok (s\<lparr>r_mx := mx_section t (r_mx s)\<rparr>) t"
  proof (cases "r_pc s t = R_Acquire")
    case True
    then have "mx_pc (r_mx s) t = Locking False \<or> mx_pc (r_mx s) t = Asleep False" using ok run by (auto simp: thread_ok_def)
    then show ?thesis using True ok free section_effect(1,2) [of "r_mx s" t] by (auto simp: thread_ok_def)
  next
    case False
    then have idle: "r_pc s t = R_Idle" "r_nest s t = 0" using ok free by (cases "r_pc s t"; simp add: thread_ok_def split: if_splits)+
    then have "(\<exists>wt. mx_pc (r_mx s) t = Waking wt None) \<or> (\<exists>x wt. mx_pc (r_mx s) t = Notifying x wt None)"
      using ok run by (simp add: thread_ok_def)
    then show ?thesis using idle ok free section_effect(3,4) [of "r_mx s" t] by (auto simp: thread_ok_def)
  qed
qed (auto simp: mx_section_frame)

lemma rmx_step_inv:
  assumes "rmx_step n s s'" "rmx_inv n s" "n < 32767"
  shows "rmx_inv n s'"
  using assms(1)
proof cases
  case (lock t)
  then show ?thesis using lock_recursive_inv [OF assms(2) _ assms(3)] by blast
next
  case (unlock t)
  then show ?thesis using unlock_recursive_inv [OF assms(2)] by blast
next
  case (outer t)
  then show ?thesis using recursive_section_inv [OF assms(2) _ assms(3)] by (metis sum.inject(2))
next
  case (inner t)
  then show ?thesis using recursive_inner_inv [OF assms(2) _ assms(3)] by blast
qed

lemma rmx_start_inv: "rmx_inv n (mutex_init_recursive a)"
  by (simp add: rmx_inv_def mutex_init_recursive_def thread_ok_def mx_start_inv) (simp add: mx_start_def)

lemma rmx_steps_inv:
  assumes "rtranclp (rmx_step n) (mutex_init_recursive a) s" "n < 32767"
  shows "rmx_inv n s"
  using assms by (induction rule: rtranclp_induct) (auto intro: rmx_start_inv rmx_step_inv)

text \<open>A run: per step the thread, and whether it locks, unlocks or goes on.\<close>

datatype rcall = Rec_lock | Rec_unlock | Rec_on

fun rmx_do :: "nat \<Rightarrow> nat \<times> rcall \<Rightarrow> recursive_mutex \<Rightarrow> recursive_mutex res" where
  "rmx_do n (t, c) s =
     (if \<not> t < n then Inl Panic
      else if mx_pc (r_mx s) t \<noteq> Run then (if c = Rec_on then Inr (s\<lparr>r_mx := mx_section t (r_mx s)\<rparr>) else Inl Panic)
      else if r_pc s t \<noteq> R_Idle then (if c = Rec_on then recursive_section t s else Inl Panic)
      else case c of
        Rec_lock \<Rightarrow> mutex_lock_recursive t s
      | Rec_unlock \<Rightarrow> if 0 < r_nest s t then mutex_unlock_recursive t s else Inl Panic
      | Rec_on \<Rightarrow> Inl Panic)"

fun rmx_run :: "nat \<Rightarrow> (nat \<times> rcall) list \<Rightarrow> recursive_mutex \<Rightarrow> recursive_mutex res" where
  "rmx_run n [] s = Inr s"
| "rmx_run n (op # ops) s = cbind (rmx_do n op s) (rmx_run n ops)"

lemma rmx_do_step: "rmx_do n op s = Inr s' \<Longrightarrow> rmx_step n s s'"
  by (cases op) (auto split: if_splits rcall.splits intro: rmx_step.intros)

lemma rmx_run_steps: "rmx_run n ops s = Inr s' \<Longrightarrow> rtranclp (rmx_step n) s s'"
  by (induction ops arbitrary: s) (auto simp: cbind_Inr_iff intro: converse_rtranclp_into_rtranclp rmx_do_step)

section \<open>Properties\<close>

text \<open>
  Claim C15: the racy reads of the owner are harmless: in every interleaving at most one thread has a
  recursive mutex locked, that thread has the inner mutex, is the recorded owner and reads its own
  nesting as the depth; while it is nested less than
  2^32 deep it can lock again and unlock, and the rest of both operations never fails.
\<close>

theorem recursive_mutex_owner:
  assumes "rtranclp (rmx_step n) (mutex_init_recursive a) s" "n < 32767"
  shows "(\<forall>t. 0 < r_nest s t \<longrightarrow>
            mx_holds (r_mx s) t = Write \<and> mutex_get_recursive_lock_depth t s = Inr (of_nat (r_nest s t))
            \<and> (\<forall>u. 0 < r_nest s u \<longrightarrow> u = t)
            \<and> (r_nest s t < 2 ^ 32 \<longrightarrow> (\<exists>s'. mutex_lock_recursive t s = Inr s' \<and> r_nest s' t = Suc (r_nest s t))
                 \<and> (\<exists>s'. mutex_unlock_recursive t s = Inr s' \<and> r_nest s' t = r_nest s t - 1)))
       \<and> (\<forall>t < n. r_pc s t \<noteq> R_Idle \<longrightarrow> mx_pc (r_mx s) t = Run \<longrightarrow> (\<exists>s'. recursive_section t s = Inr s'))"
proof -
  have inv: "rmx_inv n s" by (rule rmx_steps_inv [OF assms])
  have held: "r_pc s t = R_Idle \<and> mx_holds (r_mx s) t = Write \<and> r_owner s = int t \<and> r_depth s = of_nat (r_nest s t)"
    if "0 < r_nest s t" for t
  proof -
    have "thread_ok s t" using inv by (simp add: rmx_inv_def)
    then show ?thesis using that by (cases "r_pc s t") (auto simp: thread_ok_def)
  qed
  have nz: "r_depth s \<noteq> 0" if "0 < r_nest s t" "r_nest s t < 2 ^ 32" for t
    using held [OF that(1)] that unat_of_nat_32 [OF that(2)] by auto
  have "\<exists>s'. mutex_lock_recursive t s = Inr s' \<and> r_nest s' t = Suc (r_nest s t)" if "0 < r_nest s t" "r_nest s t < 2 ^ 32" for t
    using held [OF that(1)] nz [OF that] by (simp add: mutex_lock_recursive_def refcount_inc_def)
  moreover have "\<exists>s'. mutex_unlock_recursive t s = Inr s' \<and> r_nest s' t = r_nest s t - 1" if "0 < r_nest s t" "r_nest s t < 2 ^ 32" for t
    using held [OF that(1)] nz [OF that] by (simp add: mutex_unlock_recursive_def refcount_dec_def)
  moreover have "u = t" if "0 < r_nest s t" "0 < r_nest s u" for t u
    using writer_alone [OF inv, of t u] held [OF that(1)] held [OF that(2)] by auto
  moreover have "\<forall>t < n. r_pc s t \<noteq> R_Idle \<longrightarrow> mx_pc (r_mx s) t = Run \<longrightarrow> (\<exists>s'. recursive_section t s = Inr s')"
    using recursive_section_inv [OF inv _ assms(2)] by blast
  moreover have "mutex_get_recursive_lock_depth t s = Inr (of_nat (r_nest s t))" if "0 < r_nest s t" for t
    using held [OF that] by (simp add: mutex_get_recursive_lock_depth_def)
  ultimately show ?thesis using held by blast
qed

text \<open>Thread 0 locks twice while thread 1 has to wait.\<close>

theorem recursive_mutex_owner_witness:
  "\<exists>s. rmx_run 2 [(0, Rec_lock), (0, Rec_on), (0, Rec_on), (1, Rec_lock), (1, Rec_on), (0, Rec_on), (0, Rec_lock)]
       (mutex_init_recursive 7) = Inr s
     \<and> r_nest s 0 = 2 \<and> mutex_get_recursive_lock_depth 0 s = Inr 2 \<and> mx_holds (r_mx s) 0 = Write \<and> mx_pc (r_mx s) 1 = Asleep False"
proof -
  obtain s where s: "rmx_run 2 [(0, Rec_lock), (0, Rec_on), (0, Rec_on), (1, Rec_lock), (1, Rec_on), (0, Rec_on), (0, Rec_lock)]
       (mutex_init_recursive 7) = Inr s" "r_nest s 0 = 2" "mx_pc (r_mx s) 1 = Asleep False"
    by (simp add: mutex_init_recursive_def mutex_lock_recursive_def recursive_section_def refcount_inc_def mx_eval)
  then show ?thesis using recursive_mutex_owner [OF rmx_run_steps [OF s(1)]] by simp
qed

end
