(* ===== verification/Tee_Pobj.thy ===== *)
theory Tee_Pobj
  imports Mutex
begin

unbundle bit_operations_syntax

text \<open>
  The table of open persistent objects, \<open>core/tee/tee_pobj.c\<close>: an object is shared by the handles
  opened on it, its reference count is their number, and the access flags of all handles have to be
  compatible. An object is identified by its address. Every operation runs under \<open>pobjs_mutex\<close>.
\<close>

section \<open>Objects\<close>

abbreviation (input) TEE_DATA_FLAG_ACCESS_READ :: u32 where "TEE_DATA_FLAG_ACCESS_READ \<equiv> 0x1"
abbreviation (input) TEE_DATA_FLAG_ACCESS_WRITE :: u32 where "TEE_DATA_FLAG_ACCESS_WRITE \<equiv> 0x2"
abbreviation (input) TEE_DATA_FLAG_ACCESS_WRITE_META :: u32 where "TEE_DATA_FLAG_ACCESS_WRITE_META \<equiv> 0x4"
abbreviation (input) TEE_DATA_FLAG_SHARE_READ :: u32 where "TEE_DATA_FLAG_SHARE_READ \<equiv> 0x10"
abbreviation (input) TEE_DATA_FLAG_SHARE_WRITE :: u32 where "TEE_DATA_FLAG_SHARE_WRITE \<equiv> 0x20"
abbreviation (input) TEE_DATA_FLAG_OVERWRITE :: u32 where "TEE_DATA_FLAG_OVERWRITE \<equiv> 0x400"
abbreviation (input) TEE_ERROR_ACCESS_CONFLICT :: u32 where "TEE_ERROR_ACCESS_CONFLICT \<equiv> 0xFFFF0003"

datatype tee_pobj_usage =
  TEE_POBJ_USAGE_OPEN | TEE_POBJ_USAGE_RENAME | TEE_POBJ_USAGE_CREATE | TEE_POBJ_USAGE_ENUM

record 'u tee_pobj =
  po_addr :: nat
  refcnt :: u32
  po_uuid :: 'u
  po_obj_id :: "u8 list"
  po_flags :: u32
  obj_info_usage :: u32
  temporary :: bool
  creating :: bool
  po_fops :: nat

type_synonym 'u tee_pobjs = "'u tee_pobj list"

definition pobj_need_usage_lock :: "'u tee_pobj \<Rightarrow> bool" where
  "pobj_need_usage_lock obj = (po_flags obj AND (TEE_DATA_FLAG_SHARE_WRITE OR TEE_DATA_FLAG_SHARE_READ) \<noteq> 0)"

text \<open>The lock around the usage field; \<open>t\<close> is the calling thread and \<open>s\<close> the mutex \<open>pobjs_usage_mutex\<close>.\<close>

definition tee_pobj_lock_usage :: "nat \<Rightarrow> 'u tee_pobj \<Rightarrow> mx \<Rightarrow> mx res" where
  "tee_pobj_lock_usage t obj s = (if pobj_need_usage_lock obj then mx_call t Mutex_lock s else Inr s)"

definition tee_pobj_unlock_usage :: "nat \<Rightarrow> 'u tee_pobj \<Rightarrow> mx \<Rightarrow> mx res" where
  "tee_pobj_unlock_usage t obj s = (if pobj_need_usage_lock obj then mx_call t Mutex_unlock s else Inr s)"

definition tee_pobj_check_access :: "u32 \<Rightarrow> u32 \<Rightarrow> u32" where
  "tee_pobj_check_access oflags nflags =
     (if oflags AND TEE_DATA_FLAG_ACCESS_WRITE_META \<noteq> 0 \<or> nflags AND TEE_DATA_FLAG_ACCESS_WRITE_META \<noteq> 0
      then TEE_ERROR_ACCESS_CONFLICT
      else if (oflags AND TEE_DATA_FLAG_ACCESS_READ \<noteq> 0 \<or> nflags AND TEE_DATA_FLAG_ACCESS_READ \<noteq> 0) \<and>
        \<not> (nflags AND TEE_DATA_FLAG_SHARE_READ \<noteq> 0 \<and> oflags AND TEE_DATA_FLAG_SHARE_READ \<noteq> 0)
      then TEE_ERROR_ACCESS_CONFLICT
      else if nflags AND TEE_DATA_FLAG_SHARE_READ \<noteq> oflags AND TEE_DATA_FLAG_SHARE_READ
      then TEE_ERROR_ACCESS_CONFLICT
      else if (oflags AND TEE_DATA_FLAG_ACCESS_WRITE \<noteq> 0 \<or> nflags AND TEE_DATA_FLAG_ACCESS_WRITE \<noteq> 0) \<and>
        \<not> (nflags AND TEE_DATA_FLAG_SHARE_WRITE \<noteq> 0 \<and> oflags AND TEE_DATA_FLAG_SHARE_WRITE \<noteq> 0)
      then TEE_ERROR_ACCESS_CONFLICT
      else if nflags AND TEE_DATA_FLAG_SHARE_WRITE \<noteq> oflags AND TEE_DATA_FLAG_SHARE_WRITE
      then TEE_ERROR_ACCESS_CONFLICT
      else TEE_SUCCESS)"

section \<open>Operations\<close>

text \<open>The search does not stop at a match: the last one counts.\<close>

fun pobj_search :: "'u \<Rightarrow> u8 list \<Rightarrow> nat \<Rightarrow> 'u tee_pobjs \<Rightarrow> 'u tee_pobj option \<Rightarrow> 'u tee_pobj option" where
  "pobj_search uuid obj_id fops [] obj = obj"
| "pobj_search uuid obj_id fops (o1 # objs) obj =
     pobj_search uuid obj_id fops objs
       (if length obj_id = length (po_obj_id o1) \<and> obj_id = po_obj_id o1 \<and> uuid = po_uuid o1 \<and> fops = po_fops o1
        then Some o1 else obj)"

definition update_obj :: "nat \<Rightarrow> ('u tee_pobj \<Rightarrow> 'u tee_pobj) \<Rightarrow> 'u tee_pobjs \<Rightarrow> 'u tee_pobjs" where
  "update_obj a f = map (\<lambda>o1. if po_addr o1 = a then f o1 else o1)"

text \<open>
  Opening; \<open>mem\<close> is the address of a new object unless the first allocation fails, and \<open>mem_id\<close>
  whether there is memory for a copy of the identifier.
\<close>

definition tee_pobj_get ::
  "nat option \<Rightarrow> bool \<Rightarrow> 'u \<Rightarrow> u8 list \<Rightarrow> u32 \<Rightarrow> tee_pobj_usage \<Rightarrow> nat \<Rightarrow> 'u tee_pobjs \<Rightarrow> u32 \<times> nat option \<times> 'u tee_pobjs" where
  "tee_pobj_get mem mem_id uuid obj_id flags usage fops objs = (case pobj_search uuid obj_id fops objs None of
     Some obj \<Rightarrow>
       if usage = TEE_POBJ_USAGE_ENUM
       then (TEE_SUCCESS, Some (po_addr obj), update_obj (po_addr obj) (\<lambda>x. x\<lparr>refcnt := refcnt x + 1\<rparr>) objs)
       else if creating obj \<or> usage = TEE_POBJ_USAGE_CREATE \<and> flags AND TEE_DATA_FLAG_OVERWRITE = 0
       then (TEE_ERROR_ACCESS_CONFLICT, None, objs)
       else
         let res = tee_pobj_check_access (po_flags obj) flags in
         if res = TEE_SUCCESS
         then (res, Some (po_addr obj), update_obj (po_addr obj) (\<lambda>x. x\<lparr>refcnt := refcnt x + 1\<rparr>) objs)
         else (res, None, objs)
   | None \<Rightarrow> (case mem of
       None \<Rightarrow> (TEE_ERROR_OUT_OF_MEMORY, None, objs)
     | Some a \<Rightarrow>
         if \<not> mem_id then (TEE_ERROR_OUT_OF_MEMORY, None, objs)
         else (TEE_SUCCESS, Some a, objs @ [\<lparr>po_addr = a, refcnt = 1, po_uuid = uuid, po_obj_id = obj_id, po_flags = flags,
           obj_info_usage = 0, temporary = (usage = TEE_POBJ_USAGE_CREATE), creating = (usage = TEE_POBJ_USAGE_CREATE), po_fops = fops\<rparr>])))"

definition tee_pobj_create_final :: "nat \<Rightarrow> 'u tee_pobjs \<Rightarrow> 'u tee_pobjs" where
  "tee_pobj_create_final a = update_obj a (\<lambda>x. x\<lparr>temporary := False, creating := False\<rparr>)"

definition tee_pobj_release :: "nat option \<Rightarrow> 'u tee_pobjs \<Rightarrow> u32 \<times> 'u tee_pobjs" where
  "tee_pobj_release obj objs = (case obj of
     None \<Rightarrow> (TEE_ERROR_BAD_PARAMETERS, objs)
   | Some a \<Rightarrow>
       let objs' = update_obj a (\<lambda>x. x\<lparr>refcnt := refcnt x - 1\<rparr>) objs in
       (TEE_SUCCESS, filter (\<lambda>x. \<not> (po_addr x = a \<and> refcnt x = 0)) objs'))"

definition tee_pobj_rename :: "bool \<Rightarrow> nat option \<Rightarrow> u8 list option \<Rightarrow> 'u tee_pobjs \<Rightarrow> u32 \<times> 'u tee_pobjs" where
  "tee_pobj_rename mem obj obj_id objs = (case (obj, obj_id) of
     (Some a, Some new_id) \<Rightarrow>
       if \<exists>x \<in> set objs. po_addr x = a \<and> refcnt x \<noteq> 1 then (TEE_ERROR_BAD_STATE, objs)
       else if \<not> mem then (TEE_ERROR_OUT_OF_MEMORY, objs)
       else (TEE_SUCCESS, update_obj a (\<lambda>x. x\<lparr>po_obj_id := new_id\<rparr>) objs)
   | _ \<Rightarrow> (TEE_ERROR_BAD_PARAMETERS, objs))"

section \<open>Handles\<close>

text \<open>
  The handles that are open: how each came to its object, and the flags it was opened with. An
  enumerator does not access the object and is not subject to the access rule.
\<close>

datatype how = Creator | Sharer | Enumerator

record 'u pobj_sys =
  objs :: "'u tee_pobjs"
  handles :: "(nat \<times> u32 \<times> how) list"

definition opened :: "tee_pobj_usage \<Rightarrow> bool \<Rightarrow> how" where
  "opened usage fresh = (if usage = TEE_POBJ_USAGE_ENUM then Enumerator else if fresh then Creator else Sharer)"

inductive pobj_step :: "'u pobj_sys \<Rightarrow> 'u pobj_sys \<Rightarrow> bool" where
  get: "tee_pobj_get mem mem_id uuid oid flags usage fops (objs s) = (TEE_SUCCESS, Some a, objs') \<Longrightarrow>
    (\<And>a. mem = Some a \<Longrightarrow> a \<notin> po_addr ` set (objs s)) \<Longrightarrow> length (handles s) < 2 ^ 32 - 1 \<Longrightarrow>
    pobj_step s \<lparr>objs = objs', handles = (a, flags, opened usage (a \<notin> po_addr ` set (objs s))) # handles s\<rparr>"
| create_final: "pobj_step s (s\<lparr>objs := tee_pobj_create_final a (objs s)\<rparr>)"
| release: "handles s = hs1 @ (a, f, k) # hs2 \<Longrightarrow>
    pobj_step s \<lparr>objs = snd (tee_pobj_release (Some a) (objs s)), handles = hs1 @ hs2\<rparr>"
| rename: "pobj_step s (s\<lparr>objs := snd (tee_pobj_rename mem (Some a) (Some new_id) (objs s))\<rparr>)"

section \<open>The access rule\<close>

lemma check_sym: "tee_pobj_check_access f g = TEE_SUCCESS \<longleftrightarrow> tee_pobj_check_access g f = TEE_SUCCESS"
  by (auto simp: tee_pobj_check_access_def)

lemma check_trans:
  "tee_pobj_check_access p f = TEE_SUCCESS \<Longrightarrow> tee_pobj_check_access p g = TEE_SUCCESS \<Longrightarrow> tee_pobj_check_access f g = TEE_SUCCESS"
  by (auto simp: tee_pobj_check_access_def split: if_splits)

lemma check_means:
  assumes "tee_pobj_check_access f g = TEE_SUCCESS"
  shows "(f OR g) AND TEE_DATA_FLAG_ACCESS_WRITE_META = 0
    \<and> ((f OR g) AND TEE_DATA_FLAG_ACCESS_READ \<noteq> 0 \<longrightarrow> f AND g AND TEE_DATA_FLAG_SHARE_READ \<noteq> 0)
    \<and> ((f OR g) AND TEE_DATA_FLAG_ACCESS_WRITE \<noteq> 0 \<longrightarrow> f AND g AND TEE_DATA_FLAG_SHARE_WRITE \<noteq> 0)"
proof -
  have b: "(x AND TEE_DATA_FLAG_ACCESS_READ = 0) = (\<not> bit x 0)" "(x AND TEE_DATA_FLAG_ACCESS_WRITE = 0) = (\<not> bit x 1)"
    "(x AND TEE_DATA_FLAG_ACCESS_WRITE_META = 0) = (\<not> bit x 2)" "(x AND TEE_DATA_FLAG_SHARE_READ = 0) = (\<not> bit x 4)"
    "(x AND TEE_DATA_FLAG_SHARE_WRITE = 0) = (\<not> bit x 5)" for x :: u32
    using and_exp_eq_0_iff_not_bit [of x 0] and_exp_eq_0_iff_not_bit [of x 1] and_exp_eq_0_iff_not_bit [of x 2]
      and_exp_eq_0_iff_not_bit [of x 4] and_exp_eq_0_iff_not_bit [of x 5] by simp_all
  show ?thesis
    using assms unfolding tee_pobj_check_access_def and.assoc [symmetric] b by (auto simp: bit_or_iff bit_and_iff split: if_splits)
qed

section \<open>The invariant\<close>

definition cnt :: "nat \<Rightarrow> (nat \<times> u32 \<times> how) list \<Rightarrow> nat" where
  "cnt a hs = length (filter (\<lambda>h. fst h = a) hs)"

definition creators :: "nat \<Rightarrow> (nat \<times> u32 \<times> how) list \<Rightarrow> nat" where
  "creators a hs = length (filter (\<lambda>h. fst h = a \<and> snd (snd h) = Creator) hs)"

text \<open>What a handle may rely on, given its object.\<close>

definition granted_by :: "'u tee_pobj \<Rightarrow> nat \<times> u32 \<times> how \<Rightarrow> bool" where
  "granted_by x h \<longleftrightarrow> po_addr x = fst h \<and> (snd (snd h) = Creator \<longrightarrow> fst (snd h) = po_flags x) \<and>
     (snd (snd h) = Sharer \<longrightarrow> tee_pobj_check_access (po_flags x) (fst (snd h)) = TEE_SUCCESS)"

definition pobj_inv :: "'u pobj_sys \<Rightarrow> bool" where
  "pobj_inv s \<longleftrightarrow> distinct (map po_addr (objs s)) \<and> length (handles s) < 2 ^ 32 \<and>
     (\<forall>x \<in> set (objs s). refcnt x = of_nat (cnt (po_addr x) (handles s)) \<and> 0 < cnt (po_addr x) (handles s)) \<and>
     (\<forall>h \<in> set (handles s). \<exists>x \<in> set (objs s). granted_by x h) \<and> (\<forall>a. creators a (handles s) \<le> 1)"

lemma cnt_simps [simp]:
  "cnt a [] = 0" "cnt a (h # hs) = (if fst h = a then Suc (cnt a hs) else cnt a hs)" "cnt a (hs @ hs') = cnt a hs + cnt a hs'"
  by (simp_all add: cnt_def)

lemma creators_simps [simp]:
  "creators a [] = 0"
  "creators a (h # hs) = (if fst h = a \<and> snd (snd h) = Creator then Suc (creators a hs) else creators a hs)"
  "creators a (hs @ hs') = creators a hs + creators a hs'"
  by (simp_all add: creators_def)

lemma cnt_0_iff: "cnt a hs = 0 \<longleftrightarrow> a \<notin> fst ` set hs"
  by (induction hs) auto

lemma cnt_le: "cnt a hs \<le> length hs"
  by (simp add: cnt_def)

lemma creators_le: "creators a hs \<le> cnt a hs"
  by (induction hs) auto

lemma search_in: "pobj_search uuid oid fops l d = Some x \<Longrightarrow> x \<in> set l \<or> d = Some x"
  by (induction uuid oid fops l d rule: pobj_search.induct) (auto split: if_splits)

lemma update_addrs: "(\<And>x. po_addr (f x) = po_addr x) \<Longrightarrow> map po_addr (update_obj a f l) = map po_addr l"
  by (induction l) (auto simp: update_obj_def)

lemma in_update: "x \<in> set (update_obj a f l) \<longleftrightarrow> (\<exists>y \<in> set l. x = (if po_addr y = a then f y else y))"
  by (simp only: update_obj_def set_map image_iff)

lemma pobj_invI:
  assumes "distinct (map po_addr (objs s))" "length (handles s) < 2 ^ 32"
    and "\<And>x. x \<in> set (objs s) \<Longrightarrow> refcnt x = of_nat (cnt (po_addr x) (handles s)) \<and> 0 < cnt (po_addr x) (handles s)"
    and "\<And>h. h \<in> set (handles s) \<Longrightarrow> \<exists>x \<in> set (objs s). granted_by x h" "\<And>a. creators a (handles s) \<le> 1"
  shows "pobj_inv s"
  using assms by (simp add: pobj_inv_def)

lemma pobj_invD:
  assumes "pobj_inv s"
  shows "distinct (map po_addr (objs s))" "length (handles s) < 2 ^ 32"
    "x \<in> set (objs s) \<Longrightarrow> refcnt x = of_nat (cnt (po_addr x) (handles s)) \<and> 0 < cnt (po_addr x) (handles s)"
    "h \<in> set (handles s) \<Longrightarrow> \<exists>x \<in> set (objs s). granted_by x h" "creators a (handles s) \<le> 1"
  using assms by (simp_all add: pobj_inv_def)

lemma same_addr: "distinct (map po_addr l) \<Longrightarrow> x \<in> set l \<Longrightarrow> y \<in> set l \<Longrightarrow> po_addr x = po_addr y \<Longrightarrow> x = y"
  by (auto simp: distinct_map dest: inj_onD)

text \<open>A change of the objects that the handles do not see.\<close>

lemma pobj_inv_update:
  assumes "pobj_inv s" "\<And>x. po_addr (f x) = po_addr x \<and> refcnt (f x) = refcnt x \<and> po_flags (f x) = po_flags x"
  shows "pobj_inv (s\<lparr>objs := update_obj a f (objs s)\<rparr>)"
proof (rule pobj_invI)
  fix h assume "h \<in> set (handles (s\<lparr>objs := update_obj a f (objs s)\<rparr>))"
  then obtain x where x: "x \<in> set (objs s)" "granted_by x h" using pobj_invD(4) [OF assms(1), of h] by auto
  then have "granted_by (if po_addr x = a then f x else x) h" using assms(2) by (simp add: granted_by_def)
  then show "\<exists>x \<in> set (objs (s\<lparr>objs := update_obj a f (objs s)\<rparr>)). granted_by x h"
    using x(1) by (intro bexI [of _ "if po_addr x = a then f x else x"]) (auto simp: in_update)
qed (use pobj_invD [OF assms(1)] assms(2) update_addrs [of f a "objs s"] in \<open>auto simp: in_update\<close>)

lemma inv_share:
  assumes inv: "pobj_inv s" and x: "x \<in> set (objs s)" and k: "k \<noteq> Creator" "k = Sharer \<longrightarrow> tee_pobj_check_access (po_flags x) f = TEE_SUCCESS"
    and len: "length (handles s) < 2 ^ 32 - 1"
  shows "pobj_inv \<lparr>objs = update_obj (po_addr x) (\<lambda>x. x\<lparr>refcnt := refcnt x + 1\<rparr>) (objs s), handles = (po_addr x, f, k) # handles s\<rparr>"
    (is "pobj_inv \<lparr>objs = update_obj ?a ?f _, handles = _\<rparr>")
proof (rule pobj_invI)
  have upd: "granted_by (if po_addr y = ?a then ?f y else y) h = granted_by y h" for y h by (simp add: granted_by_def)
  fix h assume h: "h \<in> set (handles \<lparr>objs = update_obj ?a ?f (objs s), handles = (?a, f, k) # handles s\<rparr>)"
  have "\<exists>y \<in> set (objs s). granted_by y h"
  proof (cases "h \<in> set (handles s)")
    case False
    then show ?thesis using h x k by (intro bexI [of _ x]) (auto simp: granted_by_def)
  qed (rule pobj_invD(4) [OF inv])
  then obtain y where "y \<in> set (objs s)" "granted_by y h" by blast
  then show "\<exists>y \<in> set (objs \<lparr>objs = update_obj ?a ?f (objs s), handles = (?a, f, k) # handles s\<rparr>). granted_by y h"
    using upd [of y h] by (intro bexI [of _ "if po_addr y = ?a then ?f y else y"]) (auto simp: in_update)
qed (use pobj_invD [OF inv] k len update_addrs [of ?f ?a "objs s"] in \<open>auto simp: in_update\<close>)

lemma inv_new:
  assumes inv: "pobj_inv s" and a: "a \<notin> po_addr ` set (objs s)" and x: "po_addr x = a" "refcnt x = 1" "po_flags x = f"
    and k: "k \<noteq> Sharer" and len: "length (handles s) < 2 ^ 32 - 1"
  shows "pobj_inv \<lparr>objs = objs s @ [x], handles = (a, f, k) # handles s\<rparr>"
proof (rule pobj_invI)
  have "fst h \<noteq> a" if held: "h \<in> set (handles s)" for h
  proof -
    obtain y where "y \<in> set (objs s)" "granted_by y h" using pobj_invD(4) [OF inv held] by blast
    then have "fst h \<in> po_addr ` set (objs s)" unfolding granted_by_def by (metis image_eqI)
    then show ?thesis using a by auto
  qed
  then have none: "cnt a (handles s) = 0" by (auto simp: cnt_0_iff)
  then have creators: "creators a (handles s) = 0" using creators_le [of a "handles s"] by simp
  fix b show "creators b (handles \<lparr>objs = objs s @ [x], handles = (a, f, k) # handles s\<rparr>) \<le> 1"
    using creators pobj_invD(5) [OF inv, of b] by auto
  fix y assume "y \<in> set (objs \<lparr>objs = objs s @ [x], handles = (a, f, k) # handles s\<rparr>)"
  then consider "y = x" | "y \<in> set (objs s)" "po_addr y \<noteq> a" using a by auto
  then show "refcnt y = of_nat (cnt (po_addr y) (handles \<lparr>objs = objs s @ [x], handles = (a, f, k) # handles s\<rparr>))
      \<and> 0 < cnt (po_addr y) (handles \<lparr>objs = objs s @ [x], handles = (a, f, k) # handles s\<rparr>)"
    using x none pobj_invD(3) [OF inv, of y] by cases auto
next
  fix h assume "h \<in> set (handles \<lparr>objs = objs s @ [x], handles = (a, f, k) # handles s\<rparr>)"
  then consider "h = (a, f, k)" | "h \<in> set (handles s)" by auto
  then show "\<exists>y \<in> set (objs \<lparr>objs = objs s @ [x], handles = (a, f, k) # handles s\<rparr>). granted_by y h"
    using x k pobj_invD(4) [OF inv, of h] by cases (auto simp: granted_by_def)
qed (use pobj_invD(1,2) [OF inv] a x(1) len in auto)

lemma inv_release:
  assumes inv: "pobj_inv s" and hs: "handles s = hs1 @ (a, f, k) # hs2"
  shows "pobj_inv \<lparr>objs = snd (tee_pobj_release (Some a) (objs s)), handles = hs1 @ hs2\<rparr>"
    (is "pobj_inv \<lparr>objs = ?o, handles = ?h\<rparr>")
proof (rule pobj_invI)
  let ?f = "\<lambda>x. x\<lparr>refcnt := refcnt x - 1\<rparr>"
  have o: "?o = filter (\<lambda>x. \<not> (po_addr x = a \<and> refcnt x = 0)) (update_obj a ?f (objs s))" by (simp add: tee_pobj_release_def)
  have c: "cnt a (handles s) = Suc (cnt a ?h)" "\<And>b. b \<noteq> a \<Longrightarrow> cnt b (handles s) = cnt b ?h" using hs by auto
  have lt: "cnt a ?h < 2 ^ 32" using pobj_invD(2) [OF inv] cnt_le [of a ?h] hs by simp
  have zero: "(of_nat (cnt a ?h) :: u32) = 0 \<longleftrightarrow> cnt a ?h = 0" using unat_of_nat_32 [OF lt] unat_eq_zero [of "of_nat (cnt a ?h) :: u32"] by simp
  have ref: "refcnt x - 1 = of_nat (cnt a ?h)" if "x \<in> set (objs s)" "po_addr x = a" for x
    using pobj_invD(3) [OF inv that(1)] that(2) c(1) by simp
  fix x assume "x \<in> set (objs \<lparr>objs = ?o, handles = ?h\<rparr>)"
  then obtain y where y: "y \<in> set (objs s)" "x = (if po_addr y = a then ?f y else y)" "\<not> (po_addr x = a \<and> refcnt x = 0)"
    by (auto simp: o in_update)
  show "refcnt x = of_nat (cnt (po_addr x) (handles \<lparr>objs = ?o, handles = ?h\<rparr>)) \<and> 0 < cnt (po_addr x) (handles \<lparr>objs = ?o, handles = ?h\<rparr>)"
    using y ref [OF y(1)] zero pobj_invD(3) [OF inv y(1)] c(2) by (cases "po_addr y = a") auto
next
  let ?f = "\<lambda>x. x\<lparr>refcnt := refcnt x - 1\<rparr>"
  fix h assume "h \<in> set (handles \<lparr>objs = ?o, handles = ?h\<rparr>)"
  then have h: "h \<in> set ?h" by simp
  then obtain x where x: "x \<in> set (objs s)" "granted_by x h" using pobj_invD(4) [OF inv, of h] hs by auto
  have pos: "0 < cnt (fst h) ?h" using h cnt_0_iff [of "fst h" ?h] by blast
  have lt: "cnt a ?h < 2 ^ 32" using pobj_invD(2) [OF inv] cnt_le [of a ?h] hs by simp
  have "refcnt x - 1 \<noteq> 0" if "po_addr x = a"
  proof -
    have "refcnt x - 1 = of_nat (cnt a ?h)" using pobj_invD(3) [OF inv x(1)] that hs by simp
    moreover have "unat (of_nat (cnt a ?h) :: u32) \<noteq> 0"
      using unat_of_nat_32 [OF lt] pos that x(2) by (simp add: granted_by_def)
    ultimately show ?thesis by auto
  qed
  then have "(if po_addr x = a then ?f x else x) \<in> set ?o"
    using x(1) unfolding tee_pobj_release_def by (simp add: Let_def in_update) force
  moreover have "granted_by (if po_addr x = a then ?f x else x) h" using x(2) by (simp add: granted_by_def)
  ultimately show "\<exists>x \<in> set (objs \<lparr>objs = ?o, handles = ?h\<rparr>). granted_by x h" by auto
next
  have "map po_addr (update_obj a (\<lambda>x. x\<lparr>refcnt := refcnt x - 1\<rparr>) (objs s)) = map po_addr (objs s)"
    by (rule update_addrs) simp
  then show "distinct (map po_addr (objs \<lparr>objs = ?o, handles = ?h\<rparr>))"
    using pobj_invD(1) [OF inv] by (simp add: tee_pobj_release_def distinct_map_filter)
next
  show "length (handles \<lparr>objs = ?o, handles = ?h\<rparr>) < 2 ^ 32" using pobj_invD(2) [OF inv] hs by simp
  fix b show "creators b (handles \<lparr>objs = ?o, handles = ?h\<rparr>) \<le> 1" using pobj_invD(5) [OF inv, of b] hs by (simp split: if_splits)
qed

section \<open>Every reachable table\<close>

lemma get_inv:
  assumes inv: "pobj_inv s" and g: "tee_pobj_get mem mem_id uuid oid flags usage fops (objs s) = (TEE_SUCCESS, Some a, objs')"
    and fresh: "\<And>a. mem = Some a \<Longrightarrow> a \<notin> po_addr ` set (objs s)" and len: "length (handles s) < 2 ^ 32 - 1"
  shows "pobj_inv \<lparr>objs = objs', handles = (a, flags, opened usage (a \<notin> po_addr ` set (objs s))) # handles s\<rparr>"
proof (cases "pobj_search uuid oid fops (objs s) None")
  case None
  obtain b where b: "mem = Some b" "a = b" "objs' = objs s @ [\<lparr>po_addr = b, refcnt = 1, po_uuid = uuid, po_obj_id = oid,
      po_flags = flags, obj_info_usage = 0, temporary = (usage = TEE_POBJ_USAGE_CREATE),
      creating = (usage = TEE_POBJ_USAGE_CREATE), po_fops = fops\<rparr>]"
    using g None by (auto simp: tee_pobj_get_def split: option.splits if_splits)
  then show ?thesis using fresh [OF b(1)] by (simp, intro inv_new [OF inv _ _ _ _ _ len]) (auto simp: opened_def)
next
  case (Some x)
  have x: "x \<in> set (objs s)" using search_in [OF Some] by simp
  have o: "objs' = update_obj (po_addr x) (\<lambda>x. x\<lparr>refcnt := refcnt x + 1\<rparr>) (objs s)" "a = po_addr x"
    "usage \<noteq> TEE_POBJ_USAGE_ENUM \<longrightarrow> tee_pobj_check_access (po_flags x) flags = TEE_SUCCESS"
    using g Some by (auto simp: tee_pobj_get_def Let_def split: if_splits)
  have "opened usage False \<noteq> Creator" "opened usage False = Sharer \<longrightarrow> tee_pobj_check_access (po_flags x) flags = TEE_SUCCESS"
    using o(3) by (simp_all add: opened_def)
  then show ?thesis using inv_share [OF inv x _ _ len] x by (simp add: o)
qed

lemma pobj_step_inv: "pobj_step s s' \<Longrightarrow> pobj_inv s \<Longrightarrow> pobj_inv s'"
proof (induction rule: pobj_step.induct)
  case get
  then show ?case by (intro get_inv)
next
  case (create_final s a)
  then show ?case unfolding tee_pobj_create_final_def by (intro pobj_inv_update) simp_all
next
  case release
  then show ?case by (intro inv_release)
next
  case (rename s mem a new_id)
  have "pobj_inv (s\<lparr>objs := update_obj a (\<lambda>x. x\<lparr>po_obj_id := new_id\<rparr>) (objs s)\<rparr>)" by (rule pobj_inv_update [OF rename]) simp
  then show ?case using rename by (simp add: tee_pobj_rename_def)
qed

definition no_objs :: "'u pobj_sys" where
  "no_objs = \<lparr>objs = [], handles = []\<rparr>"

lemma no_objs_inv: "pobj_inv no_objs"
  by (simp add: no_objs_def pobj_inv_def)

lemma pobj_steps_inv: "rtranclp pobj_step no_objs s \<Longrightarrow> pobj_inv s"
  by (induction rule: rtranclp_induct) (auto intro: no_objs_inv pobj_step_inv)

text \<open>Two handles that are not enumerators.\<close>

lemma handles_compatible:
  assumes inv: "pobj_inv s" and hs: "handles s = hs1 @ (a, f, k) # hs2 @ (a, g, l) # hs3" and kl: "k \<noteq> Enumerator" "l \<noteq> Enumerator"
  shows "tee_pobj_check_access f g = TEE_SUCCESS"
proof -
  have "creators a (handles s) \<le> 1" using pobj_invD(5) [OF inv] .
  then have one: "\<not> (k = Creator \<and> l = Creator)" using hs by auto
  obtain x where x: "x \<in> set (objs s)" "granted_by x (a, f, k)" using pobj_invD(4) [OF inv, of "(a, f, k)"] hs by auto
  obtain y where y: "y \<in> set (objs s)" "granted_by y (a, g, l)" using pobj_invD(4) [OF inv, of "(a, g, l)"] hs by auto
  have "y = x" using same_addr [OF pobj_invD(1) [OF inv] y(1) x(1)] x(2) y(2) by (simp add: granted_by_def)
  then show ?thesis
    using x(2) y(2) one kl check_trans [of "po_flags x" f g] check_sym [of f g]
    by (cases k; cases l) (simp_all add: granted_by_def)
qed

section \<open>Properties\<close>

text \<open>
  Claim C40: after any sequence of opening, finishing a creation, renaming and releasing, an object is
  in the table exactly as long as some handle is open on it, with the number of these handles as its
  reference count; any two handles that access the same object have compatible flags, so with two
  such handles nobody may write the metadata, reading requires that both share reading, and writing
  that both share writing; and an object with more than one handle cannot be renamed.
\<close>

theorem pobj_shared_safely:
  assumes "rtranclp pobj_step no_objs s"
  shows "(\<forall>a. (\<exists>x \<in> set (objs s). po_addr x = a) \<longleftrightarrow> (\<exists>h \<in> set (handles s). fst h = a))
       \<and> (\<forall>x \<in> set (objs s). unat (refcnt x) = length (filter (\<lambda>h. fst h = po_addr x) (handles s)))
       \<and> (\<forall>hs1 hs2 hs3 a f k g l. handles s = hs1 @ (a, f, k) # hs2 @ (a, g, l) # hs3 \<longrightarrow> k \<noteq> Enumerator \<longrightarrow> l \<noteq> Enumerator \<longrightarrow>
            (f OR g) AND TEE_DATA_FLAG_ACCESS_WRITE_META = 0
          \<and> ((f OR g) AND TEE_DATA_FLAG_ACCESS_READ \<noteq> 0 \<longrightarrow> f AND g AND TEE_DATA_FLAG_SHARE_READ \<noteq> 0)
          \<and> ((f OR g) AND TEE_DATA_FLAG_ACCESS_WRITE \<noteq> 0 \<longrightarrow> f AND g AND TEE_DATA_FLAG_SHARE_WRITE \<noteq> 0))
       \<and> (\<forall>a mem new_id. a \<in> fst ` set (handles s) \<longrightarrow> length (filter (\<lambda>h. fst h = a) (handles s)) \<noteq> 1 \<longrightarrow>
            tee_pobj_rename mem (Some a) (Some new_id) (objs s) = (TEE_ERROR_BAD_STATE, objs s))"
proof (intro conjI)
  have inv: "pobj_inv s" by (rule pobj_steps_inv [OF assms])
  note D = pobj_invD [OF inv]
  have cnt: "length (filter (\<lambda>h. fst h = a) (handles s)) = cnt a (handles s)" for a by (simp add: cnt_def)
  have ref: "unat (refcnt x) = cnt (po_addr x) (handles s)" if "x \<in> set (objs s)" for x
    using D(3) [OF that] unat_of_nat_32 [of "cnt (po_addr x) (handles s)"] cnt_le [of "po_addr x" "handles s"] D(2) by simp
  show "\<forall>a. (\<exists>x \<in> set (objs s). po_addr x = a) \<longleftrightarrow> (\<exists>h \<in> set (handles s). fst h = a)"
  proof (intro allI iffI)
    fix a assume "\<exists>x \<in> set (objs s). po_addr x = a"
    then have "cnt a (handles s) \<noteq> 0" using D(3) by auto
    then show "\<exists>h \<in> set (handles s). fst h = a" unfolding cnt_0_iff by auto
  next
    fix a assume "\<exists>h \<in> set (handles s). fst h = a"
    then obtain h where "h \<in> set (handles s)" "fst h = a" by blast
    then show "\<exists>x \<in> set (objs s). po_addr x = a" using D(4) unfolding granted_by_def by metis
  qed
  show "\<forall>x \<in> set (objs s). unat (refcnt x) = length (filter (\<lambda>h. fst h = po_addr x) (handles s))" using ref cnt by simp
  show "\<forall>hs1 hs2 hs3 a f k g l. handles s = hs1 @ (a, f, k) # hs2 @ (a, g, l) # hs3 \<longrightarrow> k \<noteq> Enumerator \<longrightarrow> l \<noteq> Enumerator \<longrightarrow>
            (f OR g) AND TEE_DATA_FLAG_ACCESS_WRITE_META = 0
          \<and> ((f OR g) AND TEE_DATA_FLAG_ACCESS_READ \<noteq> 0 \<longrightarrow> f AND g AND TEE_DATA_FLAG_SHARE_READ \<noteq> 0)
          \<and> ((f OR g) AND TEE_DATA_FLAG_ACCESS_WRITE \<noteq> 0 \<longrightarrow> f AND g AND TEE_DATA_FLAG_SHARE_WRITE \<noteq> 0)"
    using check_means [OF handles_compatible [OF inv]] by blast
  show "\<forall>a mem new_id. a \<in> fst ` set (handles s) \<longrightarrow> length (filter (\<lambda>h. fst h = a) (handles s)) \<noteq> 1 \<longrightarrow>
      tee_pobj_rename mem (Some a) (Some new_id) (objs s) = (TEE_ERROR_BAD_STATE, objs s)"
  proof (intro allI impI)
    fix a mem new_id assume a: "a \<in> fst ` set (handles s)" "length (filter (\<lambda>h. fst h = a) (handles s)) \<noteq> 1"
    then obtain x where x: "x \<in> set (objs s)" "po_addr x = a" using D(4) unfolding granted_by_def by fastforce
    then have "refcnt x \<noteq> 1" using ref [OF x(1)] a(2) cnt by auto
    then show "tee_pobj_rename mem (Some a) (Some new_id) (objs s) = (TEE_ERROR_BAD_STATE, objs s)"
      using x by (auto simp: tee_pobj_rename_def)
  qed
qed

text \<open>A reader that shares reading, a second one, and the rename that is refused until one of them leaves.\<close>

definition two_readers :: "nat pobj_sys" where
  "two_readers = \<lparr>objs = [\<lparr>po_addr = 4, refcnt = 2, po_uuid = 7, po_obj_id = [1], po_flags = 0x11, obj_info_usage = 0,
     temporary = False, creating = False, po_fops = 0\<rparr>], handles = [(4, 0x11, Sharer), (4, 0x11, Creator)]\<rparr>"

lemma two_readers_reached: "rtranclp pobj_step no_objs two_readers"
proof -
  let ?o = "\<lambda>n. \<lparr>po_addr = 4, refcnt = n, po_uuid = 7 :: nat, po_obj_id = [1], po_flags = 0x11, obj_info_usage = 0,
     temporary = False, creating = False, po_fops = 0\<rparr>"
  have "pobj_step no_objs \<lparr>objs = [?o 1], handles = [(4, 0x11, opened TEE_POBJ_USAGE_OPEN True)]\<rparr>"
    using pobj_step.get [where mem = "Some 4" and mem_id = True and uuid = "7 :: nat" and oid = "[1]" and flags = "0x11"
        and usage = TEE_POBJ_USAGE_OPEN and fops = 0 and s = no_objs and objs' = "[?o 1]"]
    by (simp add: no_objs_def tee_pobj_get_def)
  moreover have "pobj_step \<lparr>objs = [?o 1], handles = [(4, 0x11, Creator)]\<rparr>
      \<lparr>objs = [?o 2], handles = [(4, 0x11, opened TEE_POBJ_USAGE_OPEN False), (4, 0x11, Creator)]\<rparr>"
    using pobj_step.get [where mem = None and mem_id = True and uuid = "7 :: nat" and oid = "[1]" and flags = "0x11"
        and usage = TEE_POBJ_USAGE_OPEN and fops = 0 and s = "\<lparr>objs = [?o 1], handles = [(4, 0x11, Creator)]\<rparr>" and objs' = "[?o 2]"]
    by (simp add: tee_pobj_get_def tee_pobj_check_access_def update_obj_def)
  ultimately show ?thesis by (simp add: opened_def two_readers_def)
qed

theorem pobj_shared_safely_witness:
  "two_readers \<noteq> no_objs \<and> tee_pobj_rename True (Some 4) (Some [2]) (objs two_readers) = (TEE_ERROR_BAD_STATE, objs two_readers)
   \<and> (0x11 :: u32) AND 0x11 AND TEE_DATA_FLAG_SHARE_READ \<noteq> 0"
  using pobj_shared_safely [OF two_readers_reached] by (simp add: two_readers_def no_objs_def)

end
