(* ===== verification/Teec.thy ===== *)
theory Teec
  imports Optee_Prelude
begin

text \<open>
  The client library of \<open>libteec/src/tee_client_api.c\<close>: shared memory, the preparation of an
  operation's parameters before a call into the driver, and what happens to them afterwards.
  Memory is a store of blocks, a pointer the address of a block, so that buffers the library
  registers in place alias the caller's. What the operating system answers (file descriptors,
  identifiers, allocations) and the driver calls themselves are parameters.
\<close>

section \<open>Structures\<close>

type_synonym addr = nat

abbreviation (input) TEEC_ORIGIN_API :: u32 where "TEEC_ORIGIN_API \<equiv> 1"
abbreviation (input) TEEC_ORIGIN_COMMS :: u32 where "TEEC_ORIGIN_COMMS \<equiv> 2"
abbreviation (input) TEEC_MEM_INPUT :: u32 where "TEEC_MEM_INPUT \<equiv> 1"
abbreviation (input) TEEC_MEM_OUTPUT :: u32 where "TEEC_MEM_OUTPUT \<equiv> 2"
abbreviation (input) TEEC_NONE :: u32 where "TEEC_NONE \<equiv> 0"
abbreviation (input) TEEC_VALUE_INPUT :: u32 where "TEEC_VALUE_INPUT \<equiv> 1"
abbreviation (input) TEEC_VALUE_OUTPUT :: u32 where "TEEC_VALUE_OUTPUT \<equiv> 2"
abbreviation (input) TEEC_VALUE_INOUT :: u32 where "TEEC_VALUE_INOUT \<equiv> 3"
abbreviation (input) TEEC_MEMREF_TEMP_INPUT :: u32 where "TEEC_MEMREF_TEMP_INPUT \<equiv> 5"
abbreviation (input) TEEC_MEMREF_TEMP_OUTPUT :: u32 where "TEEC_MEMREF_TEMP_OUTPUT \<equiv> 6"
abbreviation (input) TEEC_MEMREF_TEMP_INOUT :: u32 where "TEEC_MEMREF_TEMP_INOUT \<equiv> 7"
abbreviation (input) TEEC_MEMREF_WHOLE :: u32 where "TEEC_MEMREF_WHOLE \<equiv> 0xC"
abbreviation (input) TEEC_MEMREF_PARTIAL_INPUT :: u32 where "TEEC_MEMREF_PARTIAL_INPUT \<equiv> 0xD"
abbreviation (input) TEEC_MEMREF_PARTIAL_OUTPUT :: u32 where "TEEC_MEMREF_PARTIAL_OUTPUT \<equiv> 0xE"
abbreviation (input) TEEC_MEMREF_PARTIAL_INOUT :: u32 where "TEEC_MEMREF_PARTIAL_INOUT \<equiv> 0xF"
abbreviation (input) SHM_FLAG_BUFFER_ALLOCED :: u32 where "SHM_FLAG_BUFFER_ALLOCED \<equiv> 1"
abbreviation (input) SHM_FLAG_SHADOW_BUFFER_ALLOCED :: u32 where "SHM_FLAG_SHADOW_BUFFER_ALLOCED \<equiv> 2"
abbreviation (input) NULL :: addr where "NULL \<equiv> 0"
abbreviation (input) MAP_FAILED :: addr where "MAP_FAILED \<equiv> 2 ^ 64 - 1"
abbreviation (input) TEE_MEMREF_NULL :: u64 where "TEE_MEMREF_NULL \<equiv> - 1"

record TEEC_Context =
  cx_reg_mem :: bool
  cx_memref_null :: bool

record TEEC_SharedMemory =
  sm_buffer :: addr
  sm_size :: u64
  sm_flags :: u32
  im_id :: int
  im_alloced_size :: u64
  im_shadow_buffer :: addr
  im_registered_fd :: int
  im_flags :: u32

text \<open>
  The union of parameters. The library never changes the shared memory a registered reference
  points to, so the reference carries it.
\<close>

datatype TEEC_Parameter =
    T_none
  | T_value u32 u32
  | T_tmpref addr u64
  | T_memref TEEC_SharedMemory u64 u64

record TEEC_Operation =
  ot_paramTypes :: u32
  ot_params :: "TEEC_Parameter list"

record tee_ioctl_param =
  ip_attr :: u64
  ip_a :: u64
  ip_b :: u64
  ip_c :: u64

definition TEEC_PARAM_TYPE_GET :: "u32 \<Rightarrow> nat \<Rightarrow> u32" where
  "TEEC_PARAM_TYPE_GET p i = drop_bit (i * 4) p AND 0xF"

section \<open>The world around the library\<close>

text \<open>
  Live blocks of memory, open descriptors of shared memory, the block behind each identifier
  the driver has given out, and the state of whatever answers the driver.
\<close>

record 's teec_world =
  tw_mem :: "addr \<Rightarrow> u8 list option"
  tw_fds :: "int set"
  tw_reg :: "int \<Rightarrow> addr option"
  tw_peer :: 's

text \<open>
  What the operating system answers; the first argument numbers the requests of a call, so that
  equal requests may have different answers.
\<close>

record teec_os =
  os_page :: u64
  os_register :: "nat \<Rightarrow> int set \<Rightarrow> (int \<Rightarrow> addr option) \<Rightarrow> (int \<times> int) option"
  os_alloc :: "nat \<Rightarrow> (addr \<Rightarrow> u8 list option) \<Rightarrow> addr option"
  os_contents :: "nat \<Rightarrow> nat \<Rightarrow> u8"
  os_enomem :: "nat \<Rightarrow> bool"

definition os_ok :: "teec_os \<Rightarrow> bool" where
  "os_ok os \<longleftrightarrow> os_page os \<noteq> 0 \<and>
     (\<forall>k fds reg fd ident. os_register os k fds reg = Some (fd, ident) \<longrightarrow>
        0 \<le> fd \<and> fd \<notin> fds \<and> 0 \<le> ident \<and> ident < 2 ^ 31 \<and> reg ident = None) \<and>
     (\<forall>k mem p. os_alloc os k mem = Some p \<longrightarrow> p \<noteq> NULL \<and> mem p = None)"

definition mem_block :: "'s teec_world \<Rightarrow> addr \<Rightarrow> u8 list res" where
  "mem_block w p = (case tw_mem w p of None \<Rightarrow> Inl Out_of_bounds | Some b \<Rightarrow> Inr b)"

definition memcpy :: "'s teec_world \<Rightarrow> addr \<Rightarrow> nat \<Rightarrow> addr \<Rightarrow> nat \<Rightarrow> nat \<Rightarrow> 's teec_world res" where
  "memcpy w dst doff src soff n =
     cbind (mem_block w src) (\<lambda>sb. cbind (mem_read sb soff n) (\<lambda>bs.
     cbind (mem_block w dst) (\<lambda>db. cbind (mem_write db doff bs) (\<lambda>db.
     Inr (w\<lparr>tw_mem := (tw_mem w)(dst \<mapsto> db)\<rparr>)))))"

text \<open>
  Freeing what is not allocated is an error, as is unmapping anything but a whole mapping.
\<close>

definition free_block :: "addr \<Rightarrow> 's teec_world \<Rightarrow> 's teec_world res" where
  "free_block p w = cbind (mem_block w p) (\<lambda>_. Inr (w\<lparr>tw_mem := (tw_mem w)(p := None)\<rparr>))"

definition munmap :: "addr \<Rightarrow> u64 \<Rightarrow> 's teec_world \<Rightarrow> 's teec_world res" where
  "munmap p sz w =
     cbind (mem_block w p) (\<lambda>b. cbind (cguard Out_of_bounds (length b = unat sz)) (\<lambda>_. free_block p w))"

definition close_fd :: "int \<Rightarrow> 's teec_world \<Rightarrow> 's teec_world" where
  "close_fd fd w = w\<lparr>tw_fds := tw_fds w - {fd}\<rparr>"

definition new_block :: "teec_os \<Rightarrow> nat \<Rightarrow> addr \<Rightarrow> u64 \<Rightarrow> 's teec_world \<Rightarrow> 's teec_world" where
  "new_block os k p sz w = w\<lparr>tw_mem := (tw_mem w)(p \<mapsto> map (os_contents os k) [0..<unat sz])\<rparr>"

definition teec_paged_aligned_alloc ::
  "teec_os \<Rightarrow> nat \<Rightarrow> u64 \<Rightarrow> 's teec_world \<Rightarrow> addr \<times> 's teec_world" where
  "teec_paged_aligned_alloc os k sz w =
     (let aligned_sz = (sz + os_page os - 1) div os_page os * os_page os in
      if aligned_sz \<ge> sz then
        (case os_alloc os k (tw_mem w) of
           Some p \<Rightarrow> (p, new_block os k p aligned_sz w)
         | None \<Rightarrow> (NULL, w))
      else (NULL, w))"

text \<open>The descriptor, or -1; the identifier is stored in case of success only.\<close>

definition teec_shm_register ::
  "teec_os \<Rightarrow> nat \<Rightarrow> addr \<Rightarrow> TEEC_SharedMemory \<Rightarrow> 's teec_world \<Rightarrow> int \<times> TEEC_SharedMemory \<times> 's teec_world" where
  "teec_shm_register os k buf shm w =
     (case os_register os k (tw_fds w) (tw_reg w) of
        None \<Rightarrow> (- 1, shm, w)
      | Some (fd, ident) \<Rightarrow>
          (fd, shm\<lparr>im_id := ident\<rparr>, w\<lparr>tw_fds := insert fd (tw_fds w), tw_reg := (tw_reg w)(ident \<mapsto> buf)\<rparr>))"

text \<open>
  Memory of the driver: \<open>teec_shm_alloc\<close> gives a descriptor and an identifier, \<open>mmap\<close> of the
  descriptor the block behind that identifier.
\<close>

definition teec_shm_alloc ::
  "teec_os \<Rightarrow> nat \<Rightarrow> TEEC_SharedMemory \<Rightarrow> 's teec_world \<Rightarrow> int \<times> TEEC_SharedMemory \<times> 's teec_world" where
  "teec_shm_alloc os k shm w =
     (case os_register os k (tw_fds w) (tw_reg w) of
        None \<Rightarrow> (- 1, shm, w)
      | Some (fd, ident) \<Rightarrow> (fd, shm\<lparr>im_id := ident\<rparr>, w\<lparr>tw_fds := insert fd (tw_fds w)\<rparr>))"

definition shm_mmap :: "teec_os \<Rightarrow> nat \<Rightarrow> u64 \<Rightarrow> int \<Rightarrow> 's teec_world \<Rightarrow> addr \<times> 's teec_world" where
  "shm_mmap os k sz ident w =
     (case os_alloc os k (tw_mem w) of
        None \<Rightarrow> (MAP_FAILED, w)
      | Some p \<Rightarrow> if p = MAP_FAILED then (MAP_FAILED, w)
          else (p, (new_block os k p sz w)\<lparr>tw_reg := (tw_reg w)(ident \<mapsto> p)\<rparr>))"

section \<open>Shared memory\<close>

definition bad_shm_flags :: "TEEC_SharedMemory \<Rightarrow> bool" where
  "bad_shm_flags shm \<longleftrightarrow> sm_flags shm = 0 \<or> sm_flags shm AND NOT (TEEC_MEM_INPUT OR TEEC_MEM_OUTPUT) \<noteq> 0"

definition TEEC_RegisterSharedMemory ::
  "teec_os \<Rightarrow> nat \<Rightarrow> TEEC_Context \<Rightarrow> TEEC_SharedMemory \<Rightarrow> 's teec_world \<Rightarrow>
   (u32 \<times> TEEC_SharedMemory \<times> 's teec_world) res" where
  "TEEC_RegisterSharedMemory os k ctx shm w =
     (if bad_shm_flags shm then Inr (TEE_ERROR_BAD_PARAMETERS, shm, w)
      else if sm_buffer shm = NULL then Inr (TEE_ERROR_BAD_PARAMETERS, shm, w)
      else
        let s = (if sm_size shm = 0 then 8 else sm_size shm) in
        if cx_reg_mem ctx then
          (case teec_shm_register os (2 * k) (sm_buffer shm) shm w of (fd, shm, w) \<Rightarrow>
           if fd \<ge> 0 then
             Inr (TEE_SUCCESS, shm\<lparr>im_registered_fd := fd, im_shadow_buffer := NULL, im_flags := 0,
                im_alloced_size := s\<rparr>, w)
           else
             (case teec_paged_aligned_alloc os k s w of (p, w) \<Rightarrow>
              let shm = shm\<lparr>im_shadow_buffer := p\<rparr> in
              if p = NULL then Inr (TEE_ERROR_OUT_OF_MEMORY, shm, w)
              else
                (case teec_shm_register os (2 * k + 1) p shm w of (fd, shm, w) \<Rightarrow>
                 if fd \<ge> 0 then
                   Inr (TEE_SUCCESS, shm\<lparr>im_registered_fd := fd, im_flags := SHM_FLAG_SHADOW_BUFFER_ALLOCED,
                      im_alloced_size := s\<rparr>, w)
                 else
                   cbind (free_block p w) (\<lambda>w.
                   Inr (if os_enomem os k then TEE_ERROR_OUT_OF_MEMORY else TEE_ERROR_GENERIC,
                     shm\<lparr>im_shadow_buffer := NULL\<rparr>, w)))))
        else
          (case teec_shm_alloc os (2 * k) shm w of (fd, shm, w) \<Rightarrow>
           if fd < 0 then Inr (TEE_ERROR_OUT_OF_MEMORY, shm, w)
           else
             (case shm_mmap os k s (im_id shm) w of (p, w) \<Rightarrow>
              let shm = shm\<lparr>im_shadow_buffer := p\<rparr>; w = close_fd fd w in
              if p = MAP_FAILED then Inr (TEE_ERROR_OUT_OF_MEMORY, shm\<lparr>im_id := - 1\<rparr>, w)
              else
                Inr (TEE_SUCCESS, shm\<lparr>im_registered_fd := - 1, im_flags := 0, im_alloced_size := s\<rparr>, w))))"

definition TEEC_AllocateSharedMemory ::
  "teec_os \<Rightarrow> nat \<Rightarrow> TEEC_Context \<Rightarrow> TEEC_SharedMemory \<Rightarrow> 's teec_world \<Rightarrow>
   (u32 \<times> TEEC_SharedMemory \<times> 's teec_world) res" where
  "TEEC_AllocateSharedMemory os k ctx shm w =
     (if bad_shm_flags shm then Inr (TEE_ERROR_BAD_PARAMETERS, shm, w)
      else
        let s = (if sm_size shm = 0 then 8 else sm_size shm);
            finish = (\<lambda>shm. shm\<lparr>im_shadow_buffer := NULL, im_alloced_size := s,
                        im_flags := SHM_FLAG_BUFFER_ALLOCED\<rparr>) in
        if cx_reg_mem ctx then
          (case teec_paged_aligned_alloc os k s w of (p, w) \<Rightarrow>
           let shm = shm\<lparr>sm_buffer := p\<rparr> in
           if p = NULL then Inr (TEE_ERROR_OUT_OF_MEMORY, shm, w)
           else
             (case teec_shm_register os (2 * k) p shm w of (fd, shm, w) \<Rightarrow>
              if fd < 0 then
                cbind (free_block p w) (\<lambda>w. Inr (TEE_ERROR_OUT_OF_MEMORY, shm\<lparr>sm_buffer := NULL\<rparr>, w))
              else Inr (TEE_SUCCESS, finish (shm\<lparr>im_registered_fd := fd\<rparr>), w)))
        else
          (case teec_shm_alloc os (2 * k) shm w of (fd, shm, w) \<Rightarrow>
           if fd < 0 then Inr (TEE_ERROR_OUT_OF_MEMORY, shm, w)
           else
             (case shm_mmap os k s (im_id shm) w of (p, w) \<Rightarrow>
              let shm = shm\<lparr>sm_buffer := p\<rparr>; w = close_fd fd w in
              if p = MAP_FAILED then Inr (TEE_ERROR_OUT_OF_MEMORY, shm\<lparr>im_id := - 1\<rparr>, w)
              else Inr (TEE_SUCCESS, finish (shm\<lparr>im_registered_fd := - 1\<rparr>), w))))"

definition TEEC_ReleaseSharedMemory ::
  "TEEC_SharedMemory \<Rightarrow> 's teec_world \<Rightarrow> (TEEC_SharedMemory \<times> 's teec_world) res" where
  "TEEC_ReleaseSharedMemory shm w =
     (if im_id shm = - 1 then Inr (shm, w)
      else
        cbind
          (if im_shadow_buffer shm \<noteq> NULL then
             if im_registered_fd shm \<ge> 0 then
               cbind (if im_flags shm AND SHM_FLAG_SHADOW_BUFFER_ALLOCED \<noteq> 0
                      then free_block (im_shadow_buffer shm) w else Inr w) (\<lambda>w.
               Inr (close_fd (im_registered_fd shm) w))
             else munmap (im_shadow_buffer shm) (im_alloced_size shm) w
           else if sm_buffer shm \<noteq> NULL then
             if im_registered_fd shm \<ge> 0 then
               cbind (if im_flags shm AND SHM_FLAG_BUFFER_ALLOCED \<noteq> 0
                      then free_block (sm_buffer shm) w else Inr w) (\<lambda>w.
               Inr (close_fd (im_registered_fd shm) w))
             else munmap (sm_buffer shm) (im_alloced_size shm) w
           else if im_registered_fd shm \<ge> 0 then Inr (close_fd (im_registered_fd shm) w)
           else Inr w) (\<lambda>w.
        Inr (shm\<lparr>im_id := - 1, im_shadow_buffer := NULL, sm_buffer := NULL, im_registered_fd := - 1,
               im_flags := 0\<rparr>, w)))"

section \<open>Before the call\<close>

definition zero_shm :: TEEC_SharedMemory where
  "zero_shm = \<lparr>sm_buffer = NULL, sm_size = 0, sm_flags = 0, im_id = 0, im_alloced_size = 0,
     im_shadow_buffer = NULL, im_registered_fd = 0, im_flags = 0\<rparr>"

definition zero_param :: tee_ioctl_param where
  "zero_param = \<lparr>ip_attr = 0, ip_a = 0, ip_b = 0, ip_c = 0\<rparr>"

definition teec_pre_process_tmpref ::
  "teec_os \<Rightarrow> nat \<Rightarrow> TEEC_Context \<Rightarrow> u32 \<Rightarrow> addr \<Rightarrow> u64 \<Rightarrow> tee_ioctl_param \<Rightarrow> TEEC_SharedMemory \<Rightarrow>
   's teec_world \<Rightarrow> (u32 \<times> tee_ioctl_param \<times> TEEC_SharedMemory \<times> 's teec_world) res" where
  "teec_pre_process_tmpref os k ctx param_type buf sz param shm w =
     (if param_type \<notin> {TEEC_MEMREF_TEMP_INPUT, TEEC_MEMREF_TEMP_OUTPUT, TEEC_MEMREF_TEMP_INOUT} then
        Inr (TEE_ERROR_BAD_PARAMETERS, param, shm, w)
      else
        let param = param\<lparr>ip_attr := ucast param_type\<rparr>;
            shm = shm\<lparr>sm_flags := (if param_type = TEEC_MEMREF_TEMP_INPUT then TEEC_MEM_INPUT
                                   else if param_type = TEEC_MEMREF_TEMP_OUTPUT then TEEC_MEM_OUTPUT
                                   else TEEC_MEM_INPUT OR TEEC_MEM_OUTPUT),
                       sm_size := sz\<rparr> in
        if buf = NULL then
          if sz \<noteq> 0 then Inr (TEE_ERROR_BAD_PARAMETERS, param, shm, w)
          else if cx_memref_null ctx then
            Inr (TEE_SUCCESS, param\<lparr>ip_c := TEE_MEMREF_NULL, ip_b := sz\<rparr>, shm\<lparr>im_id := - 1\<rparr>, w)
          else
            cbind (TEEC_AllocateSharedMemory os k ctx shm w) (\<lambda>(res, shm, w).
             if res \<noteq> TEE_SUCCESS then Inr (res, param, shm, w)
             else Inr (TEE_SUCCESS, param\<lparr>ip_c := word_of_int (im_id shm), ip_b := sz\<rparr>, shm, w))
        else
          cbind (TEEC_RegisterSharedMemory os k ctx (shm\<lparr>sm_buffer := buf\<rparr>) w) (\<lambda>(res, shm, w).
           if res \<noteq> TEE_SUCCESS then Inr (res, param, shm, w)
           else
             cbind (if im_shadow_buffer shm \<noteq> NULL
                    then memcpy w (im_shadow_buffer shm) 0 buf 0 (unat sz) else Inr w) (\<lambda>w.
             Inr (TEE_SUCCESS, param\<lparr>ip_c := word_of_int (im_id shm), ip_b := sz\<rparr>, shm, w))))"

definition teec_pre_process_whole ::
  "TEEC_SharedMemory \<Rightarrow> tee_ioctl_param \<Rightarrow> 's teec_world \<Rightarrow> (u32 \<times> tee_ioctl_param \<times> 's teec_world) res" where
  "teec_pre_process_whole shm param w =
     (let inout = TEEC_MEM_INPUT OR TEEC_MEM_OUTPUT; flags = sm_flags shm AND inout in
      if flags \<noteq> inout \<and> flags AND TEEC_MEM_INPUT = 0 \<and> flags AND TEEC_MEM_OUTPUT = 0
      then Inr (TEE_ERROR_BAD_PARAMETERS, param, w)
      else
        let param = param\<lparr>ip_attr := (if flags = inout then 7
              else if flags AND TEEC_MEM_INPUT \<noteq> 0 then 5 else 6)\<rparr> in
        cbind (if im_shadow_buffer shm \<noteq> NULL \<and> flags AND TEEC_MEM_INPUT \<noteq> 0
               then memcpy w (im_shadow_buffer shm) 0 (sm_buffer shm) 0 (unat (sm_size shm)) else Inr w) (\<lambda>w.
        Inr (TEE_SUCCESS, param\<lparr>ip_c := word_of_int (im_id shm), ip_b := sm_size shm\<rparr>, w)))"

definition teec_pre_process_partial ::
  "u32 \<Rightarrow> TEEC_SharedMemory \<Rightarrow> u64 \<Rightarrow> u64 \<Rightarrow> tee_ioctl_param \<Rightarrow> 's teec_world \<Rightarrow>
   (u32 \<times> tee_ioctl_param \<times> 's teec_world) res" where
  "teec_pre_process_partial param_type shm sz offset param w =
     (if param_type \<notin> {TEEC_MEMREF_PARTIAL_INPUT, TEEC_MEMREF_PARTIAL_OUTPUT, TEEC_MEMREF_PARTIAL_INOUT}
      then Inr (TEE_ERROR_BAD_PARAMETERS, param, w)
      else
        let req_shm_flags = (if param_type = TEEC_MEMREF_PARTIAL_INPUT then TEEC_MEM_INPUT
              else if param_type = TEEC_MEMREF_PARTIAL_OUTPUT then TEEC_MEM_OUTPUT
              else TEEC_MEM_OUTPUT OR TEEC_MEM_INPUT);
            param = param\<lparr>ip_attr := (if param_type = TEEC_MEMREF_PARTIAL_INPUT then 5
              else if param_type = TEEC_MEMREF_PARTIAL_OUTPUT then 6 else 7)\<rparr> in
        if sm_flags shm AND req_shm_flags \<noteq> req_shm_flags then Inr (TEE_ERROR_BAD_PARAMETERS, param, w)
        else if offset + sz < offset \<or> offset + sz > sm_size shm then Inr (TEE_ERROR_BAD_PARAMETERS, param, w)
        else
          cbind (if im_shadow_buffer shm \<noteq> NULL \<and> param_type \<noteq> TEEC_MEMREF_PARTIAL_OUTPUT
                 then memcpy w (im_shadow_buffer shm) (unat offset) (sm_buffer shm) (unat offset) (unat sz)
                 else Inr w) (\<lambda>w.
          Inr (TEE_SUCCESS, param\<lparr>ip_c := word_of_int (im_id shm), ip_a := offset, ip_b := sz\<rparr>, w)))"

text \<open>One parameter of an operation; reading a member of the union that is not there is a fault.\<close>

definition pre_process_param ::
  "teec_os \<Rightarrow> nat \<Rightarrow> TEEC_Context \<Rightarrow> u32 \<Rightarrow> TEEC_Parameter \<Rightarrow> tee_ioctl_param \<Rightarrow> TEEC_SharedMemory \<Rightarrow>
   's teec_world \<Rightarrow> (u32 \<times> tee_ioctl_param \<times> TEEC_SharedMemory \<times> 's teec_world) res" where
  "pre_process_param os k ctx param_type tp param shm w =
     (if param_type = TEEC_NONE then Inr (TEE_SUCCESS, param\<lparr>ip_attr := ucast param_type\<rparr>, shm, w)
      else if param_type \<in> {TEEC_VALUE_INPUT, TEEC_VALUE_OUTPUT, TEEC_VALUE_INOUT} then
        (case tp of T_value a b \<Rightarrow>
           Inr (TEE_SUCCESS, param\<lparr>ip_attr := ucast param_type, ip_a := ucast a, ip_b := ucast b\<rparr>, shm, w)
         | _ \<Rightarrow> Inl Bad_union)
      else if param_type \<in> {TEEC_MEMREF_TEMP_INPUT, TEEC_MEMREF_TEMP_OUTPUT, TEEC_MEMREF_TEMP_INOUT} then
        (case tp of T_tmpref buf sz \<Rightarrow> teec_pre_process_tmpref os k ctx param_type buf sz param shm w
         | _ \<Rightarrow> Inl Bad_union)
      else if param_type = TEEC_MEMREF_WHOLE then
        (case tp of T_memref parent sz offset \<Rightarrow>
           cbind (teec_pre_process_whole parent param w) (\<lambda>(res, param, w). Inr (res, param, shm, w))
         | _ \<Rightarrow> Inl Bad_union)
      else if param_type \<in> {TEEC_MEMREF_PARTIAL_INPUT, TEEC_MEMREF_PARTIAL_OUTPUT, TEEC_MEMREF_PARTIAL_INOUT} then
        (case tp of T_memref parent sz offset \<Rightarrow>
           cbind (teec_pre_process_partial param_type parent sz offset param w) (\<lambda>(res, param, w).
           Inr (res, param, shm, w))
         | _ \<Rightarrow> Inl Bad_union)
      else Inr (TEE_ERROR_BAD_PARAMETERS, param, shm, w))"

text \<open>
  The loop over the parameters stops at the first one that is refused. The lists hold the results
  for the parameters so far; the rest keep their initial values.
\<close>

fun pre_process_from ::
  "teec_os \<Rightarrow> TEEC_Context \<Rightarrow> u32 \<Rightarrow> nat \<Rightarrow> TEEC_Parameter list \<Rightarrow> tee_ioctl_param list \<Rightarrow>
   TEEC_SharedMemory list \<Rightarrow> 's teec_world \<Rightarrow>
   (u32 \<times> tee_ioctl_param list \<times> TEEC_SharedMemory list \<times> 's teec_world) res" where
  "pre_process_from os ctx types n (tp # tps) (p # ps) (m # ms) w =
     cbind (pre_process_param os n ctx (TEEC_PARAM_TYPE_GET types n) tp p m w) (\<lambda>(res, p, m, w).
     if res \<noteq> TEE_SUCCESS then Inr (res, p # ps, m # ms, w)
     else cbind (pre_process_from os ctx types (Suc n) tps ps ms w) (\<lambda>(res, ps, ms, w).
       Inr (res, p # ps, m # ms, w)))"
| "pre_process_from os ctx types n tps ps ms w = Inr (TEE_SUCCESS, ps, ms, w)"

definition teec_pre_process_operation ::
  "teec_os \<Rightarrow> TEEC_Context \<Rightarrow> TEEC_Operation option \<Rightarrow> tee_ioctl_param list \<Rightarrow> 's teec_world \<Rightarrow>
   (u32 \<times> tee_ioctl_param list \<times> TEEC_SharedMemory list \<times> 's teec_world) res" where
  "teec_pre_process_operation os ctx operation params w =
     (let shms = replicate 4 (zero_shm\<lparr>im_id := - 1\<rparr>) in
      case operation of
        None \<Rightarrow> Inr (TEE_SUCCESS, replicate 4 zero_param, shms, w)
      | Some opn \<Rightarrow> pre_process_from os ctx (ot_paramTypes opn) 0 (ot_params opn) params shms w)"

section \<open>After the call\<close>

definition teec_post_process_tmpref ::
  "u32 \<Rightarrow> addr \<Rightarrow> u64 \<Rightarrow> tee_ioctl_param \<Rightarrow> TEEC_SharedMemory \<Rightarrow> 's teec_world \<Rightarrow>
   (TEEC_Parameter \<times> 's teec_world) res" where
  "teec_post_process_tmpref param_type buf sz param shm w =
     (if param_type \<noteq> TEEC_MEMREF_TEMP_INPUT then
        cbind (if buf \<noteq> NULL \<and> im_shadow_buffer shm \<noteq> NULL
               then memcpy w buf 0 (im_shadow_buffer shm) 0 (unat (min (ip_b param) sz)) else Inr w) (\<lambda>w.
        Inr (T_tmpref buf (ip_b param), w))
      else Inr (T_tmpref buf sz, w))"

definition teec_post_process_whole ::
  "TEEC_SharedMemory \<Rightarrow> u64 \<Rightarrow> u64 \<Rightarrow> tee_ioctl_param \<Rightarrow> 's teec_world \<Rightarrow> (TEEC_Parameter \<times> 's teec_world) res" where
  "teec_post_process_whole shm sz offset param w =
     (if sm_flags shm AND TEEC_MEM_OUTPUT \<noteq> 0 then
        cbind (if im_shadow_buffer shm \<noteq> NULL \<and> ip_b param \<le> sm_size shm
               then memcpy w (sm_buffer shm) 0 (im_shadow_buffer shm) 0 (unat (ip_b param)) else Inr w) (\<lambda>w.
        Inr (T_memref shm (ip_b param) offset, w))
      else Inr (T_memref shm sz offset, w))"

definition teec_post_process_partial ::
  "u32 \<Rightarrow> TEEC_SharedMemory \<Rightarrow> u64 \<Rightarrow> u64 \<Rightarrow> tee_ioctl_param \<Rightarrow> 's teec_world \<Rightarrow>
   (TEEC_Parameter \<times> 's teec_world) res" where
  "teec_post_process_partial param_type shm sz offset param w =
     (if param_type \<noteq> TEEC_MEMREF_PARTIAL_INPUT then
        cbind (if im_shadow_buffer shm \<noteq> NULL \<and> ip_b param \<le> sz
               then memcpy w (sm_buffer shm) (unat offset) (im_shadow_buffer shm) (unat offset) (unat (ip_b param))
               else Inr w) (\<lambda>w.
        Inr (T_memref shm (ip_b param) offset, w))
      else Inr (T_memref shm sz offset, w))"

definition post_process_param ::
  "u32 \<Rightarrow> TEEC_Parameter \<Rightarrow> tee_ioctl_param \<Rightarrow> TEEC_SharedMemory \<Rightarrow> 's teec_world \<Rightarrow>
   (TEEC_Parameter \<times> 's teec_world) res" where
  "post_process_param param_type tp param shm w =
     (if param_type \<in> {TEEC_VALUE_OUTPUT, TEEC_VALUE_INOUT} then
        Inr (T_value (ucast (ip_a param)) (ucast (ip_b param)), w)
      else if param_type \<in> {TEEC_MEMREF_TEMP_INPUT, TEEC_MEMREF_TEMP_OUTPUT, TEEC_MEMREF_TEMP_INOUT} then
        (case tp of T_tmpref buf sz \<Rightarrow> teec_post_process_tmpref param_type buf sz param shm w
         | _ \<Rightarrow> Inl Bad_union)
      else if param_type = TEEC_MEMREF_WHOLE then
        (case tp of T_memref parent sz offset \<Rightarrow> teec_post_process_whole parent sz offset param w
         | _ \<Rightarrow> Inl Bad_union)
      else if param_type \<in> {TEEC_MEMREF_PARTIAL_INPUT, TEEC_MEMREF_PARTIAL_OUTPUT, TEEC_MEMREF_PARTIAL_INOUT} then
        (case tp of T_memref parent sz offset \<Rightarrow> teec_post_process_partial param_type parent sz offset param w
         | _ \<Rightarrow> Inl Bad_union)
      else Inr (tp, w))"

fun post_process_from ::
  "u32 \<Rightarrow> nat \<Rightarrow> TEEC_Parameter list \<Rightarrow> tee_ioctl_param list \<Rightarrow> TEEC_SharedMemory list \<Rightarrow> 's teec_world \<Rightarrow>
   (TEEC_Parameter list \<times> 's teec_world) res" where
  "post_process_from types n (tp # tps) (p # ps) (m # ms) w =
     cbind (post_process_param (TEEC_PARAM_TYPE_GET types n) tp p m w) (\<lambda>(tp, w).
     cbind (post_process_from types (Suc n) tps ps ms w) (\<lambda>(tps, w). Inr (tp # tps, w)))"
| "post_process_from types n tps ps ms w = Inr (tps, w)"

definition teec_post_process_operation ::
  "TEEC_Operation option \<Rightarrow> tee_ioctl_param list \<Rightarrow> TEEC_SharedMemory list \<Rightarrow> 's teec_world \<Rightarrow>
   (TEEC_Operation option \<times> 's teec_world) res" where
  "teec_post_process_operation operation params shms w =
     (case operation of
        None \<Rightarrow> Inr (None, w)
      | Some opn \<Rightarrow>
          cbind (post_process_from (ot_paramTypes opn) 0 (ot_params opn) params shms w) (\<lambda>(tps, w).
          Inr (Some (opn\<lparr>ot_params := tps\<rparr>), w)))"

fun free_temp_from :: "u32 \<Rightarrow> nat \<Rightarrow> TEEC_SharedMemory list \<Rightarrow> 's teec_world \<Rightarrow> 's teec_world res" where
  "free_temp_from types n (m # ms) w =
     cbind (if TEEC_PARAM_TYPE_GET types n \<in> {TEEC_MEMREF_TEMP_INPUT, TEEC_MEMREF_TEMP_OUTPUT, TEEC_MEMREF_TEMP_INOUT}
            then cbind (TEEC_ReleaseSharedMemory m w) (\<lambda>(m, w). Inr w) else Inr w)
       (free_temp_from types (Suc n) ms)"
| "free_temp_from types n [] w = Inr w"

definition teec_free_temp_refs ::
  "TEEC_Operation option \<Rightarrow> TEEC_SharedMemory list \<Rightarrow> 's teec_world \<Rightarrow> 's teec_world res" where
  "teec_free_temp_refs operation shms w =
     (case operation of None \<Rightarrow> Inr w | Some opn \<Rightarrow> free_temp_from (ot_paramTypes opn) 0 shms w)"

datatype errno = ENOMEM | EINVAL | E_other

definition ioctl_errno_to_res :: "errno \<Rightarrow> u32" where
  "ioctl_errno_to_res e =
     (case e of ENOMEM \<Rightarrow> TEE_ERROR_OUT_OF_MEMORY | EINVAL \<Rightarrow> TEE_ERROR_BAD_PARAMETERS
      | E_other \<Rightarrow> TEE_ERROR_GENERIC)"

section \<open>Calls\<close>

text \<open>
  What the driver returns: a failed call with an error number, or the answer, its origin, the
  parameters and what else the argument holds.
\<close>

datatype 'r ioctl_reply =
    Ioctl_failed errno
  | Ioctl_done u32 u32 "tee_ioctl_param list" 'r

type_synonym ('s, 'r) tee_ioc = "tee_ioctl_param list \<Rightarrow> 's teec_world \<Rightarrow> 'r ioctl_reply \<times> 's teec_world"

text \<open>The statements that opening a session and invoking a command share, from the preparation to the release.\<close>

definition operation_round ::
  "('s, 'r) tee_ioc \<Rightarrow> teec_os \<Rightarrow> TEEC_Context \<Rightarrow> TEEC_Operation option \<Rightarrow> 's teec_world \<Rightarrow>
   (u32 \<times> u32 \<times> TEEC_Operation option \<times> 'r option \<times> 's teec_world) res" where
  "operation_round ioctl os ctx operation w =
     cbind (teec_pre_process_operation os ctx operation (replicate 4 zero_param) w) (\<lambda>(res, params, shm, w).
     if res \<noteq> TEE_SUCCESS then
       cbind (teec_free_temp_refs operation shm w) (\<lambda>w. Inr (res, TEEC_ORIGIN_API, operation, None, w))
     else
       (case ioctl params w of
          (Ioctl_failed e, w) \<Rightarrow>
            cbind (teec_free_temp_refs operation shm w) (\<lambda>w. Inr (ioctl_errno_to_res e, TEEC_ORIGIN_COMMS, operation, None, w))
        | (Ioctl_done ret origin params extra, w) \<Rightarrow>
            cbind (teec_post_process_operation operation params shm w) (\<lambda>(operation, w).
            cbind (teec_free_temp_refs operation shm w) (\<lambda>w. Inr (ret, origin, operation, Some extra, w)))))"

definition TEEC_InvokeCommand ::
  "(u32 \<Rightarrow> ('s, unit) tee_ioc) \<Rightarrow> teec_os \<Rightarrow> TEEC_Context option \<Rightarrow> u32 \<Rightarrow> TEEC_Operation option \<Rightarrow> 's teec_world \<Rightarrow>
   (u32 \<times> u32 \<times> TEEC_Operation option \<times> 's teec_world) res" where
  "TEEC_InvokeCommand ioctl os session cmd_id operation w =
     (case session of
        None \<Rightarrow> Inr (TEE_ERROR_BAD_PARAMETERS, TEEC_ORIGIN_API, operation, w)
      | Some ctx \<Rightarrow>
          cbind (operation_round (ioctl cmd_id) os ctx operation w) (\<lambda>(res, eorig, operation, extra, w).
          Inr (res, eorig, operation, w)))"

record TEEC_UUID =
  uu_timeLow :: u32
  uu_timeMid :: u16
  uu_timeHiAndVersion :: u16
  uu_clockSeqAndNode :: "u8 list"

definition uuid_to_octets :: "TEEC_UUID \<Rightarrow> u8 list" where
  "uuid_to_octets s =
     [ucast (drop_bit 24 (uu_timeLow s)), ucast (drop_bit 16 (uu_timeLow s)),
      ucast (drop_bit 8 (uu_timeLow s)), ucast (uu_timeLow s),
      ucast (drop_bit 8 (uu_timeMid s)), ucast (uu_timeMid s),
      ucast (drop_bit 8 (uu_timeHiAndVersion s)), ucast (uu_timeHiAndVersion s)] @ uu_clockSeqAndNode s"

abbreviation (input) TEE_IOCTL_LOGIN_GROUP :: u32 where "TEE_IOCTL_LOGIN_GROUP \<equiv> 2"
abbreviation (input) TEE_IOCTL_LOGIN_GROUP_APPLICATION :: u32 where "TEE_IOCTL_LOGIN_GROUP_APPLICATION \<equiv> 6"

record tee_ioctl_open_session_arg =
  oa_uuid :: "u8 list"
  oa_clnt_uuid :: "u8 list"
  oa_clnt_login :: u32

definition setup_client_data ::
  "tee_ioctl_open_session_arg \<Rightarrow> u32 \<Rightarrow> u8 list \<Rightarrow> tee_ioctl_open_session_arg res" where
  "setup_client_data arg connection_method connection_data =
     (let arg = arg\<lparr>oa_clnt_login := connection_method\<rparr> in
      if connection_method \<in> {TEE_IOCTL_LOGIN_GROUP, TEE_IOCTL_LOGIN_GROUP_APPLICATION} then
        cbind (mem_read connection_data 0 4) (\<lambda>gid.
        cbind (mem_write (oa_clnt_uuid arg) 0 gid) (\<lambda>cu. Inr (arg\<lparr>oa_clnt_uuid := cu\<rparr>)))
      else Inr arg)"

text \<open>The session identifier is stored when the driver reports success.\<close>

definition TEEC_OpenSession ::
  "(tee_ioctl_open_session_arg \<Rightarrow> ('s, u32) tee_ioc) \<Rightarrow> teec_os \<Rightarrow> TEEC_Context option \<Rightarrow> TEEC_UUID \<Rightarrow> u32 \<Rightarrow>
   u8 list \<Rightarrow> TEEC_Operation option \<Rightarrow> 's teec_world \<Rightarrow>
   (u32 \<times> u32 \<times> u32 option \<times> TEEC_Operation option \<times> 's teec_world) res" where
  "TEEC_OpenSession ioctl os ctx destination connection_method connection_data operation w =
     (case ctx of
        None \<Rightarrow> Inr (TEE_ERROR_BAD_PARAMETERS, TEEC_ORIGIN_API, None, operation, w)
      | Some ctx \<Rightarrow>
          let arg = \<lparr>oa_uuid = uuid_to_octets destination, oa_clnt_uuid = replicate 16 0, oa_clnt_login = 0\<rparr> in
          cbind (setup_client_data arg connection_method connection_data) (\<lambda>arg.
          cbind (operation_round (ioctl arg) os ctx operation w) (\<lambda>(res, eorig, operation, extra, w).
          Inr (res, eorig, if res = TEE_SUCCESS then extra else None, operation, w))))"

section \<open>Resources\<close>

text \<open>What releasing a shared memory gives back.\<close>

definition held_fds :: "TEEC_SharedMemory \<Rightarrow> int set" where
  "held_fds shm = (if im_id shm = - 1 \<or> im_registered_fd shm < 0 then {} else {im_registered_fd shm})"

definition held_blocks :: "TEEC_SharedMemory \<Rightarrow> addr set" where
  "held_blocks shm =
     (if im_id shm = - 1 then {}
      else if im_shadow_buffer shm \<noteq> NULL then
        if im_registered_fd shm < 0 \<or> im_flags shm AND SHM_FLAG_SHADOW_BUFFER_ALLOCED \<noteq> 0
        then {im_shadow_buffer shm} else {}
      else if sm_buffer shm \<noteq> NULL then
        if im_registered_fd shm < 0 \<or> im_flags shm AND SHM_FLAG_BUFFER_ALLOCED \<noteq> 0
        then {sm_buffer shm} else {}
      else {})"

lemma restrict_update: "m(p := None) = m |` (- {p})"
  by (rule ext) (simp add: restrict_map_def)

lemma restrict_UNIV [simp]: "m |` UNIV = m"
  by (rule ext) (simp add: restrict_map_def)

text \<open>The length of a block, and blocks that hold at least a number of bytes.\<close>

definition len_at :: "'s teec_world \<Rightarrow> addr \<Rightarrow> nat option" where
  "len_at w p = map_option length (tw_mem w p)"

definition holds :: "'s teec_world \<Rightarrow> addr \<Rightarrow> nat \<Rightarrow> bool" where
  "holds w p n \<longleftrightarrow> (\<exists>l. len_at w p = Some l \<and> n \<le> l)"

text \<open>A world with some more descriptors and blocks than another.\<close>

definition grown :: "'s teec_world \<Rightarrow> 's teec_world \<Rightarrow> int set \<Rightarrow> addr set \<Rightarrow> bool" where
  "grown w w' F B \<longleftrightarrow> tw_fds w' = tw_fds w \<union> F \<and> F \<inter> tw_fds w = {} \<and>
     (\<forall>p. p \<notin> B \<longrightarrow> len_at w' p = len_at w p) \<and> (\<forall>p\<in>B. len_at w p = None)"

definition same_shape :: "'s teec_world \<Rightarrow> 's teec_world \<Rightarrow> bool" where
  "same_shape w w' \<longleftrightarrow> tw_fds w' = tw_fds w \<and> len_at w' = len_at w"

lemma grown_refl [simp]: "grown w w {} {}"
  by (simp add: grown_def)

lemma same_shape_grown: "same_shape w w' \<Longrightarrow> grown w w' {} {}"
  by (simp add: grown_def same_shape_def)

lemma grown_trans:
  assumes "grown w w1 F B" "grown w1 w2 F' B'"
  shows "grown w w2 (F \<union> F') (B \<union> B')"
proof -
  have "len_at w p = None" if "p \<in> B'" for p
    using assms that by (cases "p \<in> B") (auto simp: grown_def)
  then show ?thesis using assms by (auto simp: grown_def)
qed

lemma grown_shape: "grown w w1 F B \<Longrightarrow> same_shape w1 w2 \<Longrightarrow> grown w w2 F B"
  using grown_trans [OF _ same_shape_grown, of w w1 F B w2] by simp

lemma same_shape_trans: "same_shape w w1 \<Longrightarrow> same_shape w1 w2 \<Longrightarrow> same_shape w w2"
  by (simp add: same_shape_def)

lemma holds_grown: "holds w p n \<Longrightarrow> grown w w' F B \<Longrightarrow> holds w' p n"
  unfolding holds_def grown_def by (metis option.distinct(1))

lemma holds_shape: "same_shape w w' \<Longrightarrow> holds w' p n = holds w p n"
  by (simp add: holds_def same_shape_def)

lemma len_at_restrict: "len_at (w\<lparr>tw_fds := F, tw_mem := tw_mem w |` (- B)\<rparr>) p = (if p \<in> B then None else len_at w p)"
  by (simp add: len_at_def restrict_map_def)

lemma grown_back:
  assumes "grown w w' F B"
  shows "same_shape w (w'\<lparr>tw_fds := tw_fds w' - F, tw_mem := tw_mem w' |` (- B)\<rparr>)"
proof -
  have "len_at (w'\<lparr>tw_fds := tw_fds w' - F, tw_mem := tw_mem w' |` (- B)\<rparr>) p = len_at w p" for p
    using assms by (auto simp: len_at_restrict grown_def)
  then show ?thesis using assms by (auto simp: same_shape_def grown_def)
qed

text \<open>
  A shared memory that can be released: the block it holds is there, at its length where it is
  a mapping. Several can be released one after the other if no block is held twice.
\<close>

definition releasable :: "TEEC_SharedMemory \<Rightarrow> 's teec_world \<Rightarrow> bool" where
  "releasable shm w \<longleftrightarrow> (\<forall>p\<in>held_blocks shm. \<exists>l. len_at w p = Some l \<and>
     (im_registered_fd shm < 0 \<longrightarrow> l = unat (im_alloced_size shm)))"

fun releasables :: "TEEC_SharedMemory list \<Rightarrow> 's teec_world \<Rightarrow> bool" where
  "releasables [] w \<longleftrightarrow> True"
| "releasables (m # ms) w \<longleftrightarrow>
     releasable m w \<and> held_blocks m \<inter> (\<Union>m\<in>set ms. held_blocks m) = {} \<and> releasables ms w"

lemma free_live:
  assumes "len_at w p = Some l"
  shows "free_block p w = Inr (w\<lparr>tw_mem := tw_mem w |` (- {p})\<rparr>)"
    and "l = unat sz \<Longrightarrow> munmap p sz w = Inr (w\<lparr>tw_mem := tw_mem w |` (- {p})\<rparr>)"
  using assms by (auto simp: len_at_def munmap_def free_block_def mem_block_def restrict_update)

lemma release_gives_back:
  assumes "releasable shm w"
  shows "\<exists>m'. TEEC_ReleaseSharedMemory shm w =
     Inr (m', w\<lparr>tw_fds := tw_fds w - held_fds shm, tw_mem := tw_mem w |` (- held_blocks shm)\<rparr>)"
proof (cases "im_id shm = - 1")
  case True
  then show ?thesis by (simp add: TEEC_ReleaseSharedMemory_def held_fds_def held_blocks_def)
next
  case False
  have f: "free_block p w = Inr (w\<lparr>tw_mem := tw_mem w |` (- {p})\<rparr>)" if "p \<in> held_blocks shm" for p
    using assms that free_live(1) [of w p] by (auto simp: releasable_def)
  have u: "munmap p (im_alloced_size shm) w = Inr (w\<lparr>tw_mem := tw_mem w |` (- {p})\<rparr>)"
    if "p \<in> held_blocks shm" "im_registered_fd shm < 0" for p
    using assms that free_live(2) [of w p] by (auto simp: releasable_def)
  show ?thesis
    using False
    by (cases "im_registered_fd shm < 0"; cases "im_shadow_buffer shm = NULL"; cases "sm_buffer shm = NULL")
      (simp_all add: TEEC_ReleaseSharedMemory_def held_fds_def held_blocks_def close_fd_def f u)
qed

lemma grown_len: "grown w w' F B \<Longrightarrow> len_at w p = Some l \<Longrightarrow> len_at w' p = Some l"
  by (cases "p \<in> B") (auto simp: grown_def)

lemma releasable_grown: "releasable m w \<Longrightarrow> grown w w' F B \<Longrightarrow> releasable m w'"
  unfolding releasable_def using grown_len [of w w' F B] by blast

lemma releasables_grown: "releasables ms w \<Longrightarrow> grown w w' F B \<Longrightarrow> releasables ms w'"
  by (induction ms) (auto intro: releasable_grown)

lemma releasables_restrict:
  "releasables ms w \<Longrightarrow> B \<inter> (\<Union>m\<in>set ms. held_blocks m) = {} \<Longrightarrow>
     releasables ms (w\<lparr>tw_fds := F, tw_mem := tw_mem w |` (- B)\<rparr>)"
proof (induction ms)
  case (Cons m ms)
  then have "\<forall>p\<in>held_blocks m. p \<notin> B" by auto
  then have "releasable m (w\<lparr>tw_fds := F, tw_mem := tw_mem w |` (- B)\<rparr>)"
    using Cons.prems(1) by (simp add: releasable_def len_at_restrict)
  with Cons show ?case by auto
qed simp

lemma free_temp_gives_back:
  assumes "\<forall>i<length ms. TEEC_PARAM_TYPE_GET types (n + i) \<notin> {5, 6, 7} \<longrightarrow> im_id (ms ! i) = - 1" "releasables ms w"
  shows "free_temp_from types n ms w =
    Inr (w\<lparr>tw_fds := tw_fds w - (\<Union>m\<in>set ms. held_fds m), tw_mem := tw_mem w |` (- (\<Union>m\<in>set ms. held_blocks m))\<rparr>)"
  using assms
proof (induction ms arbitrary: n w)
  case (Cons m ms)
  let ?w = "w\<lparr>tw_fds := tw_fds w - held_fds m, tw_mem := tw_mem w |` (- held_blocks m)\<rparr>"
  have idle: "im_id m = - 1" if "TEEC_PARAM_TYPE_GET types n \<notin> {5, 6, 7}"
    using Cons.prems(1) that by (metis add_0_right length_greater_0_conv list.discI nth_Cons_0)
  have rest: "\<forall>i<length ms. TEEC_PARAM_TYPE_GET types (Suc n + i) \<notin> {5, 6, 7} \<longrightarrow> im_id (ms ! i) = - 1"
    using Cons.prems(1) by (metis Suc_less_eq add_Suc_shift length_Cons nth_Cons_Suc)
  have "releasables ms ?w" by (rule releasables_restrict) (use Cons.prems(2) in auto)
  note IH = Cons.IH [OF rest this]
  have "(if TEEC_PARAM_TYPE_GET types n \<in> {5, 6, 7} then cbind (TEEC_ReleaseSharedMemory m w) (\<lambda>(m, w). Inr w) else Inr w) = Inr ?w"
  proof (cases "TEEC_PARAM_TYPE_GET types n \<in> {5, 6, 7}")
    case True
    have "releasable m w" using Cons.prems(2) by simp
    from release_gives_back [OF this] obtain m' where "TEEC_ReleaseSharedMemory m w = Inr (m', ?w)" by (elim exE)
    then show ?thesis by (simp only: True if_True cbind_simps prod.case)
  next
    case False
    have "held_fds m = {}" "held_blocks m = {}" using idle [OF False] by (simp_all add: held_fds_def held_blocks_def)
    with False show ?thesis by simp
  qed
  then have "free_temp_from types n (m # ms) w = free_temp_from types (Suc n) ms ?w"
    by (simp only: free_temp_from.simps cbind_simps)
  then show ?case unfolding IH by (simp add: Diff_eq Int_assoc Compl_Un)
qed simp

section \<open>Allocation and registration\<close>

lemma os_okD:
  "os_ok os \<Longrightarrow> os_register os k fds reg = Some (fd, i) \<Longrightarrow>
     0 \<le> fd \<and> fd \<notin> fds \<and> 0 \<le> i \<and> i < 2 ^ 31 \<and> reg i = None"
  "os_ok os \<Longrightarrow> os_alloc os k mem = Some p \<Longrightarrow> p \<noteq> NULL \<and> mem p = None"
  by (simp_all add: os_ok_def)

lemma register_cases:
  assumes "os_ok os" "teec_shm_register os k buf shm w = (fd, shm', w')"
  obtains (failed) "fd = - 1" "shm' = shm" "w' = w"
  | (ok) i where "0 \<le> fd" "fd \<notin> tw_fds w" "0 \<le> i" "i < 2 ^ 31" "tw_reg w i = None" "shm' = shm\<lparr>im_id := i\<rparr>"
      "w' = w\<lparr>tw_fds := insert fd (tw_fds w), tw_reg := (tw_reg w)(i \<mapsto> buf)\<rparr>"
proof (cases "os_register os k (tw_fds w) (tw_reg w)")
  case None
  then show ?thesis using assms(2) failed by (simp add: teec_shm_register_def)
next
  case (Some r)
  then obtain i where "os_register os k (tw_fds w) (tw_reg w) = Some (fd, i)" "shm' = shm\<lparr>im_id := i\<rparr>"
    "w' = w\<lparr>tw_fds := insert fd (tw_fds w), tw_reg := (tw_reg w)(i \<mapsto> buf)\<rparr>"
    using assms(2) by (auto simp: teec_shm_register_def split: prod.splits)
  then show ?thesis using os_okD(1) [OF assms(1)] by (intro ok) auto
qed

lemma shm_alloc_cases:
  assumes "os_ok os" "teec_shm_alloc os k shm w = (fd, shm', w')"
  obtains (failed) "fd = - 1" "shm' = shm" "w' = w"
  | (ok) i where "0 \<le> fd" "fd \<notin> tw_fds w" "0 \<le> i" "i < 2 ^ 31" "tw_reg w i = None" "shm' = shm\<lparr>im_id := i\<rparr>"
      "w' = w\<lparr>tw_fds := insert fd (tw_fds w)\<rparr>"
proof (cases "os_register os k (tw_fds w) (tw_reg w)")
  case None
  then show ?thesis using assms(2) failed by (simp add: teec_shm_alloc_def)
next
  case (Some r)
  then obtain i where "os_register os k (tw_fds w) (tw_reg w) = Some (fd, i)" "shm' = shm\<lparr>im_id := i\<rparr>"
    "w' = w\<lparr>tw_fds := insert fd (tw_fds w)\<rparr>"
    using assms(2) by (auto simp: teec_shm_alloc_def split: prod.splits)
  then show ?thesis using os_okD(1) [OF assms(1)] by (intro ok) auto
qed

lemma aligned_alloc_cases:
  assumes "os_ok os" "teec_paged_aligned_alloc os k sz w = (p, w')"
  obtains (failed) "p = NULL" "w' = w"
  | (ok) b where "p \<noteq> NULL" "tw_mem w p = None" "unat sz \<le> length b" "w' = w\<lparr>tw_mem := (tw_mem w)(p \<mapsto> b)\<rparr>"
proof -
  let ?a = "(sz + os_page os - 1) div os_page os * os_page os"
  show ?thesis
  proof (cases "sz \<le> ?a \<and> os_alloc os k (tw_mem w) \<noteq> None")
    case False
    then show ?thesis using assms(2) failed by (auto simp: teec_paged_aligned_alloc_def Let_def split: if_splits option.splits)
  next
    case True
    then have a: "os_alloc os k (tw_mem w) = Some p" "w' = new_block os k p ?a w" "unat sz \<le> unat ?a"
      using assms(2) by (auto simp: teec_paged_aligned_alloc_def word_le_nat_alt)
    have "p \<noteq> NULL" "tw_mem w p = None" using os_okD(2) [OF assms(1) a(1)] by auto
    with a(2,3) show ?thesis by (intro ok) (auto simp: new_block_def)
  qed
qed

lemma mmap_cases:
  assumes "os_ok os" "shm_mmap os k sz i w = (p, w')"
  obtains (failed) "p = MAP_FAILED" "w' = w"
  | (ok) b where "p \<noteq> MAP_FAILED" "p \<noteq> NULL" "tw_mem w p = None" "length b = unat sz"
      "w' = w\<lparr>tw_mem := (tw_mem w)(p \<mapsto> b), tw_reg := (tw_reg w)(i \<mapsto> p)\<rparr>"
proof (cases "os_alloc os k (tw_mem w)")
  case None
  then show ?thesis using assms(2) failed by (simp add: shm_mmap_def)
next
  case (Some q)
  then have "q \<noteq> NULL" "tw_mem w q = None" using os_okD(2) [OF assms(1) Some] by auto
  note q = this
  show ?thesis
  proof (cases "q = MAP_FAILED")
    case True
    then show ?thesis using assms(2) Some by (intro failed) (simp_all add: shm_mmap_def)
  next
    case False
    then have "p = q" "w' = w\<lparr>tw_mem := (tw_mem w)(q \<mapsto> map (os_contents os k) [0..<unat sz]), tw_reg := (tw_reg w)(i \<mapsto> q)\<rparr>"
      using assms(2) Some by (auto simp: shm_mmap_def new_block_def)
    then show ?thesis using q False by (intro ok) simp_all
  qed
qed

text \<open>
  A registration leaves behind exactly what a release gives back, and a buffer that the driver
  shares in place of the caller's is large enough for it.
\<close>

definition backed :: "TEEC_SharedMemory \<Rightarrow> u64 \<Rightarrow> 's teec_world \<Rightarrow> bool" where
  "backed shm sz w \<longleftrightarrow> (im_shadow_buffer shm \<noteq> NULL \<longrightarrow> holds w (im_shadow_buffer shm) (unat sz))"

definition balanced :: "'s teec_world \<Rightarrow> u64 \<Rightarrow> (u32 \<times> TEEC_SharedMemory \<times> 's teec_world) res \<Rightarrow> bool" where
  "balanced w sz r \<longleftrightarrow> (\<exists>res shm w'. r = Inr (res, shm, w') \<and>
     grown w w' (held_fds shm) (held_blocks shm) \<and> releasable shm w' \<and> (res = TEE_SUCCESS \<longrightarrow> backed shm sz w'))"

lemma size_or_8: "unat (sz :: u64) \<le> unat (if sz = 0 then 8 else sz)"
  by simp

lemma holds_new: "n \<le> length b \<Longrightarrow> holds (w\<lparr>tw_mem := m(p \<mapsto> b)\<rparr>) p n"
  by (simp add: holds_def len_at_def)

lemma balancedI:
  "grown w w' (held_fds shm) (held_blocks shm) \<Longrightarrow> releasable shm w' \<Longrightarrow> (res = TEE_SUCCESS \<Longrightarrow> backed shm sz w') \<Longrightarrow>
     balanced w sz (Inr (res, shm, w'))"
  by (simp add: balanced_def)

lemma grown_new:
  "fd \<notin> tw_fds w \<Longrightarrow> grown w (w\<lparr>tw_fds := insert fd (tw_fds w), tw_reg := r\<rparr>) {fd} {}"
  "tw_mem w p = None \<Longrightarrow> grown w (w\<lparr>tw_mem := (tw_mem w)(p \<mapsto> b), tw_reg := r\<rparr>) {} {p}"
  "tw_mem w p = None \<Longrightarrow> fd \<notin> tw_fds w \<Longrightarrow>
     grown w (w\<lparr>tw_mem := (tw_mem w)(p \<mapsto> b), tw_fds := insert fd (tw_fds w), tw_reg := r\<rparr>) {fd} {p}"
  by (auto simp: grown_def len_at_def)

lemma idle_holds_nothing [simp]: "im_id shm = - 1 \<Longrightarrow> held_fds shm = {} \<and> held_blocks shm = {}"
  by (simp add: held_fds_def held_blocks_def)

lemma idle_releasable [simp]: "im_id shm = - 1 \<Longrightarrow> releasable shm w"
  by (simp add: releasable_def)

text \<open>
  How a registration can end: refused or failed without a trace, with the caller's buffer shared
  in place, with a copy of the library's registered instead, or with memory of the driver mapped.
\<close>

datatype reg_way = In_place | Own_copy | Driver_memory

definition reg_result ::
  "TEEC_SharedMemory \<Rightarrow> 's teec_world \<Rightarrow> reg_way \<Rightarrow> int \<Rightarrow> int \<Rightarrow> addr \<Rightarrow> u8 list \<Rightarrow> TEEC_SharedMemory \<Rightarrow> 's teec_world \<Rightarrow> bool" where
  "reg_result shm w way i fd p b m w' \<longleftrightarrow>
     0 \<le> i \<and> i < 2 ^ 31 \<and> tw_reg w i = None \<and> im_id m = i \<and> sm_buffer m = sm_buffer shm \<and>
     (case way of
        In_place \<Rightarrow> 0 \<le> fd \<and> fd \<notin> tw_fds w \<and> im_registered_fd m = fd \<and> im_shadow_buffer m = NULL \<and> im_flags m = 0 \<and>
          w' = w\<lparr>tw_fds := insert fd (tw_fds w), tw_reg := (tw_reg w)(i \<mapsto> sm_buffer shm)\<rparr>
      | Own_copy \<Rightarrow> 0 \<le> fd \<and> fd \<notin> tw_fds w \<and> p \<noteq> NULL \<and> tw_mem w p = None \<and> unat (sm_size shm) \<le> length b \<and>
          im_registered_fd m = fd \<and> im_shadow_buffer m = p \<and> im_flags m = SHM_FLAG_SHADOW_BUFFER_ALLOCED \<and>
          w' = w\<lparr>tw_mem := (tw_mem w)(p \<mapsto> b), tw_fds := insert fd (tw_fds w), tw_reg := (tw_reg w)(i \<mapsto> p)\<rparr>
      | Driver_memory \<Rightarrow> p \<noteq> NULL \<and> tw_mem w p = None \<and> unat (sm_size shm) \<le> length b \<and>
          length b = unat (im_alloced_size m) \<and>
          im_registered_fd m = - 1 \<and> im_shadow_buffer m = p \<and> im_flags m = 0 \<and>
          w' = w\<lparr>tw_mem := (tw_mem w)(p \<mapsto> b), tw_reg := (tw_reg w)(i \<mapsto> p)\<rparr>)"

definition reg_outcome ::
  "TEEC_SharedMemory \<Rightarrow> 's teec_world \<Rightarrow> (u32 \<times> TEEC_SharedMemory \<times> 's teec_world) res \<Rightarrow> bool" where
  "reg_outcome shm w r \<longleftrightarrow> (\<exists>res m w'. r = Inr (res, m, w') \<and>
     (res \<noteq> TEE_SUCCESS \<and> im_id m = - 1 \<and> w' = w \<or>
      res = TEE_SUCCESS \<and> (\<exists>way i fd p b. reg_result shm w way i fd p b m w')))"

lemma reg_outcomeI:
  assumes "reg_result shm w way i fd p b m w'" "r = Inr (TEE_SUCCESS, m, w')"
  shows "reg_outcome shm w r"
  using assms unfolding reg_outcome_def by blast

lemma free_new_block: "tw_mem w p = None \<Longrightarrow> free_block p (w\<lparr>tw_mem := (tw_mem w)(p \<mapsto> b)\<rparr>) = Inr w"
  by (simp add: free_block_def mem_block_def fun_upd_idem)

lemma close_new_fd: "fd \<notin> tw_fds w \<Longrightarrow> close_fd fd (w\<lparr>tw_fds := insert fd (tw_fds w)\<rparr>) = w"
  by (simp add: close_fd_def)

lemma register_in_place_outcome:
  assumes os: "os_ok os" and idle: "im_id shm = - 1" and m: "cx_reg_mem ctx"
    and shm: "\<not> bad_shm_flags shm" "sm_buffer shm \<noteq> NULL"
  shows "reg_outcome shm w (TEEC_RegisterSharedMemory os k ctx shm w)"
proof -
  define s where "s = (if sm_size shm = 0 then 8 else sm_size shm)"
  obtain fd shm1 w1 where r1: "teec_shm_register os (2 * k) (sm_buffer shm) shm w = (fd, shm1, w1)"
    by (cases "teec_shm_register os (2 * k) (sm_buffer shm) shm w") auto
  note unf = TEEC_RegisterSharedMemory_def Let_def s_def [symmetric] shm m r1
  from os r1 show ?thesis
  proof (cases rule: register_cases)
    case (ok i)
    then have "reg_result shm w In_place i fd 0 [] (shm1\<lparr>im_registered_fd := fd, im_shadow_buffer := NULL, im_flags := 0,
        im_alloced_size := s\<rparr>) w1" by (simp add: reg_result_def)
    then show ?thesis by (rule reg_outcomeI) (simp add: unf ok(1))
  next
    case failed
    obtain p w2 where a: "teec_paged_aligned_alloc os k s w = (p, w2)"
      by (cases "teec_paged_aligned_alloc os k s w") auto
    from os a show ?thesis
    proof (cases rule: aligned_alloc_cases)
      case failed2: failed
      then show ?thesis using failed a idle by (simp add: unf reg_outcome_def)
    next
      case (ok b)
      obtain fd' shm3 w3 where r2: "teec_shm_register os (2 * k + 1) p (shm\<lparr>im_shadow_buffer := p\<rparr>) w2 = (fd', shm3, w3)"
        by (cases "teec_shm_register os (2 * k + 1) p (shm\<lparr>im_shadow_buffer := p\<rparr>) w2") auto
      have b: "unat (sm_size shm) \<le> length b" using ok(3) size_or_8 [of "sm_size shm"] by (simp add: s_def)
      from os r2 show ?thesis
      proof (cases rule: register_cases)
        case failed3: failed
        then show ?thesis
          using failed a ok(1) r2 idle free_new_block [OF ok(2), of b] by (simp add: unf reg_outcome_def ok(4))
      next
        case ok2: (ok i)
        then have "reg_result shm w Own_copy i fd' p b (shm3\<lparr>im_registered_fd := fd', im_flags := SHM_FLAG_SHADOW_BUFFER_ALLOCED,
            im_alloced_size := s\<rparr>) w3" using ok(1,2,4) b by (simp add: reg_result_def)
        then show ?thesis by (rule reg_outcomeI) (use failed a ok(1) r2 ok2(1) in \<open>simp add: unf\<close>)
      qed
    qed
  qed
qed

lemma register_driver_outcome:
  assumes os: "os_ok os" and idle: "im_id shm = - 1" and m: "\<not> cx_reg_mem ctx"
    and shm: "\<not> bad_shm_flags shm" "sm_buffer shm \<noteq> NULL"
  shows "reg_outcome shm w (TEEC_RegisterSharedMemory os k ctx shm w)"
proof -
  define s where "s = (if sm_size shm = 0 then 8 else sm_size shm)"
  obtain fd shm1 w1 where r: "teec_shm_alloc os (2 * k) shm w = (fd, shm1, w1)"
    by (cases "teec_shm_alloc os (2 * k) shm w") auto
  note unf = TEEC_RegisterSharedMemory_def Let_def s_def [symmetric] shm m r
  from os r show ?thesis
  proof (cases rule: shm_alloc_cases)
    case failed
    then show ?thesis using idle by (simp add: unf reg_outcome_def)
  next
    case (ok i)
    obtain p w2 where a: "shm_mmap os k s (im_id shm1) w1 = (p, w2)"
      by (cases "shm_mmap os k s (im_id shm1) w1") auto
    from os a show ?thesis
    proof (cases rule: mmap_cases)
      case failed
      then show ?thesis using ok(1) a close_new_fd [OF ok(2)] by (simp add: unf reg_outcome_def ok(7))
    next
      case ok2: (ok b)
      have b: "unat (sm_size shm) \<le> length b" using ok2(4) size_or_8 [of "sm_size shm"] by (simp add: s_def)
      have "close_fd fd w2 = w\<lparr>tw_mem := (tw_mem w)(p \<mapsto> b), tw_reg := (tw_reg w)(i \<mapsto> p)\<rparr>"
        using ok(2) by (simp add: close_fd_def ok2(5) ok(6,7))
      then have "reg_result shm w Driver_memory i 0 p b (shm1\<lparr>im_shadow_buffer := p, im_registered_fd := - 1,
          im_flags := 0, im_alloced_size := s\<rparr>) (close_fd fd w2)"
        using ok ok2(2,3,4) b by (simp add: reg_result_def)
      then show ?thesis by (rule reg_outcomeI) (use ok(1) a ok2(1) in \<open>simp add: unf\<close>)
    qed
  qed
qed

lemma register_outcome:
  assumes "os_ok os" "im_id shm = - 1"
  shows "reg_outcome shm w (TEEC_RegisterSharedMemory os k ctx shm w)"
proof (cases "bad_shm_flags shm \<or> sm_buffer shm = NULL")
  case True
  then show ?thesis using assms(2) by (auto simp: TEEC_RegisterSharedMemory_def reg_outcome_def)
next
  case False
  then show ?thesis
    using assms register_in_place_outcome register_driver_outcome by (cases "cx_reg_mem ctx") blast+
qed

lemma reg_result_balanced:
  assumes "reg_result shm w way i fd p b m w'"
  shows "grown w w' (held_fds m) (held_blocks m)" "backed m (sm_size shm) w'" "releasable m w'"
proof -
  show "grown w w' (held_fds m) (held_blocks m)"
  proof (cases way)
    case In_place
    then show ?thesis using assms grown_new(1) [where w = w and fd = fd] by (simp add: reg_result_def held_fds_def held_blocks_def)
  next
    case Own_copy
    then show ?thesis using assms grown_new(3) [where w = w and p = p and fd = fd and b = b] by (simp add: reg_result_def held_fds_def held_blocks_def)
  next
    case Driver_memory
    then show ?thesis using assms grown_new(2) [where w = w and p = p and b = b] by (simp add: reg_result_def held_fds_def held_blocks_def)
  qed
  show "backed m (sm_size shm) w'"
    using assms by (cases way) (simp_all add: reg_result_def backed_def holds_def len_at_def)
  show "releasable m w'"
    using assms by (cases way) (auto simp: reg_result_def releasable_def held_blocks_def len_at_def)
qed

lemma register_balanced:
  assumes "os_ok os" "im_id shm = - 1"
  shows "balanced w (sm_size shm) (TEEC_RegisterSharedMemory os k ctx shm w)"
proof -
  obtain res m w' where r: "TEEC_RegisterSharedMemory os k ctx shm w = Inr (res, m, w')"
    and o: "res \<noteq> TEE_SUCCESS \<and> im_id m = - 1 \<and> w' = w \<or> (\<exists>way i fd p b. reg_result shm w way i fd p b m w')"
    using register_outcome [OF assms, of w k ctx] unfolding reg_outcome_def by blast
  from o show ?thesis unfolding r
    by (elim disjE exE) (auto intro!: balancedI intro: reg_result_balanced)
qed

lemma allocate_own_balanced:
  assumes os: "os_ok os" and idle: "im_id shm = - 1" and m: "cx_reg_mem ctx" and flags: "\<not> bad_shm_flags shm"
  shows "balanced w (sm_size shm) (TEEC_AllocateSharedMemory os k ctx shm w)"
proof -
  define s where "s = (if sm_size shm = 0 then 8 else sm_size shm)"
  note unf = TEEC_AllocateSharedMemory_def Let_def s_def [symmetric] flags
  obtain p w1 where a: "teec_paged_aligned_alloc os k s w = (p, w1)"
    by (cases "teec_paged_aligned_alloc os k s w") auto
  from os a show ?thesis
  proof (cases rule: aligned_alloc_cases)
    case failed
    then have "TEEC_AllocateSharedMemory os k ctx shm w = Inr (TEE_ERROR_OUT_OF_MEMORY, shm\<lparr>sm_buffer := NULL\<rparr>, w)"
      using m a by (simp add: unf)
    then show ?thesis using idle by (auto intro!: balancedI)
  next
    case (ok b)
    obtain fd shm2 w2 where r: "teec_shm_register os (2 * k) p (shm\<lparr>sm_buffer := p\<rparr>) w1 = (fd, shm2, w2)"
      by (cases "teec_shm_register os (2 * k) p (shm\<lparr>sm_buffer := p\<rparr>) w1") auto
    from os r show ?thesis
    proof (cases rule: register_cases)
      case failed
      then have "TEEC_AllocateSharedMemory os k ctx shm w =
          Inr (TEE_ERROR_OUT_OF_MEMORY, shm\<lparr>sm_buffer := NULL\<rparr>, w)"
        using m a ok(1) r free_new_block [OF ok(2), of b] by (simp add: unf ok(4))
      then show ?thesis using idle by (auto intro!: balancedI)
    next
      case ok2: (ok i)
      then have "TEEC_AllocateSharedMemory os k ctx shm w = Inr (TEE_SUCCESS, shm2\<lparr>im_registered_fd := fd,
          im_shadow_buffer := NULL, im_alloced_size := s, im_flags := SHM_FLAG_BUFFER_ALLOCED\<rparr>, w2)"
        using m a ok(1) r by (simp add: unf)
      moreover have "grown w w2 {fd} {p}"
        using grown_new(3) [OF ok(2), of fd] ok2(2) by (simp add: ok(4) ok2(7))
      moreover have "len_at w2 p \<noteq> None" by (simp add: ok(4) ok2(7) len_at_def)
      ultimately show ?thesis
        using ok(1) ok2(1,3,6) by (auto simp: balanced_def held_fds_def held_blocks_def backed_def releasable_def)
    qed
  qed
qed

lemma allocate_driver_balanced:
  assumes os: "os_ok os" and idle: "im_id shm = - 1" and m: "\<not> cx_reg_mem ctx" and flags: "\<not> bad_shm_flags shm"
  shows "balanced w (sm_size shm) (TEEC_AllocateSharedMemory os k ctx shm w)"
proof -
  define s where "s = (if sm_size shm = 0 then 8 else sm_size shm)"
  note unf = TEEC_AllocateSharedMemory_def Let_def s_def [symmetric] flags
  obtain fd shm1 w1 where r: "teec_shm_alloc os (2 * k) shm w = (fd, shm1, w1)"
    by (cases "teec_shm_alloc os (2 * k) shm w") auto
  from os r show ?thesis
  proof (cases rule: shm_alloc_cases)
    case failed
    then show ?thesis using idle m r by (auto intro!: balancedI simp: unf)
  next
    case (ok i)
    obtain p w2 where a: "shm_mmap os k s (im_id shm1) w1 = (p, w2)"
      by (cases "shm_mmap os k s (im_id shm1) w1") auto
    from os a show ?thesis
    proof (cases rule: mmap_cases)
      case failed
      then have "TEEC_AllocateSharedMemory os k ctx shm w =
          Inr (TEE_ERROR_OUT_OF_MEMORY, shm1\<lparr>sm_buffer := p, im_id := - 1\<rparr>, close_fd fd w2)"
        using ok(1) a m r by (simp add: unf)
      moreover have "grown w (close_fd fd w2) {} {}"
        using ok(2,7) failed(2) by (simp add: grown_def len_at_def close_fd_def)
      ultimately show ?thesis by (auto intro!: balancedI)
    next
      case ok2: (ok b)
      have "TEEC_AllocateSharedMemory os k ctx shm w = Inr (TEE_SUCCESS, shm1\<lparr>sm_buffer := p, im_registered_fd := - 1,
          im_shadow_buffer := NULL, im_alloced_size := s, im_flags := SHM_FLAG_BUFFER_ALLOCED\<rparr>, close_fd fd w2)"
        using ok(1) a ok2(1) m r by (simp add: unf)
      moreover have "close_fd fd w2 = w\<lparr>tw_mem := (tw_mem w)(p \<mapsto> b), tw_reg := (tw_reg w)(i \<mapsto> p)\<rparr>"
        using ok(2) by (simp add: close_fd_def ok2(5) ok(6,7))
      moreover have "tw_mem w p = None" using ok2(3) ok(7) by simp
      ultimately show ?thesis
        using grown_new(2) ok(3,6) ok2(2,4) by (simp add: balanced_def held_fds_def held_blocks_def backed_def releasable_def len_at_def)
    qed
  qed
qed

lemma allocate_balanced:
  assumes "os_ok os" "im_id shm = - 1"
  shows "balanced w (sm_size shm) (TEEC_AllocateSharedMemory os k ctx shm w)"
proof (cases "bad_shm_flags shm")
  case True
  then show ?thesis using assms(2) by (auto intro!: balancedI simp: TEEC_AllocateSharedMemory_def)
next
  case False
  then show ?thesis
    using assms allocate_own_balanced allocate_driver_balanced by (cases "cx_reg_mem ctx") blast+
qed

section \<open>Copies\<close>

lemma memcpy_total:
  assumes "holds w dst (doff + n)" "holds w src (soff + n)"
  shows "\<exists>w'. memcpy w dst doff src soff n = Inr w' \<and> same_shape w w' \<and> tw_reg w' = tw_reg w \<and> tw_peer w' = tw_peer w"
proof -
  obtain sb db where "tw_mem w src = Some sb" "soff + n \<le> length sb" "tw_mem w dst = Some db" "doff + n \<le> length db"
    using assms by (auto simp: holds_def len_at_def)
  then show ?thesis
    by (auto simp: memcpy_def mem_block_def mem_read_ok mem_write_ok same_shape_def len_at_def fun_eq_iff)
qed

section \<open>One parameter\<close>

text \<open>
  What the caller owes: the union holds what the type announces, a buffer of the caller is as large
  as it says, and a registered memory with a separate buffer has both of its size.
\<close>

definition parent_ok :: "TEEC_SharedMemory \<Rightarrow> 's teec_world \<Rightarrow> bool" where
  "parent_ok shm w \<longleftrightarrow> (im_shadow_buffer shm \<noteq> NULL \<longrightarrow>
     holds w (im_shadow_buffer shm) (unat (sm_size shm)) \<and> holds w (sm_buffer shm) (unat (sm_size shm)))"

definition is_temp :: "u32 \<Rightarrow> bool" where
  "is_temp t \<longleftrightarrow> t \<in> {TEEC_MEMREF_TEMP_INPUT, TEEC_MEMREF_TEMP_OUTPUT, TEEC_MEMREF_TEMP_INOUT}"

definition param_wf :: "u32 \<Rightarrow> TEEC_Parameter \<Rightarrow> 's teec_world \<Rightarrow> bool" where
  "param_wf t tp w \<longleftrightarrow>
     (t \<in> {1, 2, 3} \<longrightarrow> (\<exists>a b. tp = T_value a b)) \<and>
     (is_temp t \<longrightarrow> (\<exists>buf sz. tp = T_tmpref buf sz \<and> (buf \<noteq> NULL \<longrightarrow> holds w buf (unat sz)))) \<and>
     (t \<in> {0xC, 0xD, 0xE, 0xF} \<longrightarrow> (\<exists>parent sz offset. tp = T_memref parent sz offset \<and> parent_ok parent w))"

text \<open>What the steps after the call rely on.\<close>

definition post_wf :: "u32 \<Rightarrow> TEEC_Parameter \<Rightarrow> TEEC_SharedMemory \<Rightarrow> 's teec_world \<Rightarrow> bool" where
  "post_wf t tp m w \<longleftrightarrow> param_wf t tp w \<and>
     (is_temp t \<longrightarrow> (\<forall>buf sz. tp = T_tmpref buf sz \<longrightarrow> backed m sz w)) \<and>
     (t \<in> {0xD, 0xE, 0xF} \<longrightarrow> (\<forall>parent sz offset. tp = T_memref parent sz offset \<longrightarrow>
        unat offset + unat sz \<le> unat (sm_size parent)))"

lemma param_wf_grown: "param_wf t tp w \<Longrightarrow> grown w w' F B \<Longrightarrow> param_wf t tp w'"
  using holds_grown [of w _ _ w' F B] unfolding param_wf_def parent_ok_def by metis

lemma post_wf_grown: "post_wf t tp m w \<Longrightarrow> grown w w' F B \<Longrightarrow> post_wf t tp m w'"
  using holds_grown [of w _ _ w' F B] param_wf_grown [of t tp w w' F B]
  unfolding post_wf_def backed_def by metis

definition ready_param ::
  "u32 \<Rightarrow> TEEC_Parameter \<Rightarrow> 's teec_world \<Rightarrow> u32 \<times> tee_ioctl_param \<times> TEEC_SharedMemory \<times> 's teec_world \<Rightarrow> bool" where
  "ready_param t tp w r \<longleftrightarrow> (case r of (res, p, m, w') \<Rightarrow>
     grown w w' (held_fds m) (held_blocks m) \<and> releasable m w' \<and> (\<not> is_temp t \<longrightarrow> im_id m = - 1) \<and>
     (res = TEE_SUCCESS \<longrightarrow> post_wf t tp m w'))"

lemma temp_post_wf: "is_temp t \<Longrightarrow> param_wf t (T_tmpref buf sz) w \<Longrightarrow> backed m sz w \<Longrightarrow> post_wf t (T_tmpref buf sz) m w"
  by (auto simp: post_wf_def is_temp_def)

definition temp_shm :: "u32 \<Rightarrow> u64 \<Rightarrow> TEEC_SharedMemory \<Rightarrow> TEEC_SharedMemory" where
  "temp_shm t sz m = m\<lparr>sm_flags := (if t = TEEC_MEMREF_TEMP_INPUT then TEEC_MEM_INPUT
     else if t = TEEC_MEMREF_TEMP_OUTPUT then TEEC_MEM_OUTPUT else TEEC_MEM_INPUT OR TEEC_MEM_OUTPUT), sm_size := sz\<rparr>"

lemma temp_shm_simps [simp]:
  "im_id (temp_shm t sz m) = im_id m" "sm_size (temp_shm t sz m) = sz"
  "im_shadow_buffer (temp_shm t sz m) = im_shadow_buffer m" "sm_buffer (temp_shm t sz m) = sm_buffer m"
  by (simp_all add: temp_shm_def)

lemma pre_tmpref_null:
  assumes "is_temp t"
  shows "teec_pre_process_tmpref os k ctx t NULL sz p m w =
    (if sz \<noteq> 0 then Inr (TEE_ERROR_BAD_PARAMETERS, p\<lparr>ip_attr := ucast t\<rparr>, temp_shm t sz m, w)
     else if cx_memref_null ctx then
       Inr (TEE_SUCCESS, p\<lparr>ip_attr := ucast t, ip_c := TEE_MEMREF_NULL, ip_b := sz\<rparr>, (temp_shm t sz m)\<lparr>im_id := - 1\<rparr>, w)
     else cbind (TEEC_AllocateSharedMemory os k ctx (temp_shm t sz m) w) (\<lambda>(res, m, w).
       if res \<noteq> TEE_SUCCESS then Inr (res, p\<lparr>ip_attr := ucast t\<rparr>, m, w)
       else Inr (TEE_SUCCESS, p\<lparr>ip_attr := ucast t, ip_c := word_of_int (im_id m), ip_b := sz\<rparr>, m, w)))"
  using assms unfolding is_temp_def teec_pre_process_tmpref_def Let_def temp_shm_def by (simp only: not_True_eq_False if_False if_True refl)

lemma pre_tmpref_buffer:
  assumes "is_temp t" "buf \<noteq> NULL"
  shows "teec_pre_process_tmpref os k ctx t buf sz p m w =
    cbind (TEEC_RegisterSharedMemory os k ctx ((temp_shm t sz m)\<lparr>sm_buffer := buf\<rparr>) w) (\<lambda>(res, m, w).
       if res \<noteq> TEE_SUCCESS then Inr (res, p\<lparr>ip_attr := ucast t\<rparr>, m, w)
       else cbind (if im_shadow_buffer m \<noteq> NULL then memcpy w (im_shadow_buffer m) 0 buf 0 (unat sz) else Inr w) (\<lambda>w.
         Inr (TEE_SUCCESS, p\<lparr>ip_attr := ucast t, ip_c := word_of_int (im_id m), ip_b := sz\<rparr>, m, w)))"
  using assms unfolding is_temp_def teec_pre_process_tmpref_def Let_def temp_shm_def by (simp only: not_True_eq_False if_False if_True refl)

lemma pre_tmpref_ready:
  assumes os: "os_ok os" and t: "is_temp t" and wf: "param_wf t (T_tmpref buf sz) w"
    and m: "im_id m = - 1" "im_shadow_buffer m = NULL"
  shows "\<exists>r. teec_pre_process_tmpref os k ctx t buf sz p m w = Inr r \<and> ready_param t (T_tmpref buf sz) w r"
proof (cases "buf = NULL")
  case null: True
  obtain res m2 w2 where a: "TEEC_AllocateSharedMemory os k ctx (temp_shm t sz m) w = Inr (res, m2, w2)"
    and b: "grown w w2 (held_fds m2) (held_blocks m2)" "res = 0 \<Longrightarrow> backed m2 sz w2" "releasable m2 w2"
    using allocate_balanced [OF os, of "temp_shm t sz m" w k ctx] m by (auto simp: balanced_def)
  then have "res = 0 \<Longrightarrow> post_wf t (T_tmpref buf sz) m2 w2"
    using temp_post_wf [OF t] param_wf_grown [OF wf] by blast
  moreover have "post_wf t (T_tmpref buf sz) ((temp_shm t sz m)\<lparr>im_id := - 1\<rparr>) w"
    using temp_post_wf [OF t wf] m by (simp add: backed_def)
  ultimately show ?thesis
    using null b(1,3) a t m by (auto simp: pre_tmpref_null ready_param_def)
next
  case False
  let ?m = "(temp_shm t sz m)\<lparr>sm_buffer := buf\<rparr>"
  obtain res m2 w2 where a: "TEEC_RegisterSharedMemory os k ctx ?m w = Inr (res, m2, w2)"
    and b: "grown w w2 (held_fds m2) (held_blocks m2)" "res = 0 \<Longrightarrow> backed m2 sz w2" "releasable m2 w2"
    using register_balanced [OF os, of ?m w k ctx] m by (auto simp: balanced_def)
  have "holds w buf (unat sz)" using wf t False by (auto simp: param_wf_def)
  then have h: "holds w2 buf (0 + unat sz)" using holds_grown b(1) by fastforce
  obtain w3 where c: "res = 0 \<Longrightarrow> (if im_shadow_buffer m2 \<noteq> NULL then memcpy w2 (im_shadow_buffer m2) 0 buf 0 (unat sz)
      else Inr w2) = Inr w3 \<and> same_shape w2 w3"
    using memcpy_total [OF _ h, of "im_shadow_buffer m2" 0] b(2)
    by (cases "res = 0 \<and> im_shadow_buffer m2 \<noteq> NULL") (auto simp: backed_def same_shape_def)
  then have "res = 0 \<Longrightarrow> grown w w3 (held_fds m2) (held_blocks m2) \<and> releasable m2 w3 \<and> post_wf t (T_tmpref buf sz) m2 w3"
    using b(1,2) releasable_grown [OF b(3)] grown_shape [OF b(1)] temp_post_wf [OF t] param_wf_grown [OF wf] same_shape_grown post_wf_grown by blast
  then show ?thesis
    using a b(1,3) c t by (cases "res = 0") (auto simp: pre_tmpref_buffer [OF t False] ready_param_def)
qed

lemma pre_whole_ready:
  assumes wf: "param_wf 0xC (T_memref parent sz offset) w" and m: "im_id m = - 1"
  shows "\<exists>r. cbind (teec_pre_process_whole parent p w) (\<lambda>(res, p, w). Inr (res, p, m, w)) = Inr r \<and>
    ready_param 0xC (T_memref parent sz offset) w r"
proof -
  define fl where "fl = sm_flags parent AND (1 OR 2)"
  let ?copy = "im_shadow_buffer parent \<noteq> NULL \<and> fl AND 1 \<noteq> 0"
  have "parent_ok parent w" using wf by (auto simp: param_wf_def)
  then obtain w' where w': "(if ?copy then memcpy w (im_shadow_buffer parent) 0 (sm_buffer parent) 0 (unat (sm_size parent))
      else Inr w) = Inr w'" "same_shape w w'"
    using memcpy_total [of w "im_shadow_buffer parent" 0 "unat (sm_size parent)" "sm_buffer parent" 0]
    by (cases ?copy) (auto simp: parent_ok_def same_shape_def)
  then have g: "grown w w' {} {}" by (simp add: same_shape_grown)
  have "post_wf 0xC (T_memref parent sz offset) m w'"
    using param_wf_grown [OF wf g] by (simp add: post_wf_def is_temp_def)
  with w'(1) g m show ?thesis
    unfolding teec_pre_process_whole_def Let_def fl_def [symmetric]
    by (auto simp: ready_param_def is_temp_def simp del: neq0_conv)
qed

lemma pre_partial_ready:
  assumes t: "t \<in> {0xD, 0xE, 0xF}" and wf: "param_wf t (T_memref parent sz offset) w" and m: "im_id m = - 1"
  shows "\<exists>r. cbind (teec_pre_process_partial t parent sz offset p w) (\<lambda>(res, p, w). Inr (res, p, m, w)) = Inr r \<and>
    ready_param t (T_memref parent sz offset) w r"
proof (cases "offset + sz < offset \<or> offset + sz > sm_size parent")
  case True
  then show ?thesis
    using t m by (auto simp: teec_pre_process_partial_def Let_def ready_param_def)
next
  case False
  then have b: "unat offset + unat sz \<le> unat (sm_size parent)" by (intro no_wrap_bound) auto
  let ?copy = "im_shadow_buffer parent \<noteq> NULL \<and> t \<noteq> 0xE"
  have "parent_ok parent w" using wf t by (auto simp: param_wf_def)
  then have "im_shadow_buffer parent \<noteq> NULL \<Longrightarrow> holds w (im_shadow_buffer parent) (unat offset + unat sz) \<and>
      holds w (sm_buffer parent) (unat offset + unat sz)"
    using b by (auto simp: parent_ok_def holds_def)
  then obtain w' where w': "(if ?copy then memcpy w (im_shadow_buffer parent) (unat offset) (sm_buffer parent)
      (unat offset) (unat sz) else Inr w) = Inr w'" "same_shape w w'"
    using memcpy_total [of w "im_shadow_buffer parent" "unat offset" "unat sz" "sm_buffer parent" "unat offset"]
    by (cases ?copy) (auto simp: same_shape_def)
  then have g: "grown w w' {} {}" by (simp add: same_shape_grown)
  have "post_wf t (T_memref parent sz offset) m w'"
    using param_wf_grown [OF wf g] b t by (auto simp: post_wf_def is_temp_def)
  with w'(1) g m t False show ?thesis
    by (auto simp: teec_pre_process_partial_def Let_def ready_param_def is_temp_def simp del: neq0_conv)
qed

lemma pre_param_ready:
  assumes os: "os_ok os" and wf: "param_wf t tp w" and m: "im_id m = - 1" "im_shadow_buffer m = NULL"
  shows "\<exists>r. pre_process_param os k ctx t tp p m w = Inr r \<and> ready_param t tp w r"
proof -
  consider "t = 0" | "t \<in> {1, 2, 3}" | "is_temp t" | "t = 0xC" | "t \<in> {0xD, 0xE, 0xF}" |
    "t \<noteq> 0" "t \<notin> {1, 2, 3}" "t \<notin> {5, 6, 7}" "t \<noteq> 0xC" "t \<notin> {0xD, 0xE, 0xF}"
    unfolding is_temp_def by blast
  then show ?thesis
  proof cases
    case 1
    then show ?thesis using m wf by (simp add: pre_process_param_def ready_param_def post_wf_def is_temp_def)
  next
    case 2
    then show ?thesis
      using m wf by (auto simp: pre_process_param_def ready_param_def post_wf_def param_wf_def is_temp_def)
  next
    case 3
    then obtain buf sz where "tp = T_tmpref buf sz" using wf by (auto simp: param_wf_def)
    with 3 pre_tmpref_ready [OF os 3 _ m, of buf sz w k ctx p] wf show ?thesis
      by (auto simp: pre_process_param_def is_temp_def)
  next
    case 4
    then obtain parent sz offset where "tp = T_memref parent sz offset" using wf by (auto simp: param_wf_def)
    with 4 pre_whole_ready [of parent sz offset w m p] wf m show ?thesis by (auto simp: pre_process_param_def)
  next
    case 5
    then obtain parent sz offset where "tp = T_memref parent sz offset" using wf by (auto simp: param_wf_def)
    with 5 pre_partial_ready [OF 5, of parent sz offset w m p] wf m show ?thesis by (auto simp: pre_process_param_def)
  next
    case 6
    then show ?thesis using m by (simp add: pre_process_param_def ready_param_def)
  qed
qed

text \<open>The whole operation, from parameter \<open>n\<close> on.\<close>

fun params_wf :: "u32 \<Rightarrow> nat \<Rightarrow> TEEC_Parameter list \<Rightarrow> 's teec_world \<Rightarrow> bool" where
  "params_wf types n [] w \<longleftrightarrow> True"
| "params_wf types n (tp # tps) w \<longleftrightarrow> param_wf (TEEC_PARAM_TYPE_GET types n) tp w \<and> params_wf types (Suc n) tps w"

fun posts_wf :: "u32 \<Rightarrow> nat \<Rightarrow> TEEC_Parameter list \<Rightarrow> TEEC_SharedMemory list \<Rightarrow> 's teec_world \<Rightarrow> bool" where
  "posts_wf types n (tp # tps) (m # ms) w \<longleftrightarrow>
     post_wf (TEEC_PARAM_TYPE_GET types n) tp m w \<and> posts_wf types (Suc n) tps ms w"
| "posts_wf types n tps ms w \<longleftrightarrow> tps = [] \<and> ms = []"

fun only_temps :: "u32 \<Rightarrow> nat \<Rightarrow> TEEC_SharedMemory list \<Rightarrow> bool" where
  "only_temps types n [] \<longleftrightarrow> True"
| "only_temps types n (m # ms) \<longleftrightarrow>
     (\<not> is_temp (TEEC_PARAM_TYPE_GET types n) \<longrightarrow> im_id m = - 1) \<and> only_temps types (Suc n) ms"

lemma params_wf_grown: "params_wf types n tps w \<Longrightarrow> grown w w' F B \<Longrightarrow> params_wf types n tps w'"
  by (induction types n tps w rule: params_wf.induct) (auto intro: param_wf_grown)

lemma posts_wf_grown: "posts_wf types n tps ms w \<Longrightarrow> grown w w' F B \<Longrightarrow> posts_wf types n tps ms w'"
  by (induction types n tps ms w rule: posts_wf.induct) (auto intro: post_wf_grown)

lemma idle_shms:
  assumes "\<forall>m\<in>set ms. im_id m = - 1"
  shows "(\<Union>m\<in>set ms. held_fds m) = {}" "(\<Union>m\<in>set ms. held_blocks m) = {}" "only_temps types n ms"
    "releasables ms w"
proof -
  show "(\<Union>m\<in>set ms. held_fds m) = {}" "(\<Union>m\<in>set ms. held_blocks m) = {}" using assms by auto
  show "only_temps types n ms" using assms by (induction ms arbitrary: n) auto
  show "releasables ms w" using assms by (induction ms) auto
qed

lemma releasables_Cons:
  assumes "releasable m w" "grown w w' F (\<Union>m\<in>set ms. held_blocks m)" "releasables ms w'"
  shows "releasables (m # ms) w'"
proof -
  have "p \<notin> (\<Union>m\<in>set ms. held_blocks m)" if "p \<in> held_blocks m" for p
    using assms(1,2) that unfolding releasable_def grown_def by (metis option.distinct(1))
  then show ?thesis using releasable_grown [OF assms(1,2)] assms(3) by auto
qed

lemma pre_process_ready:
  assumes "os_ok os" "params_wf types n tps w" "\<forall>m\<in>set ms. im_id m = - 1 \<and> im_shadow_buffer m = NULL"
    and "length tps = length ms" "length ps = length ms"
  shows "\<exists>res ps' ms' w'. pre_process_from os ctx types n tps ps ms w = Inr (res, ps', ms', w') \<and>
    grown w w' (\<Union>m\<in>set ms'. held_fds m) (\<Union>m\<in>set ms'. held_blocks m) \<and> only_temps types n ms' \<and> releasables ms' w' \<and>
    length ps' = length ms \<and> length ms' = length ms \<and> (res = TEE_SUCCESS \<longrightarrow> posts_wf types n tps ms' w')"
  using assms
proof (induction os ctx types n tps ps ms w rule: pre_process_from.induct)
  case (1 os ctx types n tp tps p ps m ms w)
  let ?t = "TEEC_PARAM_TYPE_GET types n"
  have wf: "param_wf ?t tp w" "params_wf types (Suc n) tps w" using "1.prems"(2) by simp_all
  obtain res p' m' w1 where r: "pre_process_param os n ctx ?t tp p m w = Inr (res, p', m', w1)"
    and rd: "ready_param ?t tp w (res, p', m', w1)"
    using pre_param_ready [OF "1.prems"(1) wf(1), of m n ctx p] "1.prems"(3) by auto
  have g: "grown w w1 (held_fds m') (held_blocks m')" and i: "\<not> is_temp ?t \<longrightarrow> im_id m' = - 1"
    and l: "releasable m' w1"
    using rd by (simp_all add: ready_param_def)
  show ?case
  proof (cases "res = TEE_SUCCESS")
    case False
    then show ?thesis
      using r g i l idle_shms [of ms] "1.prems"(3,4,5) by auto
  next
    case True
    have post: "post_wf ?t tp m' w1" using rd True by (simp add: ready_param_def)
    obtain res2 ps2 ms2 w2 where r2: "pre_process_from os ctx types (Suc n) tps ps ms w1 = Inr (res2, ps2, ms2, w2)"
      and g2: "grown w1 w2 (\<Union>m\<in>set ms2. held_fds m) (\<Union>m\<in>set ms2. held_blocks m)"
      and l2: "releasables ms2 w2" and rest: "only_temps types (Suc n) ms2" "length ps2 = length ms" "length ms2 = length ms"
        "res2 = TEE_SUCCESS \<longrightarrow> posts_wf types (Suc n) tps ms2 w2"
      using "1.IH" [OF r _ _ _ _ "1.prems"(1)] params_wf_grown [OF wf(2) g] "1.prems"(3-5) True by fastforce
    have "grown w w2 (held_fds m' \<union> (\<Union>m\<in>set ms2. held_fds m)) (held_blocks m' \<union> (\<Union>m\<in>set ms2. held_blocks m))"
      by (rule grown_trans [OF g g2])
    then show ?thesis
      using r r2 rest i post_wf_grown [OF post g2] releasables_Cons [OF l g2 l2] True by auto
  qed
qed auto

lemma holds_less: "holds w p n \<Longrightarrow> k \<le> n \<Longrightarrow> holds w p k"
  by (auto simp: holds_def)

lemma copy_back:
  assumes "c \<Longrightarrow> holds w dst (off + n) \<and> holds w src (off + n)"
  shows "\<exists>w'. (if c then memcpy w dst off src off n else Inr w) = Inr w' \<and> same_shape w w'"
  using assms memcpy_total [of w dst off n src off] by (cases c) (auto simp: same_shape_def)

lemma post_tmpref_total:
  assumes "is_temp t" "post_wf t (T_tmpref buf sz) m w"
  shows "\<exists>tp' w'. teec_post_process_tmpref t buf sz p m w = Inr (tp', w') \<and> same_shape w w'"
proof -
  let ?c = "buf \<noteq> NULL \<and> im_shadow_buffer m \<noteq> NULL" and ?n = "unat (min (ip_b p) sz)"
  have "?n \<le> unat sz" by (simp add: min_def word_le_nat_alt)
  then have "?c \<Longrightarrow> holds w buf (0 + ?n) \<and> holds w (im_shadow_buffer m) (0 + ?n)"
    using assms by (auto simp: post_wf_def param_wf_def backed_def intro: holds_less)
  from copy_back [of ?c w buf 0 ?n "im_shadow_buffer m", OF this] show ?thesis
    by (auto simp: teec_post_process_tmpref_def same_shape_def)
qed

lemma post_whole_total:
  assumes "parent_ok parent w"
  shows "\<exists>tp' w'. teec_post_process_whole parent sz offset p w = Inr (tp', w') \<and> same_shape w w'"
proof -
  let ?c = "im_shadow_buffer parent \<noteq> NULL \<and> ip_b p \<le> sm_size parent"
  have "?c \<Longrightarrow> holds w (sm_buffer parent) (0 + unat (ip_b p)) \<and> holds w (im_shadow_buffer parent) (0 + unat (ip_b p))"
    using assms by (auto simp: parent_ok_def word_le_nat_alt intro: holds_less)
  from copy_back [of ?c w "sm_buffer parent" 0 "unat (ip_b p)" "im_shadow_buffer parent", OF this] show ?thesis
    by (auto simp: teec_post_process_whole_def same_shape_def)
qed

lemma post_partial_total:
  assumes "parent_ok parent w" "unat offset + unat sz \<le> unat (sm_size parent)"
  shows "\<exists>tp' w'. teec_post_process_partial t parent sz offset p w = Inr (tp', w') \<and> same_shape w w'"
proof -
  let ?c = "im_shadow_buffer parent \<noteq> NULL \<and> ip_b p \<le> sz"
  have "?c \<Longrightarrow> holds w (sm_buffer parent) (unat offset + unat (ip_b p)) \<and>
      holds w (im_shadow_buffer parent) (unat offset + unat (ip_b p))"
    using assms by (auto simp: parent_ok_def word_le_nat_alt intro: holds_less)
  from copy_back [of ?c w "sm_buffer parent" "unat offset" "unat (ip_b p)" "im_shadow_buffer parent", OF this] show ?thesis
    by (auto simp: teec_post_process_partial_def same_shape_def)
qed

lemma post_param_total:
  assumes "post_wf t tp m w"
  shows "\<exists>tp' w'. post_process_param t tp p m w = Inr (tp', w') \<and> same_shape w w'"
proof -
  have wf: "param_wf t tp w" using assms by (simp add: post_wf_def)
  consider "is_temp t" | "t = 0xC" | "t \<in> {0xD, 0xE, 0xF}" | "\<not> is_temp t" "t \<notin> {0xC, 0xD, 0xE, 0xF}" by blast
  then show ?thesis
  proof cases
    case 1
    then obtain buf sz where "tp = T_tmpref buf sz" using wf by (auto simp: param_wf_def)
    with 1 assms post_tmpref_total [of t buf sz m w p] show ?thesis by (auto simp: post_process_param_def is_temp_def)
  next
    case 2
    then obtain parent sz offset where "tp = T_memref parent sz offset" "parent_ok parent w"
      using wf by (auto simp: param_wf_def)
    with 2 post_whole_total [of parent w sz offset p] show ?thesis by (auto simp: post_process_param_def)
  next
    case 3
    then obtain parent sz offset where tp: "tp = T_memref parent sz offset" "parent_ok parent w"
      using wf by (auto simp: param_wf_def)
    moreover have "unat offset + unat sz \<le> unat (sm_size parent)" using assms 3 tp(1) by (auto simp: post_wf_def)
    ultimately show ?thesis
      using 3 post_partial_total [of parent w offset sz t p] by (auto simp: post_process_param_def)
  next
    case 4
    then show ?thesis by (auto simp: post_process_param_def is_temp_def same_shape_def)
  qed
qed

lemma post_process_total:
  assumes "posts_wf types n tps ms w" "length ps = length ms"
  shows "\<exists>tps' w'. post_process_from types n tps ps ms w = Inr (tps', w') \<and> same_shape w w'"
  using assms
proof (induction types n tps ps ms w rule: post_process_from.induct)
  case (1 types n tp tps p ps m ms w)
  obtain tp' w1 where r: "post_process_param (TEEC_PARAM_TYPE_GET types n) tp p m w = Inr (tp', w1)"
    and s: "same_shape w w1"
    using post_param_total [of "TEEC_PARAM_TYPE_GET types n" tp m w p] "1.prems"(1) by auto
  have "posts_wf types (Suc n) tps ms w1"
    using "1.prems"(1) posts_wf_grown [OF _ same_shape_grown [OF s]] by simp
  with "1.IH" [OF r] "1.prems"(2) r s show ?case
    by (fastforce intro: same_shape_trans)
qed (auto simp: same_shape_def)

lemma only_temps_nth:
  "only_temps types n ms \<Longrightarrow> \<forall>i<length ms. TEEC_PARAM_TYPE_GET types (n + i) \<notin> {5, 6, 7} \<longrightarrow> im_id (ms ! i) = - 1"
proof (induction types n ms rule: only_temps.induct)
  case (2 types n m ms)
  show ?case
  proof (intro allI impI)
    fix i assume "i < length (m # ms)" "TEEC_PARAM_TYPE_GET types (n + i) \<notin> {5, 6, 7}"
    then show "im_id ((m # ms) ! i) = - 1" using 2 by (cases i) (auto simp: is_temp_def)
  qed
qed simp

lemma freed_shape:
  assumes "grown w w' (\<Union>m\<in>set ms. held_fds m) (\<Union>m\<in>set ms. held_blocks m)" "only_temps types 0 ms" "releasables ms w'"
  shows "\<exists>w2. free_temp_from types 0 ms w' = Inr w2 \<and> same_shape w w2"
  using grown_back [OF assms(1)] free_temp_gives_back [OF _ assms(3), of types 0] only_temps_nth [OF assms(2)] by simp

section \<open>Properties\<close>

definition ioctl_ok :: "('s, 'r) tee_ioc \<Rightarrow> bool" where
  "ioctl_ok ioctl \<longleftrightarrow> (\<forall>ps w. same_shape w (snd (ioctl ps w)) \<and>
     (\<forall>ret origin ps' x. fst (ioctl ps w) = Ioctl_done ret origin ps' x \<longrightarrow> length ps' = length ps))"

definition operation_wf :: "TEEC_Operation \<Rightarrow> 's teec_world \<Rightarrow> bool" where
  "operation_wf opn w \<longleftrightarrow> length (ot_params opn) = 4 \<and> params_wf (ot_paramTypes opn) 0 (ot_params opn) w"

lemma round_balanced:
  assumes "os_ok os" "ioctl_ok ioctl" "operation_wf opn w"
  shows "\<exists>res origin opn' x w'. operation_round ioctl os ctx (Some opn) w = Inr (res, origin, Some opn', x, w') \<and>
      same_shape w w'"
proof -
  let ?types = "ot_paramTypes opn" and ?ms = "replicate 4 (zero_shm\<lparr>im_id := - 1\<rparr>)"
  have wf: "params_wf ?types 0 (ot_params opn) w" "length (ot_params opn) = 4"
    using assms(3) by (simp_all add: operation_wf_def)
  obtain res ps ms w1 where pre: "teec_pre_process_operation os ctx (Some opn) (replicate 4 zero_param) w =
      Inr (res, ps, ms, w1)"
    and g: "grown w w1 (\<Union>m\<in>set ms. held_fds m) (\<Union>m\<in>set ms. held_blocks m)" "only_temps ?types 0 ms"
    and l: "releasables ms w1" and len: "length ps = 4" "length ms = 4" and post: "res = TEE_SUCCESS \<longrightarrow> posts_wf ?types 0 (ot_params opn) ms w1"
    using pre_process_ready [OF assms(1) wf(1), of ?ms "replicate 4 zero_param" ctx] wf(2)
    by (auto simp: teec_pre_process_operation_def zero_shm_def)
  obtain r w2 where io: "ioctl ps w1 = (r, w2)" by (cases "ioctl ps w1") auto
  have s: "same_shape w1 w2" and n: "r = Ioctl_done ret o' ps' x \<Longrightarrow> length ps' = 4" for ret o' ps' x
    using assms(2) io len unfolding ioctl_ok_def by (metis snd_conv, metis fst_conv)
  note freed = freed_shape [OF _ g(2)]
  note unf = operation_round_def pre teec_post_process_operation_def teec_free_temp_refs_def io
  show ?thesis
  proof (cases "res = TEE_SUCCESS")
    case False
    then show ?thesis using freed [OF g(1) l] by (auto simp: unf)
  next
    case True
    show ?thesis
    proof (cases r)
      case (Ioctl_failed e)
      then show ?thesis
        using freed [OF grown_shape [OF g(1) s] releasables_grown [OF l same_shape_grown [OF s]]] True by (auto simp: unf)
    next
      case (Ioctl_done ret o' ps' x)
      have "posts_wf ?types 0 (ot_params opn) ms w2" using post True posts_wf_grown [OF _ same_shape_grown [OF s]] by simp
      from post_process_total [OF this, of ps'] n [OF Ioctl_done] len
      obtain tps w3 where p: "post_process_from ?types 0 (ot_params opn) ps' ms w2 = Inr (tps, w3)" "same_shape w2 w3" by auto
      note s3 = same_shape_trans [OF s p(2)]
      show ?thesis
        using freed [OF grown_shape [OF g(1) s3] releasables_grown [OF l same_shape_grown [OF s3]]] p True Ioctl_done
        by (auto simp: unf)
    qed
  qed
qed

text \<open>Claim C14: a command is invoked without a memory error and without a leak: for every mix of
  parameters that is what its types say, whatever the driver and the operating system answer,
  whatever the page size and wherever the preparation stops, the call returns, no copy leaves its
  blocks, nothing is freed that is not allocated, every descriptor and block of memory it took
  has been given back, and every block of the caller is still there at its length. The driver is
  assumed to change no length of a block and no descriptor, and to answer with as many parameters
  as it was given.\<close>

theorem invoke_command_balanced:
  assumes "os_ok os" "ioctl_ok (ioctl cmd)" "operation_wf opn w"
  shows "\<exists>res origin opn' w'. TEEC_InvokeCommand ioctl os (Some ctx) cmd (Some opn) w =
      Inr (res, origin, Some opn', w') \<and> tw_fds w' = tw_fds w \<and> len_at w' = len_at w"
  using round_balanced [OF assms, of ctx] by (auto simp: TEEC_InvokeCommand_def same_shape_def)

text \<open>An operating system that always has the same fresh descriptor, identifier and address, if they
  are free, and a driver that changes nothing.\<close>

definition some_os :: teec_os where
  "some_os = \<lparr>os_page = 0x4000,
     os_register = (\<lambda>k fds reg. if int k + 10 \<notin> fds \<and> k < 100 \<and> reg (int k + 20) = None
       then Some (int k + 10, int k + 20) else None),
     os_alloc = (\<lambda>k mem. if mem (k + 1000) = None then Some (k + 1000) else None),
     os_contents = (\<lambda>k i. 0), os_enomem = (\<lambda>k. False)\<rparr>"

lemma some_os_ok: "os_ok some_os"
  by (auto simp: os_ok_def some_os_def split: if_splits)

definition idle_ioctl :: "u32 \<Rightarrow> ('s, unit) tee_ioc" where
  "idle_ioctl cmd ps w = (Ioctl_done TEE_SUCCESS 4 ps (), w)"

lemma idle_ioctl_ok: "ioctl_ok (idle_ioctl cmd)"
  by (simp add: ioctl_ok_def idle_ioctl_def same_shape_def)

definition some_operation :: TEEC_Operation where
  "some_operation = \<lparr>ot_paramTypes = 0x0365, ot_params = [T_tmpref 1 3, T_tmpref 2 2, T_value 7 8, T_none]\<rparr>"

definition some_world :: "unit teec_world" where
  "some_world = \<lparr>tw_mem = [1 \<mapsto> [10, 20, 30], 2 \<mapsto> [0, 0]], tw_fds = {3}, tw_reg = Map.empty, tw_peer = ()\<rparr>"

lemma some_operation_wf: "operation_wf some_operation some_world"
proof -
  have "TEEC_PARAM_TYPE_GET 0x365 0 = 5" "TEEC_PARAM_TYPE_GET 0x365 (Suc 0) = 6"
    "TEEC_PARAM_TYPE_GET 0x365 (Suc (Suc 0)) = 3" "TEEC_PARAM_TYPE_GET 0x365 (Suc (Suc (Suc 0))) = 0" by code_simp+
  then show ?thesis
    by (simp add: operation_wf_def some_operation_def some_world_def param_wf_def is_temp_def holds_def len_at_def)
qed

theorem invoke_command_balanced_witness:
  "\<exists>res origin opn' w'. TEEC_InvokeCommand idle_ioctl some_os (Some \<lparr>cx_reg_mem = False, cx_memref_null = False\<rparr>) 4
      (Some some_operation) some_world = Inr (res, origin, Some opn', w') \<and>
    tw_fds w' = tw_fds some_world \<and> len_at w' = len_at some_world"
  by (rule invoke_command_balanced [OF some_os_ok idle_ioctl_ok some_operation_wf])

end
