(* ===== verification/Spec2Isabelle.thy ===== *)
theory Spec2Isabelle
  imports Qai_Batch Sw_Log_Race Ldelf_Map Phys_Mem Tee_Time_Ta Mutex_Recursive Tee_Pobj Teec
begin

text \<open>
  A verification of an OP-TEE port to the Raspberry Pi 5: the QAI trusted application that the
  port adds with its clients, its secure-world log, and the parts of the OP-TEE kernel that
  loading and running an application rests on.

  \<^bold>\<open>The program.\<close> A client in the normal world sends commands with memory buffers to the trusted
  application under \<open>optee_examples/qai_ta/ta\<close>, which classifies feature vectors with small integer
  models, evaluates a fidelity kernel on a simulated quantum state, and returns the results in the
  buffers. The clients under \<open>optee_examples/qai_ta/host\<close> are a demonstration (\<open>main.c\<close>) and two batch
  programs that send files in chunks (\<open>hai_infer_client.c\<close>, \<open>hai_kernel.c\<close>). They call the client library
  under \<open>optee_client/libteec\<close>, which shares their buffers with the driver. The kernel under \<open>optee_os/core\<close> loads the application through system calls of its loader
  (\<open>kernel/ldelf_syscalls.c\<close>), which name binaries by handles (\<open>kernel/handle.c\<close>) and share read-only
  pages through files (\<open>mm/file.c\<close>, counted by \<open>kernel/refcount.c\<close>). Memory comes from range allocators
  (\<open>mm/tee_mm.c\<close>, \<open>mm/phys_mem.c\<close>). Threads exclude each other with sleeping mutexes
  (\<open>kernel/mutex.c\<close>, \<open>kernel/wait_queue.c\<close>). Applications have clocks (\<open>tee/tee_time_generic.c\<close>) and
  persistent objects (\<open>tee/tee_pobj.c\<close>). Messages of the secure world go to a ring buffer in
  normal-world memory (\<open>arch/arm/plat-rpi5/sw_log.c\<close>) that \<open>tools/optee-sw-log.c\<close> prints.

  \<^bold>\<open>How it is modelled.\<close> Functions of C are functions of HOL with the names of the source. State is a
  record passed through. A result of type \<open>'a res\<close> is a fault or a value: signed overflow, an access
  outside an array, a read of the wrong union member, a division by zero and a panic are faults, so
  that a theorem about a value says that none of them happens. Unsigned integers are words of their
  width; signed ones are integers whose every operation checks the range. Loops are structural
  recursion over index lists, a terminating function with a measure, or, for the reader of the log,
  a partial function whose divergence is the value none. Results of calls into code that is not
  modelled (allocation, the clock, user memory, the virtual-memory layer, the normal world) are
  arguments or records of environment values over which the theorems quantify. Concurrent code is a
  step relation whose steps are the atomic accesses or the critical sections of the source, and
  its theorems hold in every state reachable by any interleaving.

  \<^bold>\<open>Theories.\<close>
  \<^item> \<open>Optee_Prelude\<close>: faults, checked arithmetic, arrays and buffers, little-endian words, result codes.
  \<^item> \<open>Qai_Model\<close>: \<open>qai_ta.h\<close>, \<open>model_params.h\<close>, \<open>model_hai.h\<close>: structures with their byte layout, tables.
  \<^item> \<open>Qai_Inference\<close>: \<open>inference.c\<close>; exact scores, definedness, the involution of the XOR stream.
  \<^item> \<open>Qai_Hai\<close>: \<open>hai_infer.c\<close>; the decisions of both fixed-point models.
  \<^item> \<open>Qai_Fidelity\<close>: \<open>fidelity_kernel.c\<close> over an abstract double arithmetic; each gate against its
    linear map, the circuit against composition, and over the reals the exact self-fidelity. The
    locale \<open>undo_steps\<close> (a list of steps undone in reverse order) is interpreted for the
    rotations, for the entangling ring and for whole circuits.
  \<^item> \<open>Qai_TA\<close>: \<open>qai_ta.c\<close>; every command from request bytes to reply bytes is free of faults.
  \<^item> \<open>Qai_Commands\<close>: what the commands answer; protected against plain inference, wiping, blocks.
  \<^item> \<open>Qai_Client\<close>: \<open>main.c\<close> of the client over an invocation that is a parameter, and the session
    that hands invocations to the model of the application.
  \<^item> \<open>Qai_Batch\<close>: the two batch clients; the locales \<open>row_service\<close> and \<open>matrix_service\<close> state what a
    chunk loop relies on and are interpreted on that session.
  \<^item> \<open>Teec\<close>: the client library: shared memory, the preparation of every kind of parameter, sessions
    and commands, over an operating system and a driver that are parameters.
  \<^item> \<open>Sw_Log\<close>, \<open>Sw_Log_Race\<close>: the writer and the reader of the log, alone and interleaved one memory
    access at a time. The locale \<open>byte_log\<close> is the contract of an append-only log.
  \<^item> \<open>Handle_Db\<close>: \<open>handle.c\<close>; the locale \<open>handle_table\<close> states the laws the loader relies on.
  \<^item> \<open>Ldelf_Bins\<close>, \<open>Ldelf_Map\<close>: the system calls of the loader: binaries and handles, and mapping.
  \<^item> \<open>Refcount\<close>, \<open>File_Store\<close>: reference counters as compare-and-swap loops, and the table of files.
  \<^item> \<open>Tee_Mm\<close>, \<open>Phys_Mem\<close>, \<open>Tee_Misc\<close>: the range allocator at the widths of the code, with the locale
    \<open>range_allocator\<close>, the physical pools on it, and range predicates and hexadecimal strings.
  \<^item> \<open>Tee_Time_Ta\<close>: offsets of application clocks, the busy wait.
  \<^item> \<open>Wait_Queue\<close>, \<open>Mutex\<close>, \<open>Mutex_Recursive\<close>: the queue, and threads that lock, share, wait and signal.
  \<^item> \<open>Tee_Pobj\<close>: the table of open persistent objects and the access rule.

  \<^bold>\<open>What is shown.\<close> The application never leaves its buffers for any command, parameter and content
  that the framework can deliver. Its block commands answer exactly the specified values, and
  protected inference answers what plain inference does. End to end, the clients obtain what they
  ask for: an inference in the normal world and one in the application agree, a file of rows is
  classified row by row, and a kernel matrix is computed entry by entry, whatever the chunking.
  The log reader prints a prefix of what was written as long as it does not fall into the window
  between the two header stores. The client library gives back every descriptor and block a command
  took. Loader handles, open binaries, their stores and their files correspond, mapping is all or nothing, and code is never writable. Allocated
  ranges never overlap, an allocation fails only when no run of pages is large enough or the entry
  for it cannot be allocated, and carved-out memory is never handed out. Mutexes
  exclude, wake-ups are not lost, and the unlocked reads of a recursive mutex are harmless. Shared
  files and objects live exactly as long as their references. Encodings and clocks round-trip. The
  theorems that are not claims show where the code departs from its purpose; each is described
  where it stands.

  \<^bold>\<open>Bounds.\<close> No theorem bounds the length of a run; the reference counters are exact as long as
  fewer than 2^32 references exist at a time. The fidelity kernel is bounded by the interface
  (16 qubits, 32 pairs, 3 repetitions). Mutexes assume fewer than 32767 threads, which keeps the
  16-bit reader count from wrapping. Range allocators are shown correct for pools whose pages fit
  32 bits, whose size is below 4 GiB where the code computes it in 32 bits, and that do not start
  at address 0; the theorems beyond these limits are counterexamples. The answers of the fixed-point
  classifier are shown for features of at most 2^24 in magnitude. Clocks are monotone and below 2^63.

  \<^bold>\<open>Not modelled.\<close> Floating point is abstract: rounding of \<open>double\<close> is a parameter. Relaxed memory
  ordering is not modelled; the accesses of the log and the critical sections of the mutex are
  sequentially consistent. Buffers are lists of bytes, so the alignment of pointers that the code casts
  is not checked. Virtual memory, the page pager, session management, cryptography, drivers,
  other platforms and the system calls other than the loader's are outside. The clients are composed with the application directly: the path of an
  invocation through the library, the driver and the dispatcher of the kernel is there taken
  to deliver parameters and results unchanged. Also outside are the boot stages (trusted
  firmware, U-Boot), which mostly program registers, the tests, and the scripts. File access of
  the tools is input and output.
\<close>

end
